(* ===== verification/Prelude.thy ===== *)
theory Prelude
  imports Main "HOL-Library.Word" "HOL-Library.AList" "HOL-Library.Monad_Syntax"
    "HOL-Library.Signed_Division"
begin

text \<open>
  Shared vocabulary of the development: the Go types the broker is written in (bytes, 16- and
  32-bit words, strings as byte sequences), the error values its functions return, the two
  kinds of reader it decodes from, Go maps as association lists, and the interface of a
  wire format (the locale \<open>wire_format\<close>) that every codec of the development provides.
\<close>

unbundle bit_operations_syntax

section \<open>Go types\<close>

type_synonym byte = "8 word"
type_synonym uint16 = "16 word"
type_synonym uint32 = "32 word"

text \<open>
  A Go string is a sequence of bytes, and so is an Isabelle string (a char has eight bits);
  the conversions \<open>[]byte(s)\<close> and \<open>string(b)\<close> go byte by byte.
\<close>

definition bytes_of_string :: "string \<Rightarrow> byte list" where
  "bytes_of_string s = map (\<lambda>c. word_of_nat (of_char c)) s"

definition string_of_bytes :: "byte list \<Rightarrow> string" where
  "string_of_bytes b = map (\<lambda>x. char_of (unat x)) b"

lemma byte_mod: "unat (x :: byte) mod 256 = unat x"
proof -
  have "unat x < 2 ^ LENGTH(8)" by (rule unsigned_less)
  then show ?thesis by simp
qed

lemma string_of_bytes_of_string [simp]: "string_of_bytes (bytes_of_string s) = s"
proof -
  have "char_of (unat (word_of_nat (of_char c) :: byte)) = c" for c
    by (simp add: unsigned_of_nat take_bit_eq_mod)
  then show ?thesis
    by (simp add: string_of_bytes_def bytes_of_string_def comp_def)
qed

lemma bytes_of_string_of_bytes [simp]: "bytes_of_string (string_of_bytes b) = b"
proof -
  have "word_of_nat (of_char (char_of (unat x))) = x" for x :: byte
    by (simp add: byte_mod)
  then show ?thesis
    by (simp add: string_of_bytes_def bytes_of_string_def comp_def)
qed

lemma length_bytes_of_string [simp]: "length (bytes_of_string s) = length s"
  by (simp add: bytes_of_string_def)

lemma length_string_of_bytes [simp]: "length (string_of_bytes b) = length b"
  by (simp add: string_of_bytes_def)

text \<open>The errors the modelled code returns, one constructor per origin.\<close>

datatype go_error =
    EOF \<comment> \<open>\<open>io.EOF\<close>\<close>
  | ErrUnexpectedEOF \<comment> \<open>\<open>io.ErrUnexpectedEOF\<close>\<close>
  | ErrUnsupportedPacket byte \<comment> \<open>unsupported packet type\<close>
  | ErrReadExpected \<comment> \<open>failed to read expected data\<close>
  | ErrPayloadLength \<comment> \<open>error unpacking publish, payload length < 0\<close>
  | ErrConnDisconnected \<comment> \<open>CONN IS DISCONNECTED\<close>
  | ErrConnWrite \<comment> \<open>the error of a write on a broken connection\<close>
  | ErrTopicNotExist \<comment> \<open>TOPIC NOT EXIST\<close>
  | ErrQos2NotFound \<comment> \<open>QOS2 MSG NOT FOUND ERROR\<close>
  | ErrQos2Full \<comment> \<open>QOS2 MSG FULL ERROR\<close>
  | ErrQos2Exist \<comment> \<open>QOS2 MSG ALL EXIST ERROR\<close>

section \<open>Readers\<close>

text \<open>
  A reader is the sequence of bytes it still holds. \<open>buffer_Read\<close> is
  \<open>bytes.Buffer.Read\<close> on a fresh slice of \<open>n\<close> bytes: a buffer with fewer bytes than asked
  fills the front of the slice, leaves zeros behind it and reports no error; only an empty
  buffer reports \<open>io.EOF\<close>, and not even that for an empty slice. \<open>io_ReadFull\<close> is
  \<open>io.ReadFull\<close> on a connection: a short read is an error. The result also carries the
  number of bytes read.
\<close>

definition buffer_Read :: "nat \<Rightarrow> byte list \<Rightarrow> byte list \<times> go_error option \<times> byte list" where
  "buffer_Read n b =
     (if b = [] then (replicate n 0, (if n = 0 then None else Some EOF), [])
      else (take n b @ replicate (n - length b) 0, None, drop n b))"

definition io_ReadFull :: "nat \<Rightarrow> byte list \<Rightarrow> byte list \<times> nat \<times> go_error option \<times> byte list" where
  "io_ReadFull n r =
     (if n \<le> length r then (take n r, n, None, drop n r)
      else (r @ replicate (n - length r) 0, length r,
            (if r = [] then Some EOF else Some ErrUnexpectedEOF), []))"

named_theorems reader_simps \<open>what the readers return on input of known shape\<close>

lemma buffer_Read_enough [reader_simps]:
  "n = length xs \<Longrightarrow> buffer_Read n (xs @ rest) = (xs, None, rest)"
  by (auto simp: buffer_Read_def)

lemma buffer_Read_all [reader_simps]:
  "n = length xs \<Longrightarrow> buffer_Read n xs = (xs, None, [])"
  by (auto simp: buffer_Read_def)

lemma buffer_Read_length:
  "buffer_Read n b = (num, e, b') \<Longrightarrow> length num = n"
  by (auto simp: buffer_Read_def split: if_splits)

lemma buffer_Read_rest:
  "buffer_Read n b = (num, e, b') \<Longrightarrow> b' = drop n b"
  by (auto simp: buffer_Read_def split: if_splits)

lemma buffer_Read_error:
  "buffer_Read n b = (num, e, b') \<Longrightarrow> e \<noteq> None \<longleftrightarrow> b = [] \<and> n \<noteq> 0"
  by (auto simp: buffer_Read_def split: if_splits)

lemma io_ReadFull_enough [reader_simps]:
  "n = length xs \<Longrightarrow> io_ReadFull n (xs @ rest) = (xs, n, None, rest)"
  by (auto simp: io_ReadFull_def)

lemma io_ReadFull_ok:
  "io_ReadFull n r = (xs, k, None, r') \<longleftrightarrow> r = xs @ r' \<and> length xs = n \<and> k = n"
  by (auto simp: io_ReadFull_def)

section \<open>Go maps\<close>

text \<open>
  A Go map is an association list with distinct keys; ranging over it visits the entries in
  the order of the list. Go leaves that order open, so a theorem for every list is a theorem
  for every order of iteration. \<open>go_store\<close> and \<open>go_delete\<close> are \<open>m[k] = v\<close> and
  \<open>delete(m, k)\<close>; reading is \<open>map_of\<close>.
\<close>

abbreviation go_store :: "'k \<Rightarrow> 'v \<Rightarrow> ('k \<times> 'v) list \<Rightarrow> ('k \<times> 'v) list" where
  "go_store \<equiv> AList.update"

abbreviation go_delete :: "'k \<Rightarrow> ('k \<times> 'v) list \<Rightarrow> ('k \<times> 'v) list" where
  "go_delete \<equiv> AList.delete"

definition go_map :: "('k \<times> 'v) list \<Rightarrow> bool" where
  "go_map m \<longleftrightarrow> distinct (map fst m)"

named_theorems go_map_simps \<open>lookups after a store or a delete, and distinctness\<close>

lemma map_of_go_store [go_map_simps]: "map_of (go_store k v m) = (map_of m)(k \<mapsto> v)"
  by (rule update_conv')

lemma map_of_go_delete [go_map_simps]: "map_of (go_delete k m) = (map_of m)(k := None)"
  by (rule delete_conv')

lemma go_map_Nil [simp]: "go_map []"
  by (simp add: go_map_def)

lemma go_map_store [intro, go_map_simps]: "go_map m \<Longrightarrow> go_map (go_store k v m)"
  by (simp add: go_map_def distinct_update)

lemma go_map_delete [intro, go_map_simps]: "go_map m \<Longrightarrow> go_map (go_delete k m)"
  by (simp add: go_map_def distinct_delete)

lemma go_map_Cons [simp]: "go_map ((k, v) # m) \<longleftrightarrow> k \<notin> fst ` set m \<and> go_map m"
  by (simp add: go_map_def)

lemma go_map_in_set: "go_map m \<Longrightarrow> (k, v) \<in> set m \<longleftrightarrow> map_of m k = Some v"
  by (auto simp: go_map_def dest: map_of_SomeD)

lemma set_go_store:
  "go_map m \<Longrightarrow> set (go_store k v m) = insert (k, v) {e \<in> set m. fst e \<noteq> k}"
proof -
  assume m: "go_map m"
  have "e \<in> set (go_store k v m) \<longleftrightarrow> map_of (go_store k v m) (fst e) = Some (snd e)" for e
    using go_map_in_set [OF go_map_store [OF m], of "fst e" "snd e" k v] by simp
  then show ?thesis
    using m by (auto simp: map_of_go_store go_map_in_set split: if_splits)
qed

lemma set_go_delete: "set (go_delete k m) = {e \<in> set m. fst e \<noteq> k}"
  by (auto simp: AList.delete_eq)

section \<open>The interface of a wire format\<close>

text \<open>
  A wire format is an encoder and a decoder that reads one value off the front of a byte
  sequence and leaves the rest. The law is the one a chained parser needs: whatever follows
  the encoding, the decoder returns the value, no error and exactly what followed. \<open>val\<close>
  is what the decoder makes of an encoded value (it may fill in derived fields), \<open>ok\<close> the
  values the format can carry.
\<close>

fun read_times ::
  "nat \<Rightarrow> ('s \<Rightarrow> 'v \<times> go_error option \<times> 's) \<Rightarrow> 's \<Rightarrow> 'v list \<times> go_error option \<times> 's" where
  "read_times 0 dec s = ([], None, s)"
| "read_times (Suc n) dec s =
     (case dec s of
        (v, Some e, s') \<Rightarrow> ([], Some e, s')
      | (v, None, s') \<Rightarrow>
          (case read_times n dec s' of (vs, e, s'') \<Rightarrow> (v # vs, e, s'')))"

locale wire_format =
  fixes enc :: "'a \<Rightarrow> byte list"
    and dec :: "byte list \<Rightarrow> 'b \<times> go_error option \<times> byte list"
    and val :: "'a \<Rightarrow> 'b"
    and ok :: "'a \<Rightarrow> bool"
  assumes dec_enc: "ok x \<Longrightarrow> dec (enc x @ rest) = (val x, None, rest)"
begin

lemma dec_enc_all: "ok x \<Longrightarrow> dec (enc x) = (val x, None, [])"
  using dec_enc [of x "[]"] by simp

lemma prefix_free: "ok x \<Longrightarrow> ok y \<Longrightarrow> enc x @ r = enc y @ s \<Longrightarrow> val x = val y \<and> r = s"
  using dec_enc [of x r] dec_enc [of y s] by simp

lemma dec_enc_stream:
  "list_all ok xs \<Longrightarrow>
     read_times (length xs) dec (concat (map enc xs) @ rest) = (map val xs, None, rest)"
  by (induction xs) (simp_all add: dec_enc)

lemma stream_unique:
  assumes "list_all ok xs" "list_all ok ys" "length xs = length ys"
    and "concat (map enc xs) @ r = concat (map enc ys) @ s"
  shows "map val xs = map val ys \<and> r = s"
  using dec_enc_stream [OF assms(1), of r] dec_enc_stream [OF assms(2), of s] assms(3,4)
  by simp

end

end
