(* ===== verification/Codec.thy ===== *)
theory Codec
  imports Prelude
begin

text \<open>
  The field codecs and the fixed header of \<open>packets/packets.go\<close>: single bytes, big-endian
  16-bit integers, length-prefixed byte strings, the variable-length integer of the remaining
  length, and the record \<open>FixedHeader\<close> with its \<open>pack\<close> and \<open>unpack\<close>. A decoder takes the
  bytes of its reader and returns the value, the error (if any) and what the reader still
  holds, as the Go functions return a value and an error and advance their reader.
\<close>

section \<open>Bytes, 16-bit integers, strings\<close>

definition boolToByte :: "bool \<Rightarrow> byte" where
  "boolToByte b = (if b then 1 else 0)"

definition decodeByte :: "byte list \<Rightarrow> byte \<times> go_error option \<times> byte list" where
  "decodeByte b =
     (let (num, err, b') = buffer_Read 1 b in
      if err \<noteq> None then (0, err, b') else (num ! 0, None, b'))"

text \<open>\<open>binary.BigEndian.Uint16\<close> and \<open>PutUint16\<close> of the standard library.\<close>

definition BigEndian_Uint16 :: "byte list \<Rightarrow> uint16" where
  "BigEndian_Uint16 b = ucast (b ! 1) OR push_bit 8 (ucast (b ! 0))"

definition BigEndian_PutUint16 :: "uint16 \<Rightarrow> byte list" where
  "BigEndian_PutUint16 v = [ucast (drop_bit 8 v), ucast v]"

definition decodeUint16 :: "byte list \<Rightarrow> uint16 \<times> go_error option \<times> byte list" where
  "decodeUint16 b =
     (let (num, err, b') = buffer_Read 2 b in
      if err \<noteq> None then (0, err, b') else (BigEndian_Uint16 num, None, b'))"

definition encodeUint16 :: "uint16 \<Rightarrow> byte list" where
  "encodeUint16 num = BigEndian_PutUint16 num"

definition encodeBytes :: "byte list \<Rightarrow> byte list" where
  "encodeBytes field = BigEndian_PutUint16 (word_of_nat (length field)) @ field"

definition decodeBytes :: "byte list \<Rightarrow> byte list \<times> go_error option \<times> byte list" where
  "decodeBytes b =
     (let (fieldLength, err, b) = decodeUint16 b in
      if err \<noteq> None then ([], err, b)
      else let (field, err, b) = buffer_Read (unat fieldLength) b in
           if err \<noteq> None then ([], err, b) else (field, None, b))"

definition encodeString :: "string \<Rightarrow> byte list" where
  "encodeString field = encodeBytes (bytes_of_string field)"

definition decodeString :: "byte list \<Rightarrow> string \<times> go_error option \<times> byte list" where
  "decodeString b = (let (buf, err, b') = decodeBytes b in (string_of_bytes buf, err, b'))"

section \<open>The remaining length\<close>

text \<open>
  \<open>encodeLength\<close> is Go's loop over a signed length: \<open>%\<close> and \<open>/\<close> truncate towards zero,
  and the digit is the low byte of the remainder.
\<close>

function encodeLength_loop :: "int \<Rightarrow> byte list \<Rightarrow> byte list" where
  "encodeLength_loop len encLength =
     (let digit = word_of_int (len smod 128);
          len' = len sdiv 128;
          digit = (if len' > 0 then digit OR 0x80 else digit);
          encLength = encLength @ [digit]
      in if len' = 0 then encLength else encodeLength_loop len' encLength)"
  by pat_completeness auto
termination
  by (relation "measure (\<lambda>(n, acc). nat \<bar>n\<bar>)")
    (auto simp: signed_divide_int_def abs_mult abs_sgn_eq split: if_splits)

definition encodeLength :: "int \<Rightarrow> byte list" where
  "encodeLength len = encodeLength_loop len []"

text \<open>
  \<open>decodeLength\<close> reads at most four digits: the loop runs while the shift is below 27. The
  32-bit accumulator and shift are kept at their width. The result is the length, the number
  of bytes it took and the error.
\<close>

function decodeLength_loop ::
  "uint32 \<Rightarrow> uint32 \<Rightarrow> int \<Rightarrow> byte list \<Rightarrow> int \<times> int \<times> go_error option \<times> byte list" where
  "decodeLength_loop rLength multiplier sz r =
     (if multiplier < 27 then
        let sz = sz + 1;
            (b, n, err, r') = io_ReadFull 1 r
        in if err \<noteq> None then (0, sz, err, r')
           else
             let digit = b ! 0;
                 rLength = rLength OR push_bit (unat multiplier) (ucast (digit AND 127))
             in if digit AND 128 = 0 then (uint rLength, sz, None, r')
                else decodeLength_loop rLength (multiplier + 7) sz r'
      else (uint rLength, sz, None, r))"
  by pat_completeness auto
termination
  by (relation "measure (\<lambda>(rl, m, sz, r). 27 - unat m)")
    (auto simp: word_less_nat_alt unat_word_ariths)

declare encodeLength_loop.simps [simp del] decodeLength_loop.simps [simp del]

definition decodeLength :: "byte list \<Rightarrow> int \<times> int \<times> go_error option \<times> byte list" where
  "decodeLength r = decodeLength_loop 0 0 0 r"

section \<open>The fixed header\<close>

record FixedHeader =
  MessageType :: byte
  Dup :: bool
  Qos :: byte
  Retain :: bool
  RemainingLength :: int
  PacketSize :: int

definition FixedHeader_pack :: "'a FixedHeader_scheme \<Rightarrow> byte list \<times> 'a FixedHeader_scheme" where
  "FixedHeader_pack fh =
     (let lenBytes = encodeLength (RemainingLength fh) in
      ((push_bit 4 (MessageType fh) OR push_bit 3 (boolToByte (Dup fh)) OR push_bit 1 (Qos fh)
          OR boolToByte (Retain fh)) # lenBytes,
       fh\<lparr>PacketSize := 1 + int (length lenBytes) + RemainingLength fh\<rparr>))"

definition FixedHeader_unpack ::
  "FixedHeader \<Rightarrow> byte \<Rightarrow> byte list \<Rightarrow> FixedHeader \<times> go_error option \<times> byte list" where
  "FixedHeader_unpack fh typeAndFlags r =
     (let fh = fh\<lparr>MessageType := drop_bit 4 typeAndFlags,
                  Dup := (drop_bit 3 typeAndFlags AND 1) > 0,
                  Qos := drop_bit 1 typeAndFlags AND 3,
                  Retain := typeAndFlags AND 1 > 0\<rparr>;
          (len, sz, err, r) = decodeLength r
      in (fh\<lparr>RemainingLength := len, PacketSize := PacketSize fh + sz\<rparr>, err, r))"

definition FixedHeader_Size :: "'a FixedHeader_scheme \<Rightarrow> int" where
  "FixedHeader_Size fh = PacketSize fh"

section \<open>Laws of the field codecs\<close>

lemma decodeByte_Cons: "decodeByte (x # rest) = (x, None, rest)"
  by (simp add: decodeByte_def buffer_Read_def)

lemma decodeByte_Nil: "decodeByte [] = (0, Some EOF, [])"
  by (simp add: decodeByte_def buffer_Read_def)

lemma BigEndian_roundtrip: "BigEndian_Uint16 (BigEndian_PutUint16 v) = v"
  by (rule bit_word_eqI)
    (auto simp: BigEndian_Uint16_def BigEndian_PutUint16_def bit_simps not_less
      simp del: push_bit_Suc)

lemma length_PutUint16 [simp]: "length (BigEndian_PutUint16 v) = 2"
  by (simp add: BigEndian_PutUint16_def)

lemma decodeUint16_encode: "decodeUint16 (encodeUint16 v @ rest) = (v, None, rest)"
  by (simp add: decodeUint16_def encodeUint16_def reader_simps BigEndian_roundtrip)

lemma decodeBytes_encode:
  assumes "length field < 65536"
  shows "decodeBytes (encodeBytes field @ rest) = (field, None, rest)"
proof -
  have "unat (word_of_nat (length field) :: uint16) = length field"
    using assms by (simp add: unsigned_of_nat take_bit_nat_eq_self)
  moreover have "decodeUint16 (encodeBytes field @ rest)
      = (word_of_nat (length field), None, field @ rest)"
    using decodeUint16_encode by (simp add: encodeBytes_def encodeUint16_def)
  ultimately show ?thesis
    by (simp add: decodeBytes_def reader_simps)
qed

lemma decodeString_encode:
  "length field < 65536 \<Longrightarrow> decodeString (encodeString field @ rest) = (field, None, rest)"
  by (simp add: decodeString_def encodeString_def decodeBytes_encode)

lemma length_encodeUint16 [simp]: "length (encodeUint16 v) = 2"
  by (simp add: encodeUint16_def)

lemma length_encodeBytes [simp]: "length (encodeBytes b) = 2 + length b"
  by (simp add: encodeBytes_def)

lemma length_encodeString [simp]: "length (encodeString s) = 2 + length s"
  by (simp add: encodeString_def)

interpretation byte_format: wire_format "\<lambda>x. [x]" decodeByte "\<lambda>x. x" "\<lambda>_. True"
  by unfold_locales (simp add: decodeByte_Cons)

interpretation uint16_format: wire_format encodeUint16 decodeUint16 "\<lambda>x. x" "\<lambda>_. True"
  by unfold_locales (rule decodeUint16_encode)

interpretation bytes_format:
  wire_format encodeBytes decodeBytes "\<lambda>x. x" "\<lambda>b. length b < 65536"
  by unfold_locales (rule decodeBytes_encode)

interpretation string_format:
  wire_format encodeString decodeString "\<lambda>x. x" "\<lambda>s. length s < 65536"
  by unfold_locales (rule decodeString_encode)

section \<open>The variable-length integer\<close>

text \<open>The digits of a natural number, least significant first, as a plain recursion.\<close>

fun varint :: "nat \<Rightarrow> byte list" where
  "varint n = (if n < 128 then [word_of_nat n]
     else (word_of_nat (n mod 128) OR 128) # varint (n div 128))"
declare varint.simps [simp del]

lemma nat_or_push_bit:
  fixes a b :: nat
  assumes "a < 2 ^ m"
  shows "a OR push_bit m b = a + b * 2 ^ m"
proof -
  have "\<not> bit a n \<or> \<not> bit (push_bit m b) n" for n
  proof (cases "n < m")
    case True
    then show ?thesis by (simp add: bit_push_bit_iff)
  next
    case False
    from assms have "take_bit m a = a" by (rule take_bit_nat_eq_self)
    then have "\<not> bit a n" using False by (metis bit_take_bit_iff)
    then show ?thesis ..
  qed
  then have "a + push_bit m b = a OR push_bit m b" by (rule disjunctive_add)
  then show ?thesis by (simp add: push_bit_eq_mult)
qed

lemma or_push_bit_add:
  fixes rl :: uint32 and d :: byte
  assumes "unat rl < 2 ^ m" "unat d < 128" "m \<le> 21"
  shows "unat (rl OR push_bit m (ucast d)) = unat rl + unat d * 2 ^ m"
proof -
  have "unat d * 2 ^ m < 2 ^ 7 * 2 ^ 21"
    using assms(2) power_increasing [OF assms(3), of "2 :: nat"]
    by (intro mult_less_le_imp_less) auto
  then have "push_bit m (unat d) < 2 ^ 32"
    by (simp add: push_bit_eq_mult)
  then have "take_bit 32 (push_bit m (unat d)) = push_bit m (unat d)"
    by (rule take_bit_nat_eq_self)
  moreover have "unat (push_bit m (ucast d :: uint32)) = take_bit 32 (push_bit m (unat (ucast d :: uint32)))"
    by (simp only: unsigned_push_bit_eq) simp
  moreover have "unat (ucast d :: uint32) = unat d"
    using assms(2) by (simp add: unsigned_ucast_eq take_bit_nat_eq_self)
  ultimately have "unat (push_bit m (ucast d :: uint32)) = push_bit m (unat d)"
    by simp
  then show ?thesis
    using assms(1) by (simp add: unsigned_or_eq nat_or_push_bit)
qed

lemma nonneg_sdiv [simp]: "int n sdiv 128 = int (n div 128)" "int n smod 128 = int (n mod 128)"
  by (auto simp: signed_divide_int_def signed_modulo_int_def sgn_if zdiv_int zmod_int)

lemma encodeLength_loop_varint: "encodeLength_loop (int n) acc = acc @ varint n"
proof (induction n arbitrary: acc rule: varint.induct)
  case (1 n)
  show ?case
  proof (cases "n < 128")
    case True
    then show ?thesis
      by (simp add: encodeLength_loop.simps [of "int n"] varint.simps [of n])
  next
    case False
    then have "n div 128 > 0" by (simp add: div_greater_zero_iff)
    with False "1.IH" [OF False] show ?thesis
      by (simp add: encodeLength_loop.simps [of "int n"] varint.simps [of n] Let_def)
  qed
qed


lemma digit_masks:
  assumes "k < 128"
  shows "(word_of_nat k OR 128 :: byte) AND 127 = word_of_nat k"
  "(word_of_nat k OR 128 :: byte) AND 128 = 128"
  "(word_of_nat k :: byte) AND 127 = word_of_nat k"
  "(word_of_nat k :: byte) AND 128 = 0"
proof -
  have t: "take_bit 7 (word_of_nat k :: byte) = word_of_nat k"
    using assms by (simp add: take_bit_of_nat take_bit_nat_eq_self)
  have m: "(127 :: byte) = mask 7" and p: "(128 :: byte) = push_bit 7 1" by (simp_all add: mask_eq_exp_minus_1)
  show a: "(word_of_nat k :: byte) AND 127 = word_of_nat k"
    using t by (simp only: m take_bit_eq_mask [symmetric])
  have z: "(127 :: byte) AND 128 = 0" by simp
  show b: "(word_of_nat k :: byte) AND 128 = 0"
    by (subst a [symmetric]) (simp only: and.assoc z, simp)
  show "(word_of_nat k OR 128 :: byte) AND 127 = word_of_nat k"
    by (simp add: bit.conj_disj_distrib2 a)
  show "(word_of_nat k OR 128 :: byte) AND 128 = 128"
    by (simp add: bit.conj_disj_distrib2 b)
qed

lemma digit_more: "k < 128 \<Longrightarrow> ((word_of_nat k OR 128 :: byte) AND 128 = 0) = False"
  by (simp only: digit_masks(2)) (simp only: word_unat_eq_iff, simp)

lemma decodeLength_step:
  "mult < 27 \<Longrightarrow> decodeLength_loop rl mult sz (d # r) =
     (let rl' = rl OR push_bit (unat mult) (ucast (d AND 127)) in
      if d AND 128 = 0 then (uint rl', sz + 1, None, r)
      else decodeLength_loop rl' (mult + 7) (sz + 1) r)"
  by (subst decodeLength_loop.simps) (simp add: io_ReadFull_def Let_def)

lemma decodeLength_loop_varint:
  assumes "m \<in> {0,7,14,21}" "unat rl < 2 ^ m" "n < 2 ^ (28 - m)"
  shows "decodeLength_loop rl (word_of_nat m) sz (varint n @ rest) =
     (int (unat rl + n * 2 ^ m), sz + int (length (varint n)), None, rest)"
  using assms
proof (induction n arbitrary: m rl sz rule: varint.induct)
  case (1 n)
  let ?k = "n mod 128" and ?w = "word_of_nat (n mod 128) :: byte"
  let ?rl = "rl OR push_bit m (ucast ?w)"
  have m27: "(word_of_nat m :: uint32) < 27" and um: "unat (word_of_nat m :: uint32) = m"
    using "1.prems"(1) by auto
  have k: "?k < 128" by simp
  then have "unat ?w = ?k"
    by (simp add: unsigned_of_nat take_bit_nat_eq_self)
  then have rl: "unat ?rl = unat rl + ?k * 2 ^ m"
    using or_push_bit_add [of rl m ?w] "1.prems"(1,2) k by auto
  show ?case
  proof (cases "n < 128")
    case True
    then show ?thesis
      using arg_cong [OF rl, of int]
      by (simp add: varint.simps [of n] decodeLength_step m27 um digit_masks Let_def)
  next
    case False
    then have m': "m + 7 \<in> {0, 7, 14, 21}"
      using "1.prems"(1,3) by auto
    have "unat rl + ?k * 2 ^ m < 2 ^ m + 127 * 2 ^ m"
      using "1.prems"(2) k by (intro add_less_le_mono mult_le_mono1) auto
    then have "unat ?rl < 2 ^ (m + 7)"
      using rl by (simp add: power_add)
    moreover have "n div 128 < 2 ^ (28 - (m + 7))"
      using "1.prems"(1,3) False by auto
    ultimately have IH: "decodeLength_loop ?rl (word_of_nat (m + 7)) (sz + 1) (varint (n div 128) @ rest) =
      (int (unat ?rl + n div 128 * 2 ^ (m + 7)), sz + 1 + int (length (varint (n div 128))), None, rest)"
      using "1.IH" [OF False m'] by blast
    have "n * 2 ^ m = (n div 128 * 128 + ?k) * 2 ^ m"
      by simp
    also have "\<dots> = n div 128 * (128 * 2 ^ m) + ?k * 2 ^ m"
      by (simp only: distrib_right mult.assoc)
    finally have total: "unat ?rl + n div 128 * 2 ^ (m + 7) = unat rl + n * 2 ^ m"
      unfolding rl power_add by (simp add: mult.commute)
    have "decodeLength_loop rl (word_of_nat m) sz ((word_of_nat ?k OR 128) # varint (n div 128) @ rest)
        = decodeLength_loop ?rl (word_of_nat (m + 7)) (sz + 1) (varint (n div 128) @ rest)"
      unfolding decodeLength_step [OF m27] digit_masks(1) [OF k] digit_more [OF k] um Let_def
      by simp
    with IH False arg_cong [OF total, of int] show ?thesis
      by (simp add: varint.simps [of n] add.commute)
  qed
qed

lemma decodeLength_cases:
  "mult < 27 \<Longrightarrow> decodeLength_loop rl mult sz [] = (0, sz + 1, Some EOF, [])"
  "\<not> mult < 27 \<Longrightarrow> decodeLength_loop rl mult sz r = (uint rl, sz, None, r)"
  by (subst decodeLength_loop.simps, simp add: io_ReadFull_def Let_def)+


text \<open>\<open>k\<close> digits may still be read: the shift is \<open>28 - 7 * k\<close>.\<close>

lemma decodeLength_loop_bounds:
  assumes "decodeLength_loop rl (word_of_nat (28 - 7 * k)) sz r = (n, sz', e, r')"
    and "k \<le> 4" "unat rl < 2 ^ (28 - 7 * k)"
  shows "0 \<le> n \<and> n < 2 ^ 28 \<and> sz \<le> sz' \<and> sz' \<le> sz + int k \<and> (k > 0 \<longrightarrow> sz < sz') \<and>
     (e = None \<longrightarrow> sz' \<le> sz + int (length r) \<and> r' = drop (nat (sz' - sz)) r)"
  using assms
proof (induction k arbitrary: rl sz r)
  case 0
  then have "uint rl < 2 ^ 28" by (simp add: uint_nat del: of_nat_unat)
  with 0 show ?case by (auto simp: decodeLength_cases(2))
next
  case (Suc k)
  define m where "m = 28 - 7 * Suc k"
  let ?mult = "word_of_nat m :: uint32"
  from Suc.prems(2) have m: "m \<le> 21" "28 - 7 * k = m + 7" by (auto simp: m_def)
  then have um: "unat ?mult = m" and m27: "?mult < 27"
    by (simp_all add: unsigned_of_nat take_bit_nat_eq_self word_less_nat_alt)
  have m7: "?mult + 7 = word_of_nat (28 - 7 * k)" by (simp add: m(2))
  note rl0 = Suc.prems(3) [folded m_def] and run = Suc.prems(1) [folded m_def]
  show ?case
  proof (cases r)
    case Nil
    with run show ?thesis by (auto simp: decodeLength_cases(1) [OF m27])
  next
    case (Cons d r1)
    let ?rl = "rl OR push_bit m (ucast (d AND 127))"
    have "d AND 127 \<le> 127" by (rule word_and_le1)
    then have d: "unat (d AND 127) < 128" by (simp add: word_le_nat_alt)
    have "unat ?rl = unat rl + unat (d AND 127) * 2 ^ m"
      using m(1) by (intro or_push_bit_add rl0 d) auto
    also have "\<dots> < 2 ^ m + 127 * 2 ^ m"
      using d rl0 by (intro add_less_le_mono mult_le_mono1) auto
    finally have rl: "unat ?rl < 2 ^ (m + 7)" by (simp add: power_add)
    also have "(2 :: nat) ^ (m + 7) \<le> 2 ^ 28" using m(1) by (intro power_increasing) auto
    finally have "uint ?rl < 2 ^ 28" by (simp add: uint_nat del: of_nat_unat)
    show ?thesis
    proof (cases "d AND 128 = 0")
      case True
      with run Cons \<open>uint ?rl < 2 ^ 28\<close> show ?thesis
        by (auto simp: decodeLength_step [OF m27] um Let_def)
    next
      case False
      have "decodeLength_loop ?rl (word_of_nat (28 - 7 * k)) (sz + 1) r1 = (n, sz', e, r')"
        using run False by (simp add: Cons decodeLength_step [OF m27] um m7 Let_def)
      then have "0 \<le> n \<and> n < 2 ^ 28 \<and> sz + 1 \<le> sz' \<and> sz' \<le> sz + 1 + int k \<and>
         (e = None \<longrightarrow> sz' \<le> sz + 1 + int (length r1) \<and> r' = drop (nat (sz' - (sz + 1))) r1)"
        using Suc.IH [of ?rl "sz + 1" r1] Suc.prems(2) rl m(2) by simp
      moreover from this have "nat (sz' - sz) = Suc (nat (sz' - (sz + 1)))" by arith
      ultimately show ?thesis using Cons by auto
    qed
  qed
qed

lemma decodeLength_total:
  assumes "decodeLength r = (n, sz, e, r')"
  shows "0 \<le> n" "n < 2 ^ 28" "1 \<le> sz" "sz \<le> 4"
    "e = None \<Longrightarrow> sz \<le> int (length r)" "e = None \<Longrightarrow> r' = drop (nat sz) r"
  using decodeLength_loop_bounds [of 0 4 0 r n sz e r'] assms
  by (auto simp: decodeLength_def)


section \<open>The header byte\<close>

lemma and_1_pos: "w AND 1 > 0 \<longleftrightarrow> bit w 0" for w :: byte
  by (simp add: and_one_eq word_gt_0 odd_iff_mod_2_eq_one bit_0)

lemma boolToByte_bit [bit_simps]: "bit (boolToByte b) n \<longleftrightarrow> b \<and> n = 0"
  by (auto simp: boolToByte_def bit_simps)

text \<open>The first byte of a packet: the type in the high nibble, dup, qos and retain below.\<close>

definition header_byte :: "byte \<Rightarrow> bool \<Rightarrow> byte \<Rightarrow> bool \<Rightarrow> byte" where
 "header_byte mt d q r = push_bit 4 mt OR push_bit 3 (boolToByte d) OR push_bit 1 q OR boolToByte r"

lemma small_bits: "unat (w::byte) < 2 ^ k \<Longrightarrow> k < 8 \<Longrightarrow> bit w n \<Longrightarrow> n < k"
proof -
  assume a: "unat w < 2 ^ k" "k < 8" "bit w n"
  then have "unat (take_bit k w) = unat w"
    by (simp add: unsigned_take_bit_eq take_bit_nat_eq_self)
  then have "take_bit k w = w" by (rule unsigned_word_eqI)
  then show "n < k" using a(3) by (metis bit_take_bit_iff)
qed

lemma header_byte_fields:
  assumes "mt < 16" "q < 4"
  shows "drop_bit 4 (header_byte mt d q r) = mt"
    "drop_bit 1 (header_byte mt d q r) AND 3 = q"
    "drop_bit 3 (header_byte mt d q r) AND 1 > 0 \<longleftrightarrow> d"
    "header_byte mt d q r AND 1 > 0 \<longleftrightarrow> r"
proof -
  have mt: "bit mt n \<Longrightarrow> n < 4" and q: "bit q n \<Longrightarrow> n < 2" for n
    using small_bits [of mt 4 n] small_bits [of q 2 n] assms by (simp_all add: word_less_nat_alt)
  show "drop_bit 4 (header_byte mt d q r) = mt"
    by (rule bit_word_eqI) (auto simp: header_byte_def bit_simps simp del: push_bit_of_Suc_0 push_bit_Suc dest: mt q)
  have "(3 :: byte) = mask 2" by (simp add: mask_eq_exp_minus_1)
  then have "drop_bit 1 h AND 3 = take_bit 2 (drop_bit 1 h)" for h :: byte
    by (simp only: take_bit_eq_mask)
  then show "drop_bit 1 (header_byte mt d q r) AND 3 = q"
    by (simp only:, intro bit_word_eqI)
      (auto simp: header_byte_def bit_simps simp del: push_bit_Suc dest: mt q)
  show "drop_bit 3 (header_byte mt d q r) AND 1 > 0 \<longleftrightarrow> d"
    by (auto simp: and_1_pos header_byte_def bit_simps simp del: push_bit_Suc dest: mt q)
  show "header_byte mt d q r AND 1 > 0 \<longleftrightarrow> r"
    by (auto simp: and_1_pos header_byte_def bit_simps simp del: push_bit_Suc dest: mt q)
qed


lemma FixedHeader_pack_bytes:
  "fst (FixedHeader_pack fh) =
     header_byte (MessageType fh) (Dup fh) (Qos fh) (Retain fh) # encodeLength (RemainingLength fh)"
  by (simp add: FixedHeader_pack_def header_byte_def Let_def)

lemma FixedHeader_pack_header:
  "snd (FixedHeader_pack fh) =
     fh\<lparr>PacketSize := 1 + int (length (encodeLength (RemainingLength fh))) + RemainingLength fh\<rparr>"
  by (simp add: FixedHeader_pack_def Let_def)

lemma decodeLength_encode:
  assumes "0 \<le> n" "n < 2 ^ 28"
  shows "decodeLength (encodeLength n @ rest) = (n, int (length (encodeLength n)), None, rest)"
proof -
  obtain k where k: "n = int k" using assms(1) nonneg_int_cases by blast
  with assms(2) have "k < 2 ^ 28" by simp
  with decodeLength_loop_varint [of 0 0 k 0 rest] show ?thesis
    by (simp add: decodeLength_def encodeLength_def k encodeLength_loop_varint)
qed

text \<open>A header read back: every field, and a packet size that counts the bytes of the header.\<close>

lemma FixedHeader_unpack_pack:
  assumes "MessageType fh < 16" "Qos fh < 4" "0 \<le> RemainingLength fh" "RemainingLength fh < 2 ^ 28"
  shows "FixedHeader_unpack fh0 (header_byte (MessageType fh) (Dup fh) (Qos fh) (Retain fh))
      (encodeLength (RemainingLength fh) @ rest) =
    ((FixedHeader.truncate fh)\<lparr>PacketSize :=
        PacketSize fh0 + int (length (encodeLength (RemainingLength fh)))\<rparr>, None, rest)"
  using header_byte_fields [OF assms(1,2)] decodeLength_encode [OF assms(3,4)]
  by (simp add: FixedHeader_unpack_def FixedHeader.truncate_def)

lemma length_varint_le: "n < 128 ^ Suc k \<Longrightarrow> 1 \<le> length (varint n) \<and> length (varint n) \<le> Suc k"
proof (induction k arbitrary: n)
  case 0
  then show ?case by (simp add: varint.simps [of n])
next
  case (Suc k)
  then have "n div 128 < 128 ^ Suc k" by (simp add: less_mult_imp_div_less)
  then show ?case using Suc.IH [of "n div 128"] by (simp add: varint.simps [of n])
qed

lemma length_varint: "n < 2 ^ 28 \<Longrightarrow> 1 \<le> length (varint n) \<and> length (varint n) \<le> 4"
  using length_varint_le [of n 3] by simp

section \<open>Properties\<close>

text \<open>
  C39. The remaining length survives the wire: for every length MQTT allows (below
  \<open>2 ^ 28\<close>), \<open>encodeLength\<close> writes one to four bytes, and \<open>decodeLength\<close>, run on those
  bytes with anything behind them, returns the length, the number of bytes it took and the
  rest of the stream.
\<close>

theorem remaining_length_roundtrip:
  assumes "0 \<le> n" "n < 2 ^ 28"
  shows "decodeLength (encodeLength n @ rest) = (n, int (length (encodeLength n)), None, rest) \<and>
    1 \<le> length (encodeLength n) \<and> length (encodeLength n) \<le> 4"
proof -
  obtain k where k: "n = int k" using assms(1) nonneg_int_cases by blast
  with assms(2) have "1 \<le> length (varint k) \<and> length (varint k) \<le> 4"
    by (intro length_varint) simp
  then show ?thesis
    using decodeLength_encode [OF assms]
    by (simp add: k encodeLength_def encodeLength_loop_varint)
qed

theorem remaining_length_roundtrip_witness:
  "decodeLength (encodeLength 321 @ [7]) = (321, int (length (encodeLength 321)), None, [7]) \<and>
    1 \<le> length (encodeLength 321) \<and> length (encodeLength 321) \<le> 4"
  by (rule remaining_length_roundtrip) simp_all

text \<open>
  \<open>decodeLength\<close> is safe on any input: it stops after at most four bytes whatever they
  are (the guard \<open>multiplier < 27\<close>), its result is between 0 and \<open>2 ^ 28 - 1\<close>, so no
  oversized allocation follows, and when it reports no error it consumed exactly the number
  of bytes it returns.
\<close>

theorem decodeLength_bounded:
  assumes "decodeLength r = (n, sz, e, r')"
  shows "0 \<le> n \<and> n < 2 ^ 28 \<and> 1 \<le> sz \<and> sz \<le> 4 \<and>
    (e = None \<longrightarrow> sz \<le> int (length r) \<and> r' = drop (nat sz) r)"
  using decodeLength_total [OF assms] by blast

theorem decodeLength_bounded_witness:
  "decodeLength [0xFF, 0xFF, 0xFF, 0xFF, 1] = (268435455, 4, None, [1]) \<and>
   (268435455 :: int) < 2 ^ 28 \<and> [1 :: byte] = drop (nat 4) [0xFF, 0xFF, 0xFF, 0xFF, 1]"
proof -
  have "decodeLength [0xFF, 0xFF, 0xFF, 0xFF, 1] = (268435455, 4, None, [1])"
    by code_simp
  with decodeLength_bounded [OF this] show ?thesis by simp
qed

end
