(* ===== verification/Packets.thy ===== *)
theory Packets
  imports Codec
begin

text \<open>
  The fourteen MQTT control packets of \<open>packets/*.go\<close>. Each Go struct embeds
  \<open>FixedHeader\<close>, so each record extends the record \<open>FixedHeader\<close> and inherits its fields;
  the interface \<open>ControlPacket\<close> is the datatype of the fourteen records.

  \<open>Write\<close> returns the bytes handed to the writer together with the packet, because it stores
  the remaining length and the packet size in the receiver; it is \<open>None\<close> where Go panics (a
  SUBSCRIBE with fewer QoS bytes than topics). \<open>Unpack\<close> returns the receiver as it is when the
  method returns, also when it returns an error half way.
\<close>

section \<open>Packet types and their numbers\<close>

named_theorems packet_type \<open>the numbers of the packet types\<close>
named_theorems connack_code \<open>the return codes of CONNACK\<close>

definition Connect :: byte where [packet_type]: "Connect = 1"
definition Connack :: byte where [packet_type]: "Connack = 2"
definition Publish :: byte where [packet_type]: "Publish = 3"
definition Puback :: byte where [packet_type]: "Puback = 4"
definition Pubrec :: byte where [packet_type]: "Pubrec = 5"
definition Pubrel :: byte where [packet_type]: "Pubrel = 6"
definition Pubcomp :: byte where [packet_type]: "Pubcomp = 7"
definition Subscribe :: byte where [packet_type]: "Subscribe = 8"
definition Suback :: byte where [packet_type]: "Suback = 9"
definition Unsubscribe :: byte where [packet_type]: "Unsubscribe = 10"
definition Unsuback :: byte where [packet_type]: "Unsuback = 11"
definition Pingreq :: byte where [packet_type]: "Pingreq = 12"
definition Pingresp :: byte where [packet_type]: "Pingresp = 13"
definition Disconnect :: byte where [packet_type]: "Disconnect = 14"

record ConnectPacket = FixedHeader +
  ProtocolName :: string
  ProtocolVersion :: byte
  CleanSession :: bool
  WillFlag :: bool
  WillQos :: byte
  WillRetain :: bool
  UsernameFlag :: bool
  PasswordFlag :: bool
  ReservedBit :: byte
  Keepalive :: uint16
  ClientIdentifier :: string
  WillTopic :: string
  WillMessage :: "byte list"
  Username :: string
  Password :: "byte list"

record ConnackPacket = FixedHeader +
  SessionPresent :: bool
  ReturnCode :: byte

record PublishPacket = FixedHeader +
  TopicName :: string
  pub_MessageID :: uint16
  Payload :: "byte list"

record PubackPacket = FixedHeader +
  puback_MessageID :: uint16

record PubrecPacket = FixedHeader +
  pubrec_MessageID :: uint16

record PubrelPacket = FixedHeader +
  pubrel_MessageID :: uint16

record PubcompPacket = FixedHeader +
  pubcomp_MessageID :: uint16

record SubscribePacket = FixedHeader +
  sub_MessageID :: uint16
  sub_Topics :: "string list"
  Qoss :: "byte list"

record SubackPacket = FixedHeader +
  suback_MessageID :: uint16
  ReturnCodes :: "byte list"

record UnsubscribePacket = FixedHeader +
  unsub_MessageID :: uint16
  unsub_Topics :: "string list"

record UnsubackPacket = FixedHeader +
  unsuback_MessageID :: uint16

type_synonym DisconnectPacket = FixedHeader

type_synonym PingreqPacket = FixedHeader

type_synonym PingrespPacket = FixedHeader

datatype ControlPacket =
    ConnectP ConnectPacket
  | ConnackP ConnackPacket
  | PublishP PublishPacket
  | PubackP PubackPacket
  | PubrecP PubrecPacket
  | PubrelP PubrelPacket
  | PubcompP PubcompPacket
  | SubscribeP SubscribePacket
  | SubackP SubackPacket
  | UnsubscribeP UnsubscribePacket
  | UnsubackP UnsubackPacket
  | PingreqP PingreqPacket
  | PingrespP PingrespPacket
  | DisconnectP DisconnectPacket

text \<open>The method every packet inherits from its header.\<close>

fun Size :: "ControlPacket \<Rightarrow> int" where
  "Size (ConnectP p) = FixedHeader_Size p"
| "Size (ConnackP p) = FixedHeader_Size p"
| "Size (PublishP p) = FixedHeader_Size p"
| "Size (PubackP p) = FixedHeader_Size p"
| "Size (PubrecP p) = FixedHeader_Size p"
| "Size (PubrelP p) = FixedHeader_Size p"
| "Size (PubcompP p) = FixedHeader_Size p"
| "Size (SubscribeP p) = FixedHeader_Size p"
| "Size (SubackP p) = FixedHeader_Size p"
| "Size (UnsubscribeP p) = FixedHeader_Size p"
| "Size (UnsubackP p) = FixedHeader_Size p"
| "Size (PingreqP p) = FixedHeader_Size p"
| "Size (PingrespP p) = FixedHeader_Size p"
| "Size (DisconnectP p) = FixedHeader_Size p"

section \<open>Empty packets\<close>

text \<open>A Go struct starts with the zero value in every field that is not given.\<close>

definition zero_header :: FixedHeader where
  "zero_header = \<lparr>MessageType = 0, Dup = False, Qos = 0, Retain = False,
     RemainingLength = 0, PacketSize = 0\<rparr>"

definition new_ConnectPacket :: "FixedHeader \<Rightarrow> ConnectPacket" where
  "new_ConnectPacket fh = FixedHeader.extend fh
     (ConnectPacket.fields [] 0 False False 0 False False False 0 0 [] [] [] [] [])"

definition new_ConnackPacket :: "FixedHeader \<Rightarrow> ConnackPacket" where
  "new_ConnackPacket fh = FixedHeader.extend fh (ConnackPacket.fields False 0)"

definition new_PublishPacket :: "FixedHeader \<Rightarrow> PublishPacket" where
  "new_PublishPacket fh = FixedHeader.extend fh (PublishPacket.fields [] 0 [])"

definition new_PubackPacket :: "FixedHeader \<Rightarrow> PubackPacket" where
  "new_PubackPacket fh = FixedHeader.extend fh (PubackPacket.fields 0)"

definition new_PubrecPacket :: "FixedHeader \<Rightarrow> PubrecPacket" where
  "new_PubrecPacket fh = FixedHeader.extend fh (PubrecPacket.fields 0)"

definition new_PubrelPacket :: "FixedHeader \<Rightarrow> PubrelPacket" where
  "new_PubrelPacket fh = FixedHeader.extend fh (PubrelPacket.fields 0)"

definition new_PubcompPacket :: "FixedHeader \<Rightarrow> PubcompPacket" where
  "new_PubcompPacket fh = FixedHeader.extend fh (PubcompPacket.fields 0)"

definition new_SubscribePacket :: "FixedHeader \<Rightarrow> SubscribePacket" where
  "new_SubscribePacket fh = FixedHeader.extend fh (SubscribePacket.fields 0 [] [])"

definition new_SubackPacket :: "FixedHeader \<Rightarrow> SubackPacket" where
  "new_SubackPacket fh = FixedHeader.extend fh (SubackPacket.fields 0 [])"

definition new_UnsubscribePacket :: "FixedHeader \<Rightarrow> UnsubscribePacket" where
  "new_UnsubscribePacket fh = FixedHeader.extend fh (UnsubscribePacket.fields 0 [])"

definition new_UnsubackPacket :: "FixedHeader \<Rightarrow> UnsubackPacket" where
  "new_UnsubackPacket fh = FixedHeader.extend fh (UnsubackPacket.fields 0)"

lemmas new_packet_defs =
  new_ConnectPacket_def new_ConnackPacket_def new_PublishPacket_def new_PubackPacket_def
  new_PubrecPacket_def new_PubrelPacket_def new_PubcompPacket_def new_SubscribePacket_def
  new_SubackPacket_def new_UnsubscribePacket_def new_UnsubackPacket_def
  FixedHeader.extend_def ConnectPacket.fields_def ConnackPacket.fields_def
  PublishPacket.fields_def PubackPacket.fields_def PubrecPacket.fields_def
  PubrelPacket.fields_def PubcompPacket.fields_def SubscribePacket.fields_def
  SubackPacket.fields_def UnsubscribePacket.fields_def UnsubackPacket.fields_def

text \<open>\<open>NewControlPacket\<close> returns nil (\<open>None\<close>) for a type it does not know.\<close>

definition NewControlPacket :: "byte \<Rightarrow> ControlPacket option" where
  "NewControlPacket packetType =
    (let hd = \<lambda>t. zero_header\<lparr>MessageType := t\<rparr> in
     if packetType = Connect then Some (ConnectP (new_ConnectPacket (hd Connect)))
     else if packetType = Connack then Some (ConnackP (new_ConnackPacket (hd Connack)))
     else if packetType = Disconnect then Some (DisconnectP (hd Disconnect))
     else if packetType = Publish then Some (PublishP (new_PublishPacket (hd Publish)))
     else if packetType = Puback then Some (PubackP (new_PubackPacket (hd Puback)))
     else if packetType = Pubrec then Some (PubrecP (new_PubrecPacket (hd Pubrec)))
     else if packetType = Pubrel
       then Some (PubrelP (new_PubrelPacket ((hd Pubrel)\<lparr>Qos := 1\<rparr>)))
     else if packetType = Pubcomp then Some (PubcompP (new_PubcompPacket (hd Pubcomp)))
     else if packetType = Subscribe
       then Some (SubscribeP (new_SubscribePacket ((hd Subscribe)\<lparr>Qos := 1\<rparr>)))
     else if packetType = Suback then Some (SubackP (new_SubackPacket (hd Suback)))
     else if packetType = Unsubscribe
       then Some (UnsubscribeP (new_UnsubscribePacket ((hd Unsubscribe)\<lparr>Qos := 1\<rparr>)))
     else if packetType = Unsuback then Some (UnsubackP (new_UnsubackPacket (hd Unsuback)))
     else if packetType = Pingreq then Some (PingreqP (hd Pingreq))
     else if packetType = Pingresp then Some (PingrespP (hd Pingresp))
     else None)"

definition NewControlPacketWithHeader :: "FixedHeader \<Rightarrow> go_error + ControlPacket" where
  "NewControlPacketWithHeader fh =
    (let t = MessageType fh in
     if t = Connect then Inr (ConnectP (new_ConnectPacket fh))
     else if t = Connack then Inr (ConnackP (new_ConnackPacket fh))
     else if t = Disconnect then Inr (DisconnectP fh)
     else if t = Publish then Inr (PublishP (new_PublishPacket fh))
     else if t = Puback then Inr (PubackP (new_PubackPacket fh))
     else if t = Pubrec then Inr (PubrecP (new_PubrecPacket fh))
     else if t = Pubrel then Inr (PubrelP (new_PubrelPacket fh))
     else if t = Pubcomp then Inr (PubcompP (new_PubcompPacket fh))
     else if t = Subscribe then Inr (SubscribeP (new_SubscribePacket fh))
     else if t = Suback then Inr (SubackP (new_SubackPacket fh))
     else if t = Unsubscribe then Inr (UnsubscribeP (new_UnsubscribePacket fh))
     else if t = Unsuback then Inr (UnsubackP (new_UnsubackPacket fh))
     else if t = Pingreq then Inr (PingreqP fh)
     else if t = Pingresp then Inr (PingrespP fh)
     else Inl (ErrUnsupportedPacket t))"
section \<open>Write\<close>

text \<open>The options byte of CONNECT.\<close>

definition connect_options :: "ConnectPacket \<Rightarrow> byte" where
  "connect_options c =
     push_bit 1 (boolToByte (CleanSession c)) OR push_bit 2 (boolToByte (WillFlag c))
       OR push_bit 3 (WillQos c) OR push_bit 5 (boolToByte (WillRetain c))
       OR push_bit 6 (boolToByte (PasswordFlag c)) OR push_bit 7 (boolToByte (UsernameFlag c))"

text \<open>The buffer \<open>body\<close> of the longer \<open>Write\<close> methods is a function of its own.\<close>

definition ConnectPacket_body :: "ConnectPacket \<Rightarrow> byte list" where
  "ConnectPacket_body c =
     encodeString (ProtocolName c) @ [ProtocolVersion c] @ [connect_options c]
       @ encodeUint16 (Keepalive c) @ encodeString (ClientIdentifier c)
       @ (if WillFlag c then encodeString (WillTopic c) @ encodeBytes (WillMessage c) else [])
       @ (if UsernameFlag c then encodeString (Username c) else [])
       @ (if PasswordFlag c then encodeBytes (Password c) else [])"

definition ConnectPacket_Write :: "ConnectPacket \<Rightarrow> byte list \<times> ConnectPacket" where
  "ConnectPacket_Write c =
     (let body = ConnectPacket_body c;
          c = c\<lparr>RemainingLength := int (length body)\<rparr>;
          (packet, c) = FixedHeader_pack c
      in (packet @ body, c))"

definition ConnackPacket_Write :: "ConnackPacket \<Rightarrow> byte list \<times> ConnackPacket" where
  "ConnackPacket_Write ca =
     (let body = [boolToByte (SessionPresent ca)] @ [ReturnCode ca];
          ca = ca\<lparr>RemainingLength := 2\<rparr>;
          (packet, ca) = FixedHeader_pack ca
      in (packet @ body, ca))"

definition PublishPacket_body :: "PublishPacket \<Rightarrow> byte list" where
  "PublishPacket_body p =
     encodeString (TopicName p) @ (if Qos p > 0 then encodeUint16 (pub_MessageID p) else [])"

definition PublishPacket_Write :: "PublishPacket \<Rightarrow> byte list \<times> PublishPacket" where
  "PublishPacket_Write p =
     (let body = PublishPacket_body p;
          p = p\<lparr>RemainingLength := int (length body) + int (length (Payload p))\<rparr>;
          (packet, p) = FixedHeader_pack p
      in (packet @ body @ Payload p, p))"

definition PubackPacket_Write :: "PubackPacket \<Rightarrow> byte list \<times> PubackPacket" where
  "PubackPacket_Write pa =
     (let pa = pa\<lparr>RemainingLength := 2\<rparr>;
          (packet, pa) = FixedHeader_pack pa
      in (packet @ encodeUint16 (puback_MessageID pa), pa))"

definition PubrecPacket_Write :: "PubrecPacket \<Rightarrow> byte list \<times> PubrecPacket" where
  "PubrecPacket_Write pr =
     (let pr = pr\<lparr>RemainingLength := 2\<rparr>;
          (packet, pr) = FixedHeader_pack pr
      in (packet @ encodeUint16 (pubrec_MessageID pr), pr))"

definition PubrelPacket_Write :: "PubrelPacket \<Rightarrow> byte list \<times> PubrelPacket" where
  "PubrelPacket_Write pr =
     (let pr = pr\<lparr>RemainingLength := 2\<rparr>;
          (packet, pr) = FixedHeader_pack pr
      in (packet @ encodeUint16 (pubrel_MessageID pr), pr))"

definition PubcompPacket_Write :: "PubcompPacket \<Rightarrow> byte list \<times> PubcompPacket" where
  "PubcompPacket_Write pc =
     (let pc = pc\<lparr>RemainingLength := 2\<rparr>;
          (packet, pc) = FixedHeader_pack pc
      in (packet @ encodeUint16 (pubcomp_MessageID pc), pc))"

text \<open>
  The loop of SUBSCRIBE writes \<open>s.Qoss[i]\<close> after topic \<open>i\<close>; an index past the end of
  \<open>Qoss\<close> panics.
\<close>

fun subscribe_topics :: "string list \<Rightarrow> byte list \<Rightarrow> byte list option" where
  "subscribe_topics [] qoss = Some []"
| "subscribe_topics (topic # topics) [] = None"
| "subscribe_topics (topic # topics) (qos # qoss) =
     do { more \<leftarrow> subscribe_topics topics qoss; Some (encodeString topic @ [qos] @ more) }"

definition SubscribePacket_Write :: "SubscribePacket \<Rightarrow> (byte list \<times> SubscribePacket) option" where
  "SubscribePacket_Write s =
     do {
       topics \<leftarrow> subscribe_topics (sub_Topics s) (Qoss s);
       let body = encodeUint16 (sub_MessageID s) @ topics;
       let s = s\<lparr>RemainingLength := int (length body)\<rparr>;
       let (packet, s) = FixedHeader_pack s;
       Some (packet @ body, s)
     }"

definition SubackPacket_Write :: "SubackPacket \<Rightarrow> byte list \<times> SubackPacket" where
  "SubackPacket_Write sa =
     (let body = encodeUint16 (suback_MessageID sa) @ ReturnCodes sa;
          sa = sa\<lparr>RemainingLength := int (length body)\<rparr>;
          (packet, sa) = FixedHeader_pack sa
      in (packet @ body, sa))"

definition UnsubscribePacket_Write :: "UnsubscribePacket \<Rightarrow> byte list \<times> UnsubscribePacket" where
  "UnsubscribePacket_Write u =
     (let body = encodeUint16 (unsub_MessageID u) @ concat (map encodeString (unsub_Topics u));
          u = u\<lparr>RemainingLength := int (length body)\<rparr>;
          (packet, u) = FixedHeader_pack u
      in (packet @ body, u))"

definition UnsubackPacket_Write :: "UnsubackPacket \<Rightarrow> byte list \<times> UnsubackPacket" where
  "UnsubackPacket_Write ua =
     (let ua = ua\<lparr>RemainingLength := 2\<rparr>;
          (packet, ua) = FixedHeader_pack ua
      in (packet @ encodeUint16 (unsuback_MessageID ua), ua))"

definition PingreqPacket_Write :: "PingreqPacket \<Rightarrow> byte list \<times> PingreqPacket" where
  "PingreqPacket_Write pr = FixedHeader_pack pr"

definition PingrespPacket_Write :: "PingrespPacket \<Rightarrow> byte list \<times> PingrespPacket" where
  "PingrespPacket_Write pr = FixedHeader_pack pr"

definition DisconnectPacket_Write :: "DisconnectPacket \<Rightarrow> byte list \<times> DisconnectPacket" where
  "DisconnectPacket_Write d = FixedHeader_pack d"

fun Write :: "ControlPacket \<Rightarrow> (byte list \<times> ControlPacket) option" where
  "Write (ConnectP p) = Some (map_prod id ConnectP (ConnectPacket_Write p))"
| "Write (ConnackP p) = Some (map_prod id ConnackP (ConnackPacket_Write p))"
| "Write (PublishP p) = Some (map_prod id PublishP (PublishPacket_Write p))"
| "Write (PubackP p) = Some (map_prod id PubackP (PubackPacket_Write p))"
| "Write (PubrecP p) = Some (map_prod id PubrecP (PubrecPacket_Write p))"
| "Write (PubrelP p) = Some (map_prod id PubrelP (PubrelPacket_Write p))"
| "Write (PubcompP p) = Some (map_prod id PubcompP (PubcompPacket_Write p))"
| "Write (SubscribeP p) = map_option (map_prod id SubscribeP) (SubscribePacket_Write p)"
| "Write (SubackP p) = Some (map_prod id SubackP (SubackPacket_Write p))"
| "Write (UnsubscribeP p) = Some (map_prod id UnsubscribeP (UnsubscribePacket_Write p))"
| "Write (UnsubackP p) = Some (map_prod id UnsubackP (UnsubackPacket_Write p))"
| "Write (PingreqP p) = Some (map_prod id PingreqP (PingreqPacket_Write p))"
| "Write (PingrespP p) = Some (map_prod id PingrespP (PingrespPacket_Write p))"
| "Write (DisconnectP p) = Some (map_prod id DisconnectP (DisconnectPacket_Write p))"

section \<open>Unpack\<close>

text \<open>
  The reader is the buffer with the body of the packet. An assignment \<open>c.F, err = decode(b)\<close>
  stores the zero value in \<open>F\<close> when it fails, which is the value the field had.
\<close>

definition ConnectPacket_Unpack :: "ConnectPacket \<Rightarrow> byte list \<Rightarrow> ConnectPacket \<times> go_error option" where
  "ConnectPacket_Unpack c b =
    (let (v, err, b) = decodeString b; c = c\<lparr>ProtocolName := v\<rparr> in
     if err \<noteq> None then (c, err) else
     let (v, err, b) = decodeByte b; c = c\<lparr>ProtocolVersion := v\<rparr> in
     if err \<noteq> None then (c, err) else
     let (options, err, b) = decodeByte b in
     if err \<noteq> None then (c, err) else
     let c = c\<lparr>ReservedBit := 1 AND options,
               CleanSession := 1 AND drop_bit 1 options > 0,
               WillFlag := 1 AND drop_bit 2 options > 0,
               WillQos := 3 AND drop_bit 3 options,
               WillRetain := 1 AND drop_bit 5 options > 0,
               PasswordFlag := 1 AND drop_bit 6 options > 0,
               UsernameFlag := 1 AND drop_bit 7 options > 0\<rparr>;
         (v, err, b) = decodeUint16 b; c = c\<lparr>Keepalive := v\<rparr> in
     if err \<noteq> None then (c, err) else
     let (v, err, b) = decodeString b; c = c\<lparr>ClientIdentifier := v\<rparr> in
     if err \<noteq> None then (c, err) else
     let (c, err, b) =
       (if WillFlag c then
          let (v, err, b) = decodeString b; c = c\<lparr>WillTopic := v\<rparr> in
          if err \<noteq> None then (c, err, b) else
          let (v, err, b) = decodeBytes b in (c\<lparr>WillMessage := v\<rparr>, err, b)
        else (c, None, b)) in
     if err \<noteq> None then (c, err) else
     let (c, err, b) =
       (if UsernameFlag c then let (v, err, b) = decodeString b in (c\<lparr>Username := v\<rparr>, err, b)
        else (c, None, b)) in
     if err \<noteq> None then (c, err) else
     let (c, err, b) =
       (if PasswordFlag c then let (v, err, b) = decodeBytes b in (c\<lparr>Password := v\<rparr>, err, b)
        else (c, None, b)) in
     (c, err))"

definition ConnackPacket_Unpack :: "ConnackPacket \<Rightarrow> byte list \<Rightarrow> ConnackPacket \<times> go_error option" where
  "ConnackPacket_Unpack ca b =
    (let (flags, err, b) = decodeByte b in
     if err \<noteq> None then (ca, err) else
     let ca = ca\<lparr>SessionPresent := 1 AND flags > 0\<rparr>;
         (v, err, b) = decodeByte b
     in (ca\<lparr>ReturnCode := v\<rparr>, err))"

definition PublishPacket_Unpack :: "PublishPacket \<Rightarrow> byte list \<Rightarrow> PublishPacket \<times> go_error option" where
  "PublishPacket_Unpack p b =
    (let payloadLength = RemainingLength p;
         (v, err, b) = decodeString b; p = p\<lparr>TopicName := v\<rparr> in
     if err \<noteq> None then (p, err) else
     let (p, err, b, payloadLength) =
       (if Qos p > 0 then
          let (v, err, b) = decodeUint16 b; p = p\<lparr>pub_MessageID := v\<rparr> in
          (p, err, b, payloadLength - (int (length (TopicName p)) + 4))
        else (p, None, b, payloadLength - (int (length (TopicName p)) + 2))) in
     if err \<noteq> None then (p, err) else
     if payloadLength < 0 then (p, Some ErrPayloadLength) else
     let (v, err, b) = buffer_Read (nat payloadLength) b
     in (p\<lparr>Payload := v\<rparr>, err))"

definition PubackPacket_Unpack :: "PubackPacket \<Rightarrow> byte list \<Rightarrow> PubackPacket \<times> go_error option" where
  "PubackPacket_Unpack pa b =
    (let (v, err, b) = decodeUint16 b in (pa\<lparr>puback_MessageID := v\<rparr>, err))"

definition PubrecPacket_Unpack :: "PubrecPacket \<Rightarrow> byte list \<Rightarrow> PubrecPacket \<times> go_error option" where
  "PubrecPacket_Unpack pr b =
    (let (v, err, b) = decodeUint16 b in (pr\<lparr>pubrec_MessageID := v\<rparr>, err))"

definition PubrelPacket_Unpack :: "PubrelPacket \<Rightarrow> byte list \<Rightarrow> PubrelPacket \<times> go_error option" where
  "PubrelPacket_Unpack pr b =
    (let (v, err, b) = decodeUint16 b in (pr\<lparr>pubrel_MessageID := v\<rparr>, err))"

definition PubcompPacket_Unpack :: "PubcompPacket \<Rightarrow> byte list \<Rightarrow> PubcompPacket \<times> go_error option" where
  "PubcompPacket_Unpack pc b =
    (let (v, err, b) = decodeUint16 b in (pc\<lparr>pubcomp_MessageID := v\<rparr>, err))"

text \<open>The loop of SUBSCRIBE runs while the remaining payload length is positive.\<close>

function subscribe_loop ::
  "SubscribePacket \<Rightarrow> int \<Rightarrow> byte list \<Rightarrow> SubscribePacket \<times> go_error option" where
  "subscribe_loop s payloadLength b =
    (if payloadLength > 0 then
       let (topic, err, b) = decodeString b in
       if err \<noteq> None then (s, err) else
       let s = s\<lparr>sub_Topics := sub_Topics s @ [topic]\<rparr>;
           (qos, err, b) = decodeByte b in
       if err \<noteq> None then (s, err) else
       let s = s\<lparr>Qoss := Qoss s @ [qos]\<rparr> in
       subscribe_loop s (payloadLength - (2 + int (length topic) + 1)) b
     else (s, None))"
  by pat_completeness auto
termination
  by (relation "measure (\<lambda>(s, n, b). nat n)") auto

declare subscribe_loop.simps [simp del]

definition SubscribePacket_Unpack ::
  "SubscribePacket \<Rightarrow> byte list \<Rightarrow> SubscribePacket \<times> go_error option" where
  "SubscribePacket_Unpack s b =
    (let (v, err, b) = decodeUint16 b; s = s\<lparr>sub_MessageID := v\<rparr> in
     if err \<noteq> None then (s, err) else subscribe_loop s (RemainingLength s - 2) b)"

text \<open>\<open>qosBuffer.ReadFrom(b)\<close> takes whatever the buffer still holds.\<close>

definition SubackPacket_Unpack :: "SubackPacket \<Rightarrow> byte list \<Rightarrow> SubackPacket \<times> go_error option" where
  "SubackPacket_Unpack sa b =
    (let (v, err, b) = decodeUint16 b; sa = sa\<lparr>suback_MessageID := v\<rparr> in
     if err \<noteq> None then (sa, err) else (sa\<lparr>ReturnCodes := b\<rparr>, None))"

text \<open>
  The loop of UNSUBSCRIBE declares its own \<open>err\<close>, so the error that ends it is lost and the
  method returns the \<open>err\<close> of the message identifier, which is nil here.
\<close>

lemma decodeUint16_shrinks:
  "decodeUint16 b = (v, None, b') \<Longrightarrow> b' = drop 2 b \<and> b \<noteq> []"
  by (auto simp: decodeUint16_def Let_def buffer_Read_def split: if_splits)

lemma decodeString_shrinks:
  "decodeString b = (topic, None, b') \<Longrightarrow> length b' < length b"
  by (auto simp: decodeString_def decodeBytes_def Let_def split: prod.splits if_splits
      dest!: buffer_Read_rest decodeUint16_shrinks)

function unsubscribe_loop :: "UnsubscribePacket \<Rightarrow> byte list \<Rightarrow> UnsubscribePacket" where
  "unsubscribe_loop u b =
    (let (topic, err, b') = decodeString b in
     if err = None \<and> topic \<noteq> '''' then
       unsubscribe_loop (u\<lparr>unsub_Topics := unsub_Topics u @ [topic]\<rparr>) b'
     else u)"
  by pat_completeness auto
termination
  by (relation "measure (\<lambda>(u, b). length b)") (auto dest: decodeString_shrinks [OF sym])

declare unsubscribe_loop.simps [simp del]

definition UnsubscribePacket_Unpack ::
  "UnsubscribePacket \<Rightarrow> byte list \<Rightarrow> UnsubscribePacket \<times> go_error option" where
  "UnsubscribePacket_Unpack u b =
    (let (v, err, b) = decodeUint16 b; u = u\<lparr>unsub_MessageID := v\<rparr> in
     if err \<noteq> None then (u, err) else (unsubscribe_loop u b, None))"

definition UnsubackPacket_Unpack :: "UnsubackPacket \<Rightarrow> byte list \<Rightarrow> UnsubackPacket \<times> go_error option" where
  "UnsubackPacket_Unpack ua b =
    (let (v, err, b) = decodeUint16 b in (ua\<lparr>unsuback_MessageID := v\<rparr>, err))"

definition PingreqPacket_Unpack :: "PingreqPacket \<Rightarrow> byte list \<Rightarrow> PingreqPacket \<times> go_error option" where
  "PingreqPacket_Unpack pr b = (pr, None)"

definition PingrespPacket_Unpack :: "PingrespPacket \<Rightarrow> byte list \<Rightarrow> PingrespPacket \<times> go_error option" where
  "PingrespPacket_Unpack pr b = (pr, None)"

definition DisconnectPacket_Unpack :: "DisconnectPacket \<Rightarrow> byte list \<Rightarrow> DisconnectPacket \<times> go_error option" where
  "DisconnectPacket_Unpack d b = (d, None)"

fun Unpack :: "ControlPacket \<Rightarrow> byte list \<Rightarrow> ControlPacket \<times> go_error option" where
  "Unpack (ConnectP p) b = map_prod ConnectP id (ConnectPacket_Unpack p b)"
| "Unpack (ConnackP p) b = map_prod ConnackP id (ConnackPacket_Unpack p b)"
| "Unpack (PublishP p) b = map_prod PublishP id (PublishPacket_Unpack p b)"
| "Unpack (PubackP p) b = map_prod PubackP id (PubackPacket_Unpack p b)"
| "Unpack (PubrecP p) b = map_prod PubrecP id (PubrecPacket_Unpack p b)"
| "Unpack (PubrelP p) b = map_prod PubrelP id (PubrelPacket_Unpack p b)"
| "Unpack (PubcompP p) b = map_prod PubcompP id (PubcompPacket_Unpack p b)"
| "Unpack (SubscribeP p) b = map_prod SubscribeP id (SubscribePacket_Unpack p b)"
| "Unpack (SubackP p) b = map_prod SubackP id (SubackPacket_Unpack p b)"
| "Unpack (UnsubscribeP p) b = map_prod UnsubscribeP id (UnsubscribePacket_Unpack p b)"
| "Unpack (UnsubackP p) b = map_prod UnsubackP id (UnsubackPacket_Unpack p b)"
| "Unpack (PingreqP p) b = map_prod PingreqP id (PingreqPacket_Unpack p b)"
| "Unpack (PingrespP p) b = map_prod PingrespP id (PingrespPacket_Unpack p b)"
| "Unpack (DisconnectP p) b = map_prod DisconnectP id (DisconnectPacket_Unpack p b)"

section \<open>Validate and Copy\<close>

definition Accepted :: byte where [connack_code]: "Accepted = 0x00"
definition ErrRefusedBadProtocolVersion :: byte where [connack_code]: "ErrRefusedBadProtocolVersion = 0x01"
definition ErrRefusedIDRejected :: byte where [connack_code]: "ErrRefusedIDRejected = 0x02"
definition ErrRefusedServerUnavailable :: byte where [connack_code]: "ErrRefusedServerUnavailable = 0x03"
definition ErrRefusedBadUsernameOrPassword :: byte where
  [connack_code]: "ErrRefusedBadUsernameOrPassword = 0x04"
definition ErrRefusedNotAuthorised :: byte where [connack_code]: "ErrRefusedNotAuthorised = 0x05"
definition ErrNetworkError :: byte where [connack_code]: "ErrNetworkError = 0xFE"
definition ErrProtocolViolation :: byte where [connack_code]: "ErrProtocolViolation = 0xFF"

definition Validate :: "ConnectPacket \<Rightarrow> byte" where
  "Validate c =
    (if PasswordFlag c \<and> \<not> UsernameFlag c then ErrRefusedBadUsernameOrPassword
     else if ReservedBit c \<noteq> 0 then ErrProtocolViolation
     else if (ProtocolName c = ''MQIsdp'' \<and> ProtocolVersion c \<noteq> 3) \<or>
             (ProtocolName c = ''MQTT'' \<and> ProtocolVersion c \<noteq> 4)
       then ErrRefusedBadProtocolVersion
     else if ProtocolName c \<noteq> ''MQIsdp'' \<and> ProtocolName c \<noteq> ''MQTT'' then ErrProtocolViolation
     else if length (ClientIdentifier c) > 65535 \<or> length (Username c) > 65535 \<or>
             length (Password c) > 65535 then ErrProtocolViolation
     else if length (ClientIdentifier c) = 0 \<and> \<not> CleanSession c then ErrRefusedIDRejected
     else Accepted)"

definition PublishPacket_Copy :: "PublishPacket \<Rightarrow> PublishPacket" where
  "PublishPacket_Copy p =
     (new_PublishPacket (zero_header\<lparr>MessageType := Publish\<rparr>))
       \<lparr>TopicName := TopicName p, Payload := Payload p\<rparr>"

section \<open>ReadPacket\<close>

text \<open>
  One packet off a connection, which is the sequence of bytes the peer has sent before it
  closes. Both results of the Go function are kept: a packet that failed to unpack is
  returned together with the error. The header is copied into the packet before the
  remaining length is added to \<open>fh.PacketSize\<close>, and that last addition is to the local
  variable only, so it does not show in the result.
\<close>

definition ReadPacket ::
  "byte list \<Rightarrow> ControlPacket option \<times> go_error option \<times> byte list" where
  "ReadPacket r =
    (let (b, n, err, r) = io_ReadFull 1 r in
     if err \<noteq> None then (None, err, r) else
     let fh = zero_header\<lparr>PacketSize := 1\<rparr>;
         (fh, err, r) = FixedHeader_unpack fh (b ! 0) r in
     if err \<noteq> None then (None, err, r) else
     case NewControlPacketWithHeader fh of
       Inl e \<Rightarrow> (None, Some e, r)
     | Inr cp \<Rightarrow>
        (let (packetBytes, n, err, r) = io_ReadFull (nat (RemainingLength fh)) r in
         if err \<noteq> None then (None, err, r) else
         if int n \<noteq> RemainingLength fh then (None, Some ErrReadExpected, r) else
         let (cp, err) = Unpack cp packetBytes
         in (Some cp, err, r)))"

end
