(* ===== verification/Packet_Laws.thy ===== *)
theory Packet_Laws
  imports Packet_Roundtrip
begin

text \<open>
  The packet codec as a whole: \<open>ReadPacket\<close> and \<open>Write\<close> as a wire format, the framing of a
  stream of packets, what a packet that was accepted guarantees to the broker, and the
  properties of the codec.
\<close>


section \<open>The packets as a wire format\<close>

fun set_length :: "int \<Rightarrow> ControlPacket \<Rightarrow> ControlPacket" where
  "set_length n (ConnectP p) = ConnectP (p\<lparr>RemainingLength := n\<rparr>)"
| "set_length n (ConnackP p) = ConnackP (p\<lparr>RemainingLength := n\<rparr>)"
| "set_length n (PublishP p) = PublishP (p\<lparr>RemainingLength := n\<rparr>)"
| "set_length n (PubackP p) = PubackP (p\<lparr>RemainingLength := n\<rparr>)"
| "set_length n (PubrecP p) = PubrecP (p\<lparr>RemainingLength := n\<rparr>)"
| "set_length n (PubrelP p) = PubrelP (p\<lparr>RemainingLength := n\<rparr>)"
| "set_length n (PubcompP p) = PubcompP (p\<lparr>RemainingLength := n\<rparr>)"
| "set_length n (SubscribeP p) = SubscribeP (p\<lparr>RemainingLength := n\<rparr>)"
| "set_length n (SubackP p) = SubackP (p\<lparr>RemainingLength := n\<rparr>)"
| "set_length n (UnsubscribeP p) = UnsubscribeP (p\<lparr>RemainingLength := n\<rparr>)"
| "set_length n (UnsubackP p) = UnsubackP (p\<lparr>RemainingLength := n\<rparr>)"
| "set_length n (PingreqP p) = PingreqP (p\<lparr>RemainingLength := n\<rparr>)"
| "set_length n (PingrespP p) = PingrespP (p\<lparr>RemainingLength := n\<rparr>)"
| "set_length n (DisconnectP p) = DisconnectP (p\<lparr>RemainingLength := n\<rparr>)"

text \<open>
  The content of a packet: all of it but the two fields of the header that \<open>Write\<close> and
  \<open>ReadPacket\<close> compute.
\<close>

definition content :: "ControlPacket \<Rightarrow> ControlPacket" where
  "content p = set_size 0 (set_length 0 p)"

lemma content_set [simp]: "content (set_size n p) = content p" "content (set_length n p) = content p"
  by (cases p; simp add: content_def)+

definition packet_bytes :: "ControlPacket \<Rightarrow> byte list" where
  "packet_bytes p = (case Write p of None \<Rightarrow> [] | Some (bs, _) \<Rightarrow> bs)"

definition written :: "ControlPacket \<Rightarrow> ControlPacket" where
  "written p = (case Write p of None \<Rightarrow> p | Some (_, p') \<Rightarrow> p')"

definition received :: "ControlPacket \<Rightarrow> ControlPacket option" where
  "received p =
     Some (set_size (header_size (RemainingLength (header_of (written p)))) (written p))"

definition sendable :: "ControlPacket \<Rightarrow> bool" where
  "sendable p \<longleftrightarrow> wf_packet p \<and> RemainingLength (header_of (written p)) < 2 ^ 28"

lemma Write_defined: "wf_packet p \<Longrightarrow> Write p \<noteq> None"
proof (cases p)
  case (SubscribeP s)
  assume "wf_packet p"
  with SubscribeP have "length (sub_Topics s) \<le> length (Qoss s)" by (simp add: wf_subscribe_def)
  then show ?thesis
    unfolding subscribe_topics_total using SubscribeP by (auto simp: Write_eqs Let_def)
qed (simp_all add: Write_eqs Let_def)

lemma Write_total: "wf_packet p \<Longrightarrow> Write p = Some (packet_bytes p, written p)"
  by (auto dest!: Write_defined simp: packet_bytes_def written_def)

lemma content_written: "content (written p) = content p"
  by (cases p) (auto simp: written_def Write_eqs Let_def content_def FixedHeader_pack_header
      split: option.splits)

lemma ReadPacket_packet_bytes:
  "sendable p \<Longrightarrow> ReadPacket (packet_bytes p @ rest) = (received p, None, rest)"
  using ReadPacket_Write [OF _ Write_total] by (simp add: sendable_def received_def)

interpretation packet_format: wire_format packet_bytes ReadPacket received sendable
  by unfold_locales (rule ReadPacket_packet_bytes)

lemma received_content: "received p = Some q \<Longrightarrow> content q = content p"
  by (auto simp: received_def content_written)

text \<open>Writing leaves a packet that writes the same bytes again.\<close>

lemma Write_again: "Write p = Some (bs, p') \<Longrightarrow> Write p' = Some (bs, p')"
  by (cases p) (auto simp: Write_eqs Let_def content_def FixedHeader_pack_header
      FixedHeader_pack_bytes split: option.splits)

text \<open>The bytes of a packet with a body do not depend on the lengths its header holds.\<close>

fun bare :: "ControlPacket \<Rightarrow> bool" where
  "bare (PingreqP p) = True"
| "bare (PingrespP p) = True"
| "bare (DisconnectP p) = True"
| "bare p = False"

lemma packet_bytes_lengths:
  "\<not> bare p \<Longrightarrow> map_option fst (Write (set_size n (set_length m p))) = map_option fst (Write p)"
  by (cases p) (auto simp: Write_eqs Let_def FixedHeader_pack_bytes  split: option.splits)

section \<open>Framing\<close>

text \<open>An update of the body of a packet leaves the header.\<close>

lemma truncate_body [simp]:
  "FixedHeader.truncate (c\<lparr>ProtocolName := xProtocolName\<rparr>) = FixedHeader.truncate c"
  "FixedHeader.truncate (c\<lparr>ProtocolVersion := xProtocolVersion\<rparr>) = FixedHeader.truncate c"
  "FixedHeader.truncate (c\<lparr>CleanSession := xCleanSession\<rparr>) = FixedHeader.truncate c"
  "FixedHeader.truncate (c\<lparr>WillFlag := xWillFlag\<rparr>) = FixedHeader.truncate c"
  "FixedHeader.truncate (c\<lparr>WillQos := xWillQos\<rparr>) = FixedHeader.truncate c"
  "FixedHeader.truncate (c\<lparr>WillRetain := xWillRetain\<rparr>) = FixedHeader.truncate c"
  "FixedHeader.truncate (c\<lparr>UsernameFlag := xUsernameFlag\<rparr>) = FixedHeader.truncate c"
  "FixedHeader.truncate (c\<lparr>PasswordFlag := xPasswordFlag\<rparr>) = FixedHeader.truncate c"
  "FixedHeader.truncate (c\<lparr>ReservedBit := xReservedBit\<rparr>) = FixedHeader.truncate c"
  "FixedHeader.truncate (c\<lparr>Keepalive := xKeepalive\<rparr>) = FixedHeader.truncate c"
  "FixedHeader.truncate (c\<lparr>ClientIdentifier := xClientIdentifier\<rparr>) = FixedHeader.truncate c"
  "FixedHeader.truncate (c\<lparr>WillTopic := xWillTopic\<rparr>) = FixedHeader.truncate c"
  "FixedHeader.truncate (c\<lparr>WillMessage := xWillMessage\<rparr>) = FixedHeader.truncate c"
  "FixedHeader.truncate (c\<lparr>Username := xUsername\<rparr>) = FixedHeader.truncate c"
  "FixedHeader.truncate (c\<lparr>Password := xPassword\<rparr>) = FixedHeader.truncate c"
  "FixedHeader.truncate (d\<lparr>SessionPresent := xSessionPresent\<rparr>) = FixedHeader.truncate d"
  "FixedHeader.truncate (d\<lparr>ReturnCode := xReturnCode\<rparr>) = FixedHeader.truncate d"
  "FixedHeader.truncate (p\<lparr>TopicName := xTopicName\<rparr>) = FixedHeader.truncate p"
  "FixedHeader.truncate (p\<lparr>pub_MessageID := xpubMessageID\<rparr>) = FixedHeader.truncate p"
  "FixedHeader.truncate (p\<lparr>Payload := xPayload\<rparr>) = FixedHeader.truncate p"
  "FixedHeader.truncate (a\<lparr>puback_MessageID := xpubackMessageID\<rparr>) = FixedHeader.truncate a"
  "FixedHeader.truncate (r\<lparr>pubrec_MessageID := xpubrecMessageID\<rparr>) = FixedHeader.truncate r"
  "FixedHeader.truncate (l\<lparr>pubrel_MessageID := xpubrelMessageID\<rparr>) = FixedHeader.truncate l"
  "FixedHeader.truncate (m\<lparr>pubcomp_MessageID := xpubcompMessageID\<rparr>) = FixedHeader.truncate m"
  "FixedHeader.truncate (s\<lparr>sub_MessageID := xsubMessageID\<rparr>) = FixedHeader.truncate s"
  "FixedHeader.truncate (s\<lparr>sub_Topics := xsubTopics\<rparr>) = FixedHeader.truncate s"
  "FixedHeader.truncate (s\<lparr>Qoss := xQoss\<rparr>) = FixedHeader.truncate s"
  "FixedHeader.truncate (k\<lparr>suback_MessageID := xsubackMessageID\<rparr>) = FixedHeader.truncate k"
  "FixedHeader.truncate (k\<lparr>ReturnCodes := xReturnCodes\<rparr>) = FixedHeader.truncate k"
  "FixedHeader.truncate (u\<lparr>unsub_MessageID := xunsubMessageID\<rparr>) = FixedHeader.truncate u"
  "FixedHeader.truncate (u\<lparr>unsub_Topics := xunsubTopics\<rparr>) = FixedHeader.truncate u"
  "FixedHeader.truncate (n\<lparr>unsuback_MessageID := xunsubackMessageID\<rparr>) = FixedHeader.truncate n"
  by (simp_all add: FixedHeader.truncate_def)

lemma subscribe_loop_header:
  "FixedHeader.truncate (fst (subscribe_loop s n b)) = FixedHeader.truncate s"
proof (induction s n b rule: subscribe_loop.induct)
  case (1 s n b)
  show ?case
    using "1.IH" by (subst subscribe_loop.simps) (auto simp: Let_def split: prod.splits)
qed

lemma unsubscribe_loop_header:
  "FixedHeader.truncate (unsubscribe_loop u b) = FixedHeader.truncate u"
proof (induction u b rule: unsubscribe_loop.induct)
  case (1 u b)
  show ?case
    using "1.IH" by (subst unsubscribe_loop.simps) (auto split: prod.splits)
qed

text \<open>The steps of an \<open>Unpack\<close>, each of which keeps a property of the packet.\<close>

lemma keep_steps:
  shows "\<lbrakk>P (fst x); P (fst y)\<rbrakk> \<Longrightarrow> P (fst (if cond then x else y))"
    "P (fst (f v)) \<Longrightarrow> P (fst (Let v f))"
    "(\<And>a e b. q = (a, e, b) \<Longrightarrow> P (fst (g a e b))) \<Longrightarrow> P (fst (case q of (a, e, b) \<Rightarrow> g a e b))"
    "(\<And>a e b n. q' = (a, e, b, n) \<Longrightarrow> P (fst (g' a e b n))) \<Longrightarrow>
      P (fst (case q' of (a, e, b, n) \<Rightarrow> g' a e b n))"
    "P x' \<Longrightarrow> P (fst (x', e'))"
  by (simp_all split: prod.split)

lemma PublishPacket_Unpack_header:
  "FixedHeader.truncate (fst (PublishPacket_Unpack p b)) = FixedHeader.truncate p"
  unfolding PublishPacket_Unpack_def
  by (intro keep_steps [where P = "\<lambda>q. FixedHeader.truncate q = FixedHeader.truncate p"]) (auto simp: Let_def split: if_splits prod.splits)

lemma ConnectPacket_Unpack_header:
  "FixedHeader.truncate (fst (ConnectPacket_Unpack c b)) = FixedHeader.truncate c"
  unfolding ConnectPacket_Unpack_def
  by (intro keep_steps [where P = "\<lambda>q. FixedHeader.truncate q = FixedHeader.truncate c"]) (auto simp: Let_def split: if_splits prod.splits)

lemma Unpack_header: "header_of (fst (Unpack p b)) = header_of p"
  by (cases p) (simp_all add: ConnectPacket_Unpack_header PublishPacket_Unpack_header
    subscribe_loop_header unsubscribe_loop_header SubscribePacket_Unpack_def
    ConnackPacket_Unpack_def PubackPacket_Unpack_def PubrecPacket_Unpack_def PubrelPacket_Unpack_def
    PubcompPacket_Unpack_def SubackPacket_Unpack_def UnsubscribePacket_Unpack_def
    UnsubackPacket_Unpack_def PingreqPacket_Unpack_def PingrespPacket_Unpack_def
    DisconnectPacket_Unpack_def Let_def split_def)

lemma decodeLength_loop_local:
  "decodeLength_loop rl m sz r = (n, k, None, r') \<Longrightarrow>
     \<exists>ds. r = ds @ r' \<and> (\<forall>s. decodeLength_loop rl m sz (ds @ s) = (n, k, None, s))"
proof (induction r arbitrary: rl m sz)
  case Nil
  then show ?case by (cases "m < 27") (auto simp: decodeLength_cases)
next
  case (Cons d r)
  show ?case
  proof (cases "m < 27 \<and> d AND 128 \<noteq> 0")
    case True
    with Cons.prems have "decodeLength_loop (rl OR push_bit (unat m) (ucast (d AND 127)))
      (m + 7) (sz + 1) r = (n, k, None, r')" by (simp add: decodeLength_step Let_def)
    from Cons.IH [OF this] obtain ds where ds: "r = ds @ r'"
      "\<And>s. decodeLength_loop (rl OR push_bit (unat m) (ucast (d AND 127))) (m + 7) (sz + 1) (ds @ s)
         = (n, k, None, s)" by blast
    show ?thesis
      by (rule exI [of _ "d # ds"]) (use True ds in \<open>simp add: decodeLength_step Let_def\<close>)
  next
    case False
    then show ?thesis
    proof (cases "m < 27")
      case True
      with False Cons.prems show ?thesis
        by (intro exI [of _ "[d]"]) (auto simp: decodeLength_step Let_def)
    next
      case False
      with Cons.prems show ?thesis
        by (intro exI [of _ "[]"]) (auto simp: decodeLength_cases)
    qed
  qed
qed

lemma FixedHeader_unpack_inv:
  assumes "FixedHeader_unpack fh h r = (fh', None, r')"
  shows "\<exists>ds. r = ds @ r' \<and> 1 \<le> length ds \<and> length ds \<le> 4 \<and>
    PacketSize fh' = PacketSize fh + int (length ds) \<and>
    0 \<le> RemainingLength fh' \<and> RemainingLength fh' < 2 ^ 28 \<and>
    MessageType fh' = drop_bit 4 h \<and>
    (\<forall>s. FixedHeader_unpack fh h (ds @ s) = (fh', None, s))"
proof -
  obtain n sz where d: "decodeLength r = (n, sz, None, r')"
    using assms by (auto simp: FixedHeader_unpack_def Let_def split: prod.splits)
  from decodeLength_loop_local [OF d [unfolded decodeLength_def], folded decodeLength_def]
  obtain ds where ds: "r = ds @ r'" "\<And>s. decodeLength (ds @ s) = (n, sz, None, s)" by blast
  note b = decodeLength_total [OF d]
  have "length r' = length r - nat sz"
    by (subst b(6) [OF refl]) (rule length_drop)
  then have len: "int (length ds) = sz" using b(3) b(5) [OF refl] by (simp add: ds(1))
  have fh': "fh' = fh\<lparr>MessageType := drop_bit 4 h, Dup := (drop_bit 3 h AND 1) > 0,
      Qos := drop_bit 1 h AND 3, Retain := h AND 1 > 0, RemainingLength := n,
      PacketSize := PacketSize fh + sz\<rparr>"
    using assms by (simp add: FixedHeader_unpack_def d)
  have "FixedHeader_unpack fh h (ds @ s) = (fh', None, s)" for s
    by (simp add: FixedHeader_unpack_def ds(2) fh')
  then show ?thesis
    using b(1-4) len ds(1) by (intro exI [of _ ds]) (auto simp: fh')
qed

lemma NewControlPacketWithHeader_header:
  "NewControlPacketWithHeader fh = Inr cp \<Longrightarrow> header_of cp = fh"
  by (auto simp: NewControlPacketWithHeader_def new_packet_defs FixedHeader.truncate_def Let_def
      split: if_splits)

lemma ReadPacket_inv:
  assumes "ReadPacket r = (Some p, e, r')"
  shows "\<exists>h ds cp body. r = h # ds @ body @ r' \<and> 1 \<le> length ds \<and> length ds \<le> 4 \<and>
    Size p = 1 + int (length ds) \<and> RemainingLength (header_of p) = int (length body) \<and>
    RemainingLength (header_of p) < 2 ^ 28 \<and> MessageType (header_of p) = drop_bit 4 h \<and>
    NewControlPacketWithHeader (header_of p) = Inr cp \<and> Unpack cp body = (p, e) \<and>
    (\<forall>s. FixedHeader_unpack (zero_header\<lparr>PacketSize := 1\<rparr>) h (ds @ s) = (header_of p, None, s))"
proof (cases r)
  case Nil
  with assms show ?thesis by (simp add: ReadPacket_def io_ReadFull_def)
next
  case (Cons h r1)
  have one: "io_ReadFull 1 r = ([h], 1, None, r1)" by (simp add: Cons io_ReadFull_def)
  with assms obtain fh r2 where u: "FixedHeader_unpack (zero_header\<lparr>PacketSize := 1\<rparr>) h r1
      = (fh, None, r2)"
    by (auto simp: ReadPacket_def Let_def split: prod.splits if_splits)
  with assms one obtain cp where cp: "NewControlPacketWithHeader fh = Inr cp"
    by (auto simp: ReadPacket_def Let_def split: prod.splits if_splits sum.splits)
  with assms one u obtain body n where body: "io_ReadFull (nat (RemainingLength fh)) r2
      = (body, n, None, r')" and up: "Unpack cp body = (p, e)"
    by (auto simp: ReadPacket_def Let_def split: prod.splits if_splits)
  have h: "header_of p = fh"
    using Unpack_header [of cp body] NewControlPacketWithHeader_header [OF cp] up by simp
  have sz: "Size p = PacketSize fh" using h by (cases p) (auto simp: FixedHeader_Size_def FixedHeader.truncate_def)
  from FixedHeader_unpack_inv [OF u] obtain ds where "r1 = ds @ r2" "1 \<le> length ds" "length ds \<le> 4"
    "PacketSize fh = 1 + int (length ds)" "0 \<le> RemainingLength fh" "RemainingLength fh < 2 ^ 28"
    "MessageType fh = drop_bit 4 h"
    "\<forall>s. FixedHeader_unpack (zero_header\<lparr>PacketSize := 1\<rparr>) h (ds @ s) = (fh, None, s)" by auto
  with body up cp h sz Cons show ?thesis
    by (intro exI [of _ h] exI [of _ ds] exI [of _ cp] exI [of _ body]) (auto simp: io_ReadFull_ok)
qed

lemma ReadPacket_local:
  assumes "ReadPacket r = (Some p, e, r')"
  shows "ReadPacket (r @ s) = (Some p, e, r' @ s)"
proof -
  from ReadPacket_inv [OF assms] obtain h ds cp body where
    i: "r = h # ds @ body @ r'" "RemainingLength (header_of p) = int (length body)"
      "NewControlPacketWithHeader (header_of p) = Inr cp" "Unpack cp body = (p, e)"
      "\<And>s. FixedHeader_unpack (zero_header\<lparr>PacketSize := 1\<rparr>) h (ds @ s) = (header_of p, None, s)"
    by blast
  have "io_ReadFull 1 (h # xs) = ([h], 1, None, xs)" for h :: byte and xs
    by (simp add: io_ReadFull_def)
  with i show ?thesis by (simp add: ReadPacket_def reader_simps)
qed

lemma ReadPacket_None: "ReadPacket r = (None, e, r') \<Longrightarrow> e \<noteq> None"
  by (auto simp: ReadPacket_def Let_def io_ReadFull_def split: prod.splits if_splits sum.splits
    dest: FixedHeader_unpack_inv)

section \<open>What an accepted body guarantees\<close>

text \<open>A field that the reader held in full is read exactly.\<close>

lemma BigEndian_inverse: "BigEndian_PutUint16 (BigEndian_Uint16 [x, y]) = [x, y]"
proof -
  have "ucast (drop_bit 8 (BigEndian_Uint16 [x, y])) = x"
    by (rule bit_word_eqI) (auto simp: BigEndian_Uint16_def bit_simps dest: bit_imp_le_length)
  moreover have "ucast (BigEndian_Uint16 [x, y]) = y"
    by (rule bit_word_eqI) (auto simp: BigEndian_Uint16_def bit_simps)
  ultimately show ?thesis by (simp add: BigEndian_PutUint16_def)
qed

lemma decodeUint16_exact:
  assumes "decodeUint16 b = (v, e, b')" "2 \<le> length b"
  shows "b = encodeUint16 v @ b' \<and> e = None"
proof -
  from assms(2) obtain x y r where "b = x # y # r"
    by (metis (no_types) Suc_le_length_iff numeral_2_eq_2)
  with assms(1) show ?thesis
    by (simp add: decodeUint16_def buffer_Read_def encodeUint16_def BigEndian_inverse
        split: if_splits) (metis BigEndian_inverse)
qed

lemma decodeBytes_exact:
  assumes "decodeBytes b = (s, None, b')" "length s + 2 \<le> length b \<or> b' \<noteq> []"
  shows "b = encodeBytes s @ b'"
proof -
  obtain v b1 where u: "decodeUint16 b = (v, None, b1)" and r: "buffer_Read (unat v) b1 = (s, None, b')"
    using assms(1) by (auto simp: decodeBytes_def Let_def split: prod.splits if_splits)
  have s: "length s = unat v" "b' = drop (unat v) b1"
    using buffer_Read_length [OF r] buffer_Read_rest [OF r] by auto
  have "b1 = drop 2 b" using decodeUint16_shrinks [OF u] by simp
  with assms(2) s have l: "2 \<le> length b" "unat v \<le> length b1" by auto
  with r have "b1 = s @ b'" by (auto simp: buffer_Read_def split: if_splits)
  moreover have "b = encodeUint16 v @ b1" using decodeUint16_exact [OF u l(1)] by simp
  moreover have "word_of_nat (length s) = v" by (simp add: s(1))
  ultimately show ?thesis by (simp add: encodeBytes_def encodeUint16_def)
qed

lemma decodeBytes_length: "decodeBytes b = (s, e, b') \<Longrightarrow> length s < 65536"
proof -
  have "unat v < 2 ^ LENGTH(16)" for v :: uint16 by (rule unsigned_less)
  then have "unat v < 65536" for v :: uint16 by simp
  moreover assume "decodeBytes b = (s, e, b')"
  ultimately show ?thesis
    by (auto simp: decodeBytes_def Let_def split: prod.splits if_splits dest!: buffer_Read_length)
qed

lemma decodeString_exact:
  assumes "decodeString b = (s, None, b')" "length s + 2 \<le> length b \<or> b' \<noteq> []"
  shows "b = encodeString s @ b'"
  using assms decodeBytes_exact [of b "bytes_of_string s" b']
  by (auto simp: decodeString_def encodeString_def split: prod.splits)

lemma decodeString_length: "decodeString b = (s, e, b') \<Longrightarrow> length s < 65536"
  by (auto simp: decodeString_def split: prod.splits dest!: decodeBytes_length)

lemma subscribe_loop_exact:
  "subscribe_loop s (int (length b)) b = (s', None) \<Longrightarrow>
     \<exists>ts qs. sub_Topics s' = sub_Topics s @ ts \<and> Qoss s' = Qoss s @ qs \<and>
       sub_MessageID s' = sub_MessageID s \<and>
       length qs = length ts \<and> list_all (\<lambda>t. length t < 65536) ts \<and> subscribe_topics ts qs = Some b"
proof (induction b arbitrary: s rule: length_induct)
  case (1 b)
  show ?case
  proof (cases "b = []")
    case True
    with "1.prems" show ?thesis by (simp add: subscribe_loop.simps)
  next
    case False
    note run = "1.prems" [unfolded subscribe_loop.simps [of s]]
    from run False obtain t b1 where t: "decodeString b = (t, None, b1)"
      by (auto simp: Let_def split: prod.splits if_splits)
    with run False obtain q b2 where q: "decodeByte b1 = (q, None, b2)"
      by (auto simp: Let_def split: prod.splits if_splits)
    then have b1: "b1 = q # b2" by (cases b1) (auto simp: decodeByte_Nil decodeByte_Cons)
    then have b: "b = encodeString t @ q # b2" using decodeString_exact [OF t] by simp
    let ?s = "s\<lparr>sub_Topics := sub_Topics s @ [t], Qoss := Qoss s @ [q]\<rparr>"
    have "subscribe_loop ?s (int (length b2)) b2 = (s', None)"
      using run t q False by (simp add: Let_def) (simp add: b)
    with "1.IH" [rule_format, of b2 ?s] b obtain ts qs where
      "sub_Topics s' = sub_Topics s @ t # ts \<and> Qoss s' = Qoss s @ q # qs \<and>
       sub_MessageID s' = sub_MessageID s \<and>
       length qs = length ts \<and> list_all (\<lambda>t. length t < 65536) ts \<and> subscribe_topics ts qs = Some b2"
      by auto
    with b decodeString_length [OF t] show ?thesis
      by (intro exI [of _ "t # ts"] exI [of _ "q # qs"]) simp
  qed
qed

lemma SubscribePacket_Unpack_exact:
  assumes "SubscribePacket_Unpack (new_SubscribePacket fh) body = (s, None)"
    and "RemainingLength fh = int (length body)"
  shows "length (Qoss s) = length (sub_Topics s) \<and> list_all (\<lambda>t. length t < 65536) (sub_Topics s) \<and>
    (2 \<le> length body \<longrightarrow> (\<exists>bs. subscribe_topics (sub_Topics s) (Qoss s) = Some bs \<and>
       body = encodeUint16 (sub_MessageID s) @ bs))"
proof -
  let ?s0 = "\<lambda>v. (new_SubscribePacket fh)\<lparr>sub_MessageID := v\<rparr>"
  obtain v b where u: "decodeUint16 body = (v, None, b)"
      and run: "subscribe_loop (?s0 v) (RemainingLength fh - 2) b = (s, None)"
    using assms(1) by (auto simp: SubscribePacket_Unpack_def Let_def new_packet_defs split: prod.splits if_splits)
  show ?thesis
  proof (cases "2 \<le> length body")
    case True
    with u have body: "body = encodeUint16 v @ b" by (auto dest: decodeUint16_exact)
    then have "RemainingLength fh - 2 = int (length b)" using assms(2) by simp
    with run subscribe_loop_exact [of "?s0 v" b s] body show ?thesis
      by (auto simp: new_packet_defs)
  next
    case False
    with assms(2) have "\<not> RemainingLength fh - 2 > 0" by simp
    then have "subscribe_loop (?s0 v) (RemainingLength fh - 2) b = (?s0 v, None)"
      by (simp add: subscribe_loop.simps)
    with run False show ?thesis by (auto simp: new_packet_defs)
  qed
qed

lemma PublishPacket_Unpack_exact:
  assumes "PublishPacket_Unpack (new_PublishPacket fh) body = (p, None)"
    and "RemainingLength fh = int (length body)"
  shows "body = PublishPacket_body p @ Payload p \<and> length (TopicName p) < 65536 \<and>
    (Qos p = 0 \<longrightarrow> pub_MessageID p = 0) \<and> FixedHeader.truncate p = fh"
proof -
  have h: "FixedHeader.truncate p = fh"
    using PublishPacket_Unpack_header [of "new_PublishPacket fh" body] assms(1)
    by (simp add: new_packet_defs FixedHeader.truncate_def)
  have q: "Qos p = Qos fh" by (simp add: h [symmetric])
  obtain t b1 where t: "decodeString body = (t, None, b1)"
    using assms(1) by (auto simp: PublishPacket_Unpack_def Let_def split: prod.splits if_splits)
  show ?thesis
  proof (cases "Qos fh > 0")
    case True
    with assms(1) t obtain i b2 where i: "decodeUint16 b1 = (i, None, b2)"
      by (auto simp: PublishPacket_Unpack_def new_packet_defs Let_def split: prod.splits if_splits)
    with assms(1) True t obtain pay b3 where n: "0 \<le> RemainingLength fh - (int (length t) + 4)"
      and pay: "buffer_Read (nat (RemainingLength fh - (int (length t) + 4))) b2 = (pay, None, b3)"
      and p: "TopicName p = t" "pub_MessageID p = i" "Payload p = pay"
      by (auto simp: PublishPacket_Unpack_def new_packet_defs Let_def split: prod.splits if_splits)
    from n assms(2) have l: "length t + 4 \<le> length body" by simp
    then have b: "body = encodeString t @ b1" using decodeString_exact [OF t] by simp
    with l have "b1 = encodeUint16 i @ b2" using decodeUint16_exact [OF i] by simp
    with b pay assms(2) have "body = encodeString t @ encodeUint16 i @ pay"
      by (auto simp: buffer_Read_def nat_diff_distrib split: if_splits)
    with True q p decodeString_length [OF t] h show ?thesis by (simp add: PublishPacket_body_def word_gt_0)
  next
    case False
    with assms(1) t obtain pay b3 where n: "0 \<le> RemainingLength fh - (int (length t) + 2)"
      and pay: "buffer_Read (nat (RemainingLength fh - (int (length t) + 2))) b1 = (pay, None, b3)"
      and p: "TopicName p = t" "pub_MessageID p = 0" "Payload p = pay"
      by (auto simp: PublishPacket_Unpack_def new_packet_defs Let_def split: prod.splits if_splits)
    from n assms(2) have l: "length t + 2 \<le> length body" by simp
    then have b: "body = encodeString t @ b1" using decodeString_exact [OF t] by simp
    with pay assms(2) have "body = encodeString t @ pay"
      by (auto simp: buffer_Read_def split: if_splits)
    with False q p decodeString_length [OF t] h show ?thesis by (simp add: PublishPacket_body_def word_gt_0)
  qed
qed

text \<open>The length tests of \<open>Validate\<close> hold for whatever \<open>Unpack\<close> read.\<close>

definition short_fields :: "ConnectPacket \<Rightarrow> bool" where
  "short_fields c \<longleftrightarrow> length (ClientIdentifier c) < 65536 \<and> length (Username c) < 65536 \<and>
     length (Password c) < 65536"

lemma short_fields_update [simp]:
  "short_fields (c\<lparr>ProtocolName := x1\<rparr>) = short_fields c"
  "short_fields (c\<lparr>ProtocolVersion := x2\<rparr>) = short_fields c"
  "short_fields (c\<lparr>CleanSession := x3\<rparr>) = short_fields c"
  "short_fields (c\<lparr>WillFlag := x4\<rparr>) = short_fields c"
  "short_fields (c\<lparr>WillQos := x5\<rparr>) = short_fields c"
  "short_fields (c\<lparr>WillRetain := x6\<rparr>) = short_fields c"
  "short_fields (c\<lparr>UsernameFlag := x7\<rparr>) = short_fields c"
  "short_fields (c\<lparr>PasswordFlag := x8\<rparr>) = short_fields c"
  "short_fields (c\<lparr>ReservedBit := x9\<rparr>) = short_fields c"
  "short_fields (c\<lparr>Keepalive := x10\<rparr>) = short_fields c"
  "short_fields (c\<lparr>WillTopic := x11\<rparr>) = short_fields c"
  "short_fields (c\<lparr>WillMessage := x12\<rparr>) = short_fields c"
  "short_fields c \<Longrightarrow> length cid < 65536 \<Longrightarrow> short_fields (c\<lparr>ClientIdentifier := cid\<rparr>)"
  "short_fields c \<Longrightarrow> length u < 65536 \<Longrightarrow> short_fields (c\<lparr>Username := u\<rparr>)"
  "short_fields c \<Longrightarrow> length pw < 65536 \<Longrightarrow> short_fields (c\<lparr>Password := pw\<rparr>)"
  by (simp_all add: short_fields_def)

lemma ConnectPacket_Unpack_short:
  "short_fields c \<Longrightarrow> short_fields (fst (ConnectPacket_Unpack c b))"
  unfolding ConnectPacket_Unpack_def
  by (intro keep_steps [where P = short_fields])
    (auto simp: Let_def decodeString_length decodeBytes_length split: if_splits prod.splits)

lemma Validate_cases:
  "short_fields c \<Longrightarrow> Validate c =
     (if PasswordFlag c \<and> \<not> UsernameFlag c then ErrRefusedBadUsernameOrPassword
      else if ReservedBit c \<noteq> 0 then ErrProtocolViolation
      else if ProtocolName c = ''MQIsdp'' \<and> ProtocolVersion c = 3 \<or>
              ProtocolName c = ''MQTT'' \<and> ProtocolVersion c = 4
        then (if ClientIdentifier c = [] \<and> \<not> CleanSession c then ErrRefusedIDRejected
              else Accepted)
      else if ProtocolName c = ''MQIsdp'' \<or> ProtocolName c = ''MQTT''
        then ErrRefusedBadProtocolVersion
      else ErrProtocolViolation)"
  by (auto simp: Validate_def short_fields_def)

section \<open>Accepted packets\<close>

lemma RemainingLength_written:
  "sendable p \<Longrightarrow> RemainingLength (header_of (written p)) < 2 ^ 28"
  by (simp add: sendable_def)

lemma mask_3_less: "w AND 3 < 4" for w :: byte
proof -
  have "w AND 3 \<le> 3" by (rule word_and_le1)
  also have "(3 :: byte) < 4" by simp
  finally show ?thesis .
qed

lemma FixedHeader_unpack_Qos:
  "FixedHeader_unpack fh h r = (fh', e, r') \<Longrightarrow> Qos fh' < 4"
  by (auto simp: FixedHeader_unpack_def Let_def mask_3_less split: prod.splits)

text \<open>Which constructor \<open>ReadPacket\<close> returns, and from which empty packet it was unpacked.\<close>

lemma new_inverse:
  "NewControlPacketWithHeader fh = Inr (PublishP p) \<Longrightarrow> MessageType fh = Publish \<and> p = new_PublishPacket fh"
  "NewControlPacketWithHeader fh = Inr (SubscribeP s) \<Longrightarrow>
     MessageType fh = Subscribe \<and> s = new_SubscribePacket fh"
  "NewControlPacketWithHeader fh = Inr (ConnectP c) \<Longrightarrow> MessageType fh = Connect \<and> c = new_ConnectPacket fh"
  by (auto simp: NewControlPacketWithHeader_def Let_def split: if_splits)

lemma Unpack_inverse:
  "Unpack cp b = (PublishP p, e) \<Longrightarrow> \<exists>p0. cp = PublishP p0 \<and> PublishPacket_Unpack p0 b = (p, e)"
  "Unpack cp b = (SubscribeP s, e) \<Longrightarrow> \<exists>s0. cp = SubscribeP s0 \<and> SubscribePacket_Unpack s0 b = (s, e)"
  "Unpack cp b = (ConnectP c, e) \<Longrightarrow> \<exists>c0. cp = ConnectP c0 \<and> ConnectPacket_Unpack c0 b = (c, e)"
  by (cases cp; auto simp: map_prod_def split: prod.splits)+

lemma ReadPacket_Publish:
  assumes "ReadPacket r = (Some (PublishP p), None, r')"
  shows "wf_publish p \<and> RemainingLength p < 2 ^ 28 \<and>
    RemainingLength p = int (length (PublishPacket_body p @ Payload p)) \<and>
    (\<exists>hdr. r = hdr @ PublishPacket_body p @ Payload p @ r' \<and> int (length hdr) = Size (PublishP p))"
proof -
  from ReadPacket_inv [OF assms] obtain h ds cp body where
    i: "r = h # ds @ body @ r'" "Size (PublishP p) = 1 + int (length ds)"
      "RemainingLength p = int (length body)"
      "NewControlPacketWithHeader (FixedHeader.truncate p) = Inr cp" "Unpack cp body = (PublishP p, None)"
    and u: "\<forall>x. FixedHeader_unpack (zero_header\<lparr>PacketSize := 1\<rparr>) h (ds @ x) = (FixedHeader.truncate p, None, x)"
    by (simp only: header_of.simps truncate_fields) blast
  from Unpack_inverse(1) [OF i(5)] obtain p0 where p0: "cp = PublishP p0"
    "PublishPacket_Unpack p0 body = (p, None)" by blast
  with new_inverse(1) i(4) have t: "MessageType p = Publish"
    and "PublishPacket_Unpack (new_PublishPacket (FixedHeader.truncate p)) body = (p, None)" by fastforce+
  from PublishPacket_Unpack_exact [OF this(2)] i(3)
  have b: "body = PublishPacket_body p @ Payload p" "length (TopicName p) < 65536"
    "Qos p = 0 \<longrightarrow> pub_MessageID p = 0" by auto
  from FixedHeader_unpack_Qos [OF u [rule_format]] have "Qos p < 4" by simp
  with t b(2,3) have "wf_publish p" by (simp add: wf_publish_def wf_header_def)
  moreover have "r = (h # ds) @ PublishPacket_body p @ Payload p @ r' \<and>
      int (length (h # ds)) = Size (PublishP p)"
    using i(1,2) b(1) by simp
  moreover have "RemainingLength p < 2 ^ 28" using ReadPacket_inv [OF assms] by auto
  ultimately show ?thesis using i(3) b(1) by blast
qed

lemma ReadPacket_Subscribe:
  assumes "ReadPacket r = (Some (SubscribeP s), None, r')"
  shows "length (Qoss s) = length (sub_Topics s) \<and> (2 \<le> RemainingLength s \<longrightarrow> wf_subscribe s \<and>
     (\<exists>hdr bs. subscribe_topics (sub_Topics s) (Qoss s) = Some bs \<and>
        r = hdr @ encodeUint16 (sub_MessageID s) @ bs @ r' \<and> int (length hdr) = Size (SubscribeP s)))"
proof -
  from ReadPacket_inv [OF assms] obtain h ds cp body where
    i: "r = h # ds @ body @ r'" "Size (SubscribeP s) = 1 + int (length ds)"
      "RemainingLength s = int (length body)"
      "NewControlPacketWithHeader (FixedHeader.truncate s) = Inr cp" "Unpack cp body = (SubscribeP s, None)"
    and u: "\<forall>x. FixedHeader_unpack (zero_header\<lparr>PacketSize := 1\<rparr>) h (ds @ x) = (FixedHeader.truncate s, None, x)"
    by (simp only: header_of.simps truncate_fields) blast
  from Unpack_inverse(2) [OF i(5)] obtain s0 where s0: "cp = SubscribeP s0"
    "SubscribePacket_Unpack s0 body = (s, None)" by blast
  with new_inverse(2) i(4) have t: "MessageType s = Subscribe"
    and "SubscribePacket_Unpack (new_SubscribePacket (FixedHeader.truncate s)) body = (s, None)" by fastforce+
  note ex = SubscribePacket_Unpack_exact [OF this(2), unfolded truncate_fields, OF i(3)]
  from FixedHeader_unpack_Qos [OF u [rule_format]] have "Qos s < 4" by simp
  with t ex have "wf_subscribe s" by (simp add: wf_subscribe_def wf_header_def)
  have "r = (h # ds) @ encodeUint16 (sub_MessageID s) @ bs @ r' \<and> int (length (h # ds)) = Size (SubscribeP s)"
    if "body = encodeUint16 (sub_MessageID s) @ bs" for bs
    using i(1,2) that by simp
  with \<open>wf_subscribe s\<close> ex i(3) show ?thesis by fastforce
qed

lemma ReadPacket_Connect:
  assumes "ReadPacket r = (Some (ConnectP c), e, r')"
  shows "short_fields c"
proof -
  from ReadPacket_inv [OF assms] obtain cp body where
    i: "NewControlPacketWithHeader (FixedHeader.truncate c) = Inr cp" "Unpack cp body = (ConnectP c, e)"
    by auto
  from Unpack_inverse(3) [OF i(2)] obtain c0 where c0: "cp = ConnectP c0"
    "ConnectPacket_Unpack c0 body = (c, e)" by blast
  with new_inverse(3) i(1) have "c0 = new_ConnectPacket (FixedHeader.truncate c)" by blast
  then have "short_fields c0" by (simp add: short_fields_def new_packet_defs)
  with ConnectPacket_Unpack_short [OF this, of body] c0 show ?thesis by simp
qed

end
