(* ===== verification/Packet_Properties.thy ===== *)
theory Packet_Properties
  imports Packet_Laws
begin

text \<open>The properties of the packet codec, each with a witness on concrete packets and bytes.\<close>

text \<open>
  C3. Round trip of all fourteen packets. A packet whose fields fit the wire format can be
  written (no panic); if its remaining length is one MQTT can carry, \<open>ReadPacket\<close> on the
  written bytes, whatever follows them, returns a packet with the same content, no error, and
  leaves exactly what followed.
\<close>

theorem packet_roundtrip:
  assumes "wf_packet p"
  shows "\<exists>bs p'. Write p = Some (bs, p') \<and> content p' = content p \<and>
    (RemainingLength (header_of p') < 2 ^ 28 \<longrightarrow>
      (\<exists>q. ReadPacket (bs @ rest) = (Some q, None, rest) \<and> content q = content p))"
proof -
  have "\<exists>q. ReadPacket (packet_bytes p @ rest) = (Some q, None, rest) \<and> content q = content p"
    if "RemainingLength (header_of (written p)) < 2 ^ 28"
    using ReadPacket_packet_bytes [of p rest] that assms
    by (auto simp: sendable_def received_def content_written)
  then show ?thesis
    using Write_total [OF assms] content_written [of p] by blast
qed

definition sample_publish :: PublishPacket where
  "sample_publish = \<lparr>MessageType = 3, Dup = False, Qos = 1, Retain = True, RemainingLength = 0,
     PacketSize = 0, TopicName = ''a/b'', pub_MessageID = 258, Payload = [7, 0]\<rparr>"

lemma sample_wf: "wf_packet (PublishP sample_publish)"
  by (simp add: sample_publish_def wf_publish_def wf_header_def packet_type)

lemma sample_sendable:
  "sendable (PublishP sample_publish)" "sendable (PingreqP (zero_header\<lparr>MessageType := 12\<rparr>))"
  by (simp_all add: sendable_def written_def Write_eqs FixedHeader_pack_header Let_def
      sample_publish_def PublishPacket_body_def zero_header_def wf_header_def wf_publish_def packet_type)

lemma sample_bytes:
  "packet_bytes (PublishP sample_publish) = [0x33, 9, 0, 3, 0x61, 0x2F, 0x62, 1, 2, 7] @ [0]"
  by code_simp

theorem packet_roundtrip_witness:
  "\<exists>bs p'. Write (PublishP sample_publish) = Some (bs, p') \<and>
    content p' = content (PublishP sample_publish) \<and>
    (RemainingLength (header_of p') < 2 ^ 28 \<longrightarrow>
      (\<exists>q. ReadPacket (bs @ [1]) = (Some q, None, [1]) \<and>
        content q = content (PublishP sample_publish)))"
  by (rule packet_roundtrip) (rule sample_wf)

text \<open>
  C22. A stream of packets splits back into its packets: reading as many packets as were sent
  off the concatenation of their bytes returns their contents in order, none lost, merged or
  split, and leaves what was sent after them.
\<close>

theorem packet_stream:
  assumes "list_all sendable ps"
  shows "\<exists>qs. read_times (length ps) ReadPacket (concat (map packet_bytes ps) @ rest) =
      (map Some qs, None, rest) \<and> map content qs = map content ps"
proof (intro exI conjI)
  let ?q = "\<lambda>p. the (received p)"
  show "read_times (length ps) ReadPacket (concat (map packet_bytes ps) @ rest) =
      (map Some (map ?q ps), None, rest)"
    using packet_format.dec_enc_stream [OF assms, of rest] by (simp add: received_def comp_def)
  show "map content (map ?q ps) = map content ps"
    by (simp add: received_def content_written)
qed

theorem packet_stream_witness:
  "\<exists>qs. read_times (length [PublishP sample_publish, PingreqP (zero_header\<lparr>MessageType := 12\<rparr>)])
       ReadPacket (concat (map packet_bytes
         [PublishP sample_publish, PingreqP (zero_header\<lparr>MessageType := 12\<rparr>)]) @ [9]) =
      (map Some qs, None, [9]) \<and>
    map content qs =
      map content [PublishP sample_publish, PingreqP (zero_header\<lparr>MessageType := 12\<rparr>)]"
  by (rule packet_stream) (simp add: sample_sendable)

text \<open>
  C38. Framing. Whenever \<open>ReadPacket\<close> returns a packet, with or without an unpack error, it
  has taken off the stream a header of two to five bytes and a body of exactly the announced
  remaining length, and nothing else; \<open>Size\<close>, the count the broker adds to its received
  bytes, is the size of the header alone.
\<close>

theorem ReadPacket_framing:
  assumes "ReadPacket r = (Some p, e, r')"
  shows "\<exists>hdr body. r = hdr @ body @ r' \<and> int (length hdr) = Size p \<and> 2 \<le> Size p \<and> Size p \<le> 5 \<and>
    int (length body) = RemainingLength (header_of p)"
proof -
  from ReadPacket_inv [OF assms] obtain h ds body where
    "r = (h # ds) @ body @ r'" "1 \<le> length ds" "length ds \<le> 4" "Size p = 1 + int (length ds)"
    "RemainingLength (header_of p) = int (length body)" by auto
  then show ?thesis by (intro exI [of _ "h # ds"] exI [of _ body]) simp
qed

definition publish_frame :: "byte list" where
  "publish_frame = [0x33, 9, 0, 3, 0x61, 0x2F, 0x62, 1, 2, 7, 0]"

theorem ReadPacket_framing_witness:
  "\<exists>p. ReadPacket (publish_frame @ [1, 2]) = (Some p, None, [1, 2]) \<and>
     (\<exists>hdr body. publish_frame @ [1, 2] = hdr @ body @ [1, 2] \<and> int (length hdr) = Size p \<and>
       2 \<le> Size p \<and> Size p \<le> 5 \<and> int (length body) = RemainingLength (header_of p))"
proof -
  let ?p = "PublishP (sample_publish\<lparr>RemainingLength := 9, PacketSize := 2\<rparr>)"
  have "ReadPacket (publish_frame @ [1, 2]) = (Some ?p, None, [1, 2])"
    by code_simp
  with ReadPacket_framing [OF this] show ?thesis by blast
qed

text \<open>
  C27. A packet that was cut off is never delivered: on any proper prefix of the bytes of a
  packet \<open>ReadPacket\<close> returns no packet and an error.
\<close>

theorem cut_off_packet_rejected:
  assumes "sendable p" "packet_bytes p = a @ b" "b \<noteq> []"
  shows "\<exists>e r'. ReadPacket a = (None, Some e, r')"
proof (cases "ReadPacket a")
  case (fields q e r')
  have "q = None"
  proof (rule ccontr)
    assume "q \<noteq> None"
    then obtain q' where "q = Some q'" by blast
    with fields have "ReadPacket (a @ b) = (q, e, r' @ b)" using ReadPacket_local by blast
    with ReadPacket_packet_bytes [OF assms(1), of "[]"] assms(2,3) show False by simp
  qed
  with fields ReadPacket_None [of a] show ?thesis by auto
qed

theorem cut_off_packet_rejected_witness:
  "\<exists>e r'. ReadPacket [0x33, 9, 0, 3, 0x61, 0x2F, 0x62, 1, 2, 7] = (None, Some e, r')"
  by (rule cut_off_packet_rejected [OF sample_sendable(1) sample_bytes]) simp

lemma publish_frame_read:
  "ReadPacket (publish_frame @ [1, 2]) =
     (Some (PublishP (sample_publish\<lparr>RemainingLength := 9, PacketSize := 2\<rparr>)), None, [1, 2])"
  by code_simp

text \<open>
  C26. A PUBLISH that was accepted is forwarded unchanged. The bytes behind its header are
  exactly the encoded topic, the message identifier (for QoS above 0) and the payload; and
  writing the packet, as the broker does for each subscriber, succeeds and yields a packet that
  a reader accepts with the same topic, payload, QoS, flags and identifier.
\<close>

theorem accepted_publish_forwarded:
  assumes "ReadPacket r = (Some (PublishP p), None, r')"
  shows "(\<exists>hdr. r = hdr @ PublishPacket_body p @ Payload p @ r') \<and>
    (\<exists>bs p' q. Write (PublishP p) = Some (bs, p') \<and> ReadPacket (bs @ rest) = (Some q, None, rest) \<and>
       content q = content (PublishP p))"
proof -
  note acc = ReadPacket_Publish [OF assms]
  have "RemainingLength (header_of (written (PublishP p))) = RemainingLength p"
    using acc by (simp add: written_def Write_eqs FixedHeader_pack_header Let_def)
  with acc have s: "sendable (PublishP p)" by (simp add: sendable_def)
  with ReadPacket_packet_bytes [OF s, of rest] Write_total [of "PublishP p"] acc
    received_content [of "PublishP p"]
  show ?thesis by (auto simp: received_def)
qed

theorem accepted_publish_forwarded_witness:
  "\<exists>p. ReadPacket (publish_frame @ [1, 2]) = (Some (PublishP p), None, [1, 2]) \<and>
    (\<exists>hdr. publish_frame @ [1, 2] = hdr @ PublishPacket_body p @ Payload p @ [1, 2]) \<and>
    (\<exists>bs p' q. Write (PublishP p) = Some (bs, p') \<and> ReadPacket (bs @ [5]) = (Some q, None, [5]) \<and>
       content q = content (PublishP p))"
  using publish_frame_read accepted_publish_forwarded [OF publish_frame_read, of "[5]"] by blast

text \<open>
  C30. A SUBSCRIBE that was accepted has one QoS byte for each topic filter, so the broker may
  index \<open>Qoss\<close> by the position of a topic, and \<open>Write\<close> does not panic on it; and unless it
  was cut down to one byte, its body is exactly the message identifier followed by the
  filters and their QoS bytes.
\<close>

theorem accepted_subscribe_total:
  assumes "ReadPacket r = (Some (SubscribeP s), None, r')"
  shows "length (Qoss s) = length (sub_Topics s) \<and> Write (SubscribeP s) \<noteq> None \<and>
    (2 \<le> RemainingLength s \<longrightarrow> (\<exists>hdr bs. subscribe_topics (sub_Topics s) (Qoss s) = Some bs \<and>
       r = hdr @ encodeUint16 (sub_MessageID s) @ bs @ r'))"
proof -
  note acc = ReadPacket_Subscribe [OF assms]
  then obtain bs where "subscribe_topics (sub_Topics s) (Qoss s) = Some bs"
    using subscribe_topics_total [of "sub_Topics s" "Qoss s"] by auto
  then have "Write (SubscribeP s) \<noteq> None" by (simp add: Write_eqs Let_def)
  with acc show ?thesis by blast
qed

definition subscribe_frame :: "byte list" where
  "subscribe_frame = [0x82, 11, 0, 10, 0, 1, 0x61, 1, 0, 2, 0x62, 0x2B, 0]"

theorem accepted_subscribe_total_witness:
  "\<exists>s. ReadPacket (subscribe_frame @ [1]) = (Some (SubscribeP s), None, [1]) \<and>
    sub_Topics s = [''a'', ''b+''] \<and> length (Qoss s) = length (sub_Topics s) \<and>
    Write (SubscribeP s) \<noteq> None"
proof -
  let ?s = "\<lparr>MessageType = 8, Dup = False, Qos = 1, Retain = False, RemainingLength = 11,
    PacketSize = 2, sub_MessageID = 10, sub_Topics = [''a'', ''b+''], Qoss = [1, 0]\<rparr>"
  have "ReadPacket (subscribe_frame @ [1]) = (Some (SubscribeP ?s), None, [1])"
    by code_simp
  with accepted_subscribe_total [OF this] show ?thesis by (intro exI [of _ ?s]) simp
qed

text \<open>
  What \<open>Validate\<close> decides about a CONNECT that came off the wire, in the order of its
  tests: a password needs a user name, the reserved bit must be off, the protocol must be
  MQTT 3.1 or 3.1.1 with its own version number, and an empty client identifier needs a clean
  session. The three length tests of the code never fire.
\<close>

theorem Validate_received:
  assumes "ReadPacket r = (Some (ConnectP c), e, r')"
  shows "Validate c =
     (if PasswordFlag c \<and> \<not> UsernameFlag c then ErrRefusedBadUsernameOrPassword
      else if ReservedBit c \<noteq> 0 then ErrProtocolViolation
      else if ProtocolName c = ''MQIsdp'' \<and> ProtocolVersion c = 3 \<or>
              ProtocolName c = ''MQTT'' \<and> ProtocolVersion c = 4
        then (if ClientIdentifier c = [] \<and> \<not> CleanSession c then ErrRefusedIDRejected
              else Accepted)
      else if ProtocolName c = ''MQIsdp'' \<or> ProtocolName c = ''MQTT''
        then ErrRefusedBadProtocolVersion
      else ErrProtocolViolation)"
  by (rule Validate_cases) (rule ReadPacket_Connect [OF assms])

definition connect_frame :: "byte list" where
  "connect_frame = [0x10, 12, 0, 4, 0x4D, 0x51, 0x54, 0x54, 4, 0, 0, 60, 0, 0]"

theorem Validate_received_witness:
  "\<exists>c. ReadPacket connect_frame = (Some (ConnectP c), None, []) \<and>
     ProtocolName c = ''MQTT'' \<and> Validate c = ErrRefusedIDRejected"
proof -
  let ?c = "(new_ConnectPacket (zero_header\<lparr>MessageType := 1, RemainingLength := 12, PacketSize := 2\<rparr>))
    \<lparr>ProtocolName := ''MQTT'', ProtocolVersion := 4, Keepalive := 60\<rparr>"
  have "ReadPacket connect_frame = (Some (ConnectP ?c), None, [])"
    by code_simp
  with Validate_received [OF this] show ?thesis
    by (intro exI [of _ ?c]) (simp add: new_packet_defs zero_header_def)
qed

text \<open>
  A field cut short by the end of the body is accepted. A string or byte field that
  announces more bytes than the body holds is filled up with zero bytes, and an integer of
  which only the high byte arrived gets a zero low byte; neither reports an error.
\<close>

theorem short_field_padded:
  assumes "xs \<noteq> []" "length xs < n" "n < 65536"
  shows "decodeBytes (encodeUint16 (word_of_nat n) @ xs) =
      (xs @ replicate (n - length xs) 0, None, []) \<and>
    decodeUint16 [x] = (push_bit 8 (ucast x), None, [])"
proof -
  have "unat (word_of_nat n :: uint16) = n"
    using assms(3) by (simp add: unsigned_of_nat take_bit_nat_eq_self)
  then show ?thesis
    using assms by (simp add: decodeBytes_def decodeUint16_encode)
      (simp add: buffer_Read_def decodeUint16_def BigEndian_Uint16_def)
qed

theorem short_field_padded_witness:
  "decodeBytes (encodeUint16 (word_of_nat 4) @ [0x61, 0x62]) =
      ([0x61, 0x62] @ replicate (4 - length [0x61 :: byte, 0x62]) 0, None, []) \<and>
    decodeUint16 [0x07] = (push_bit 8 (ucast (0x07 :: byte)), None, [])"
  by (rule short_field_padded) simp_all

lemma unsubscribe_loop_prefix:
  "list_all (\<lambda>t. t \<noteq> [] \<and> length t < 65536) ts \<Longrightarrow>
     unsubscribe_loop u (concat (map encodeString ts) @ junk) =
       unsubscribe_loop (u\<lparr>unsub_Topics := unsub_Topics u @ ts\<rparr>) junk"
proof (induction ts arbitrary: u)
  case (Cons t ts)
  then have "unsubscribe_loop u (concat (map encodeString (t # ts)) @ junk) =
      unsubscribe_loop (u\<lparr>unsub_Topics := unsub_Topics u @ [t]\<rparr>) (concat (map encodeString ts) @ junk)"
    by (subst unsubscribe_loop.simps) (simp add: reader_simps)
  with Cons show ?case by simp
qed simp

text \<open>
  UNSUBSCRIBE loses the error of its topic list: once it has its message identifier,
  \<open>Unpack\<close> never reports an error, and a list that turns bad after some topics yields the
  topics before the bad one.
\<close>

theorem unsubscribe_error_lost:
  assumes "list_all (\<lambda>t. t \<noteq> [] \<and> length t < 65536) ts" "decodeString junk = (s, Some e, b)"
    and "unsub_Topics u = []"
  shows "UnsubscribePacket_Unpack u (encodeUint16 mid @ concat (map encodeString ts) @ junk) =
    (u\<lparr>unsub_MessageID := mid, unsub_Topics := ts\<rparr>, None)"
  using assms unsubscribe_loop_prefix [OF assms(1), of "u\<lparr>unsub_MessageID := mid\<rparr>" junk]
  by (simp add: UnsubscribePacket_Unpack_def reader_simps unsubscribe_loop.simps [of _ junk])


theorem unsubscribe_error_lost_witness:
  "UnsubscribePacket_Unpack (new_UnsubscribePacket zero_header)
      (encodeUint16 9 @ concat (map encodeString [''a'', ''b/c'']) @ [0, 5]) =
    ((new_UnsubscribePacket zero_header)\<lparr>unsub_MessageID := 9, unsub_Topics := [''a'', ''b/c'']\<rparr>, None)"
proof -
  have junk: "decodeString [0, 5] = ([], Some EOF, [])" by code_simp
  show ?thesis
    by (rule unsubscribe_error_lost [OF _ junk]) (simp_all add: new_packet_defs)
qed

text \<open>
  C40. Writing is repeatable. \<open>Write\<close> leaves a packet that writes the same bytes and stays as it
  is, and what it writes for a packet with a body does not depend on the lengths the packet
  held before; so the one packet the broker hands to the writers of several clients puts the
  same bytes on every connection, in whatever order they write it.
\<close>

theorem Write_repeatable:
  assumes "Write p = Some (bs, p')"
  shows "Write p' = Some (bs, p') \<and>
    (\<not> bare p \<longrightarrow> (\<exists>p''. Write (set_size n (set_length m p)) = Some (bs, p'')))"
  using Write_again [OF assms] packet_bytes_lengths [of p n m] assms by auto

theorem Write_repeatable_witness:
  "\<exists>bs p'. Write (PublishP sample_publish) = Some (bs, p') \<and> Write p' = Some (bs, p') \<and>
    (\<exists>p''. Write (set_size 3 (set_length 4 (PublishP sample_publish))) = Some (bs, p''))"
proof -
  have "Write (PublishP sample_publish) =
      Some (publish_frame, PublishP (sample_publish\<lparr>RemainingLength := 9, PacketSize := 11\<rparr>))"
    by code_simp
  with Write_repeatable [OF this, of 3 4] show ?thesis by auto
qed

text \<open>
  A string of 65536 bytes or more does not survive the wire: its length is written modulo
  65536, so the reader gets its first \<open>length s mod 65536\<close> bytes and finds the others in front
  of the next field.
\<close>

theorem oversized_string_truncated:
  assumes "length s \<ge> 65536"
  shows "decodeString (encodeString s @ rest) =
    (take (length s mod 65536) s, None,
     bytes_of_string (drop (length s mod 65536) s) @ rest)"
proof -
  let ?k = "length s mod 65536" and ?v = "word_of_nat (length s) :: uint16"
  have v: "?v = word_of_nat (length (take ?k s))"
    using assms by (simp add: min_absorb2 word_unat_eq_iff unsigned_of_nat take_bit_eq_mod)
  have "encodeString s @ rest =
      encodeString (take ?k s) @ bytes_of_string (drop ?k s) @ rest"
    unfolding encodeString_def encodeBytes_def length_bytes_of_string v
    by (simp add: bytes_of_string_def flip: append_assoc) (simp flip: map_append)
  then show ?thesis
    using assms by (simp only: string_format.dec_enc) (simp add: decodeString_encode min.strict_coboundedI2)
qed

theorem oversized_string_truncated_witness:
  "decodeString (encodeString (replicate 65537 CHR ''x'') @ [1]) =
    (take (length (replicate 65537 CHR ''x'') mod 65536) (replicate 65537 CHR ''x''), None,
     bytes_of_string (drop (length (replicate 65537 CHR ''x'') mod 65536) (replicate 65537 CHR ''x'')) @ [1])"
  by (rule oversized_string_truncated) simp

end
