(* ===== verification/Go_Strings.thy ===== *)
theory Go_Strings
  imports Prelude
begin

text \<open>
  The functions of Go's package \<open>strings\<close> that the topic storage uses: \<open>Split\<close> on a
  one-byte separator, \<open>Contains\<close> of one byte, and \<open>TrimSpace\<close>, which strips the UTF-8
  encodings of all Unicode white space from both ends.
\<close>

section \<open>Split and Contains\<close>

fun Split :: "char \<Rightarrow> string \<Rightarrow> string list" where
  "Split sep [] = [[]]"
| "Split sep (c # s) =
     (if c = sep then [] # Split sep s
      else case Split sep s of [] \<Rightarrow> [[c]] | k # ks \<Rightarrow> (c # k) # ks)"

definition Contains :: "char \<Rightarrow> string \<Rightarrow> bool" where
  "Contains c s \<longleftrightarrow> c \<in> set s"

fun Join :: "char \<Rightarrow> string list \<Rightarrow> string" where
  "Join sep [] = []"
| "Join sep [k] = k"
| "Join sep (k # ks) = k @ sep # Join sep ks"

lemma Split_not_Nil [simp]: "Split sep s \<noteq> []"
  by (cases s) (auto split: list.split)

lemma Split_no_sep: "k \<in> set (Split sep s) \<Longrightarrow> sep \<notin> set k"
  by (induction s arbitrary: k) (auto split: list.splits if_splits)

lemma Contains_Split: "c \<noteq> sep \<Longrightarrow> Contains c s \<longleftrightarrow> (\<exists>k \<in> set (Split sep s). c \<in> set k)"
  by (induction s) (auto simp: Contains_def split: list.split)

lemma Join_Split: "Join sep (Split sep s) = s"
proof (induction s)
  case (Cons c s)
  then show ?case
    using Split_not_Nil [of sep s]
    by (cases "Split sep s"; cases "tl (Split sep s)") auto
qed simp

lemma Split_append_sep: "sep \<notin> set k \<Longrightarrow> Split sep (k @ sep # s) = k # Split sep s"
  by (induction k) auto

lemma Split_single: "sep \<notin> set k \<Longrightarrow> Split sep k = [k]"
  by (induction k) auto

lemma Split_Join:
  "ks \<noteq> [] \<Longrightarrow> \<forall>k \<in> set ks. sep \<notin> set k \<Longrightarrow> Split sep (Join sep ks) = ks"
  by (induction sep ks rule: Join.induct) (auto simp: Split_single Split_append_sep)

section \<open>TrimSpace\<close>

text \<open>
  The white space of \<open>unicode.IsSpace\<close>: tab to carriage return, space, U+0085, U+00A0,
  U+1680, U+2000 to U+200A, U+2028, U+2029, U+202F, U+205F and U+3000, as UTF-8.
\<close>

definition white_space :: "string list" where
  "white_space =
    [[CHR 0x09], [CHR 0x0A], [CHR 0x0B], [CHR 0x0C], [CHR 0x0D], [CHR 0x20],
     [CHR 0xC2, CHR 0x85], [CHR 0xC2, CHR 0xA0], [CHR 0xE1, CHR 0x9A, CHR 0x80],
     [CHR 0xE2, CHR 0x80, CHR 0x80], [CHR 0xE2, CHR 0x80, CHR 0x81],
     [CHR 0xE2, CHR 0x80, CHR 0x82], [CHR 0xE2, CHR 0x80, CHR 0x83],
     [CHR 0xE2, CHR 0x80, CHR 0x84], [CHR 0xE2, CHR 0x80, CHR 0x85],
     [CHR 0xE2, CHR 0x80, CHR 0x86], [CHR 0xE2, CHR 0x80, CHR 0x87],
     [CHR 0xE2, CHR 0x80, CHR 0x88], [CHR 0xE2, CHR 0x80, CHR 0x89],
     [CHR 0xE2, CHR 0x80, CHR 0x8A], [CHR 0xE2, CHR 0x80, CHR 0xA8],
     [CHR 0xE2, CHR 0x80, CHR 0xA9], [CHR 0xE2, CHR 0x80, CHR 0xAF],
     [CHR 0xE2, CHR 0x81, CHR 0x9F], [CHR 0xE3, CHR 0x80, CHR 0x80]]"

definition strip_prefix :: "string \<Rightarrow> string \<Rightarrow> string option" where
  "strip_prefix p s = (if p \<noteq> [] \<and> take (length p) s = p then Some (drop (length p) s) else None)"

function trim_left :: "string list \<Rightarrow> string \<Rightarrow> string" where
  "trim_left ps s =
     (case List.map_filter (\<lambda>p. strip_prefix p s) ps of [] \<Rightarrow> s | s' # _ \<Rightarrow> trim_left ps s')"
  by pat_completeness auto
termination
proof (relation "measure (\<lambda>(ps, s). length s)")
  fix ps s s' more
  assume "List.map_filter (\<lambda>p. strip_prefix p s) ps = s' # more"
  then have "s' \<in> set (List.map_filter (\<lambda>p. strip_prefix p s) ps)" by simp
  then have "length s' < length s"
    by (cases s) (auto simp: map_filter_def strip_prefix_def split: if_splits)
  then show "((ps, s'), ps, s) \<in> measure (\<lambda>(ps, s). length s)" by simp
qed auto

declare trim_left.simps [simp del]

definition TrimSpace :: "string \<Rightarrow> string" where
  "TrimSpace s = rev (trim_left (map rev white_space) (rev (trim_left white_space s)))"

lemma trim_left_Nil [simp]: "trim_left ps [] = []"
proof -
  have "List.map_filter (\<lambda>p. strip_prefix p []) ps = []"
    by (auto simp: map_filter_def strip_prefix_def filter_empty_conv)
  then show ?thesis by (simp add: trim_left.simps)
qed

lemma TrimSpace_Nil [simp]: "TrimSpace [] = []"
  by (simp add: TrimSpace_def)

lemma trim_left_stop: "(\<And>p. p \<in> set ps \<Longrightarrow> strip_prefix p s = None) \<Longrightarrow> trim_left ps s = s"
proof -
  assume "\<And>p. p \<in> set ps \<Longrightarrow> strip_prefix p s = None"
  then have "List.map_filter (\<lambda>p. strip_prefix p s) ps = []"
    by (auto simp: map_filter_def filter_empty_conv)
  then show ?thesis by (simp add: trim_left.simps)
qed

text \<open>A string of printable ASCII without a space is not changed.\<close>

definition graphic :: "char \<Rightarrow> bool" where
  "graphic c \<longleftrightarrow> 32 < (of_char c :: nat) \<and> (of_char c :: nat) < 127"

lemma white_space_ends:
  "p \<in> set white_space \<Longrightarrow> p \<noteq> [] \<and> \<not> graphic (hd p) \<and> \<not> graphic (last p)"
  unfolding white_space_def by (auto simp: graphic_def)

lemma strip_graphic:
  "p \<noteq> [] \<Longrightarrow> \<not> graphic (hd p) \<Longrightarrow> \<forall>c \<in> set s. graphic c \<Longrightarrow> strip_prefix p s = None"
  by (cases p; cases s) (auto simp: strip_prefix_def)

lemma TrimSpace_graphic: "\<forall>c \<in> set s. graphic c \<Longrightarrow> TrimSpace s = s"
proof -
  assume g: "\<forall>c \<in> set s. graphic c"
  have "trim_left white_space s = s"
    using white_space_ends g by (intro trim_left_stop strip_graphic) auto
  moreover have "trim_left (map rev white_space) (rev s) = rev s"
    using white_space_ends g by (intro trim_left_stop strip_graphic) (auto simp: hd_rev)
  ultimately show ?thesis by (simp add: TrimSpace_def)
qed

end
