(* ===== verification/Topic_Leaf.thy ===== *)
theory Topic_Leaf
  imports Go_Strings
begin

text \<open>
  \<open>trie/leaf.go\<close>: what is stored under one topic, its subscribers by identity and its
  retained packet. The types \<open>'c\<close> of subscribers and \<open>'p\<close> of retained packets are open, as
  \<open>interface{}\<close> is in the code. The back pointer \<open>parent\<close> of a leaf is never read and is
  left out.
\<close>

record ('c, 'p) Leaf =
  subscribers :: "(string \<times> 'c) list"
  retain :: "'p option"

definition NewLeaf :: "('c, 'p) Leaf" where
  "NewLeaf = \<lparr>subscribers = [], retain = None\<rparr>"

definition GetRetain :: "('c, 'p) Leaf \<Rightarrow> 'p option" where
  "GetRetain l = retain l"

definition SetRetain :: "'p option \<Rightarrow> ('c, 'p) Leaf \<Rightarrow> ('c, 'p) Leaf \<times> bool" where
  "SetRetain packet l = (let ret = retain l \<noteq> None in (l\<lparr>retain := packet\<rparr>, ret))"

definition Leaf_RemoveRetain :: "('c, 'p) Leaf \<Rightarrow> ('c, 'p) Leaf \<times> bool" where
  "Leaf_RemoveRetain l = (if retain l = None then (l, False) else (l\<lparr>retain := None\<rparr>, True))"

definition AddSubscriber :: "string \<Rightarrow> 'c \<Rightarrow> ('c, 'p) Leaf \<Rightarrow> ('c, 'p) Leaf \<times> bool" where
  "AddSubscriber identity subscriber l =
     (let exist = map_of (subscribers l) identity \<noteq> None
      in (l\<lparr>subscribers := go_store identity subscriber (subscribers l)\<rparr>, exist))"

definition RemoveSubscriber :: "string \<Rightarrow> ('c, 'p) Leaf \<Rightarrow> ('c, 'p) Leaf" where
  "RemoveSubscriber identity l = l\<lparr>subscribers := go_delete identity (subscribers l)\<rparr>"

definition Leaf_Subscribers :: "('c, 'p) Leaf \<Rightarrow> (string \<times> 'c) list" where
  "Leaf_Subscribers l = subscribers l"

named_theorems leaf_defs \<open>the definitions of the operations on a leaf\<close>

lemmas [leaf_defs] = NewLeaf_def GetRetain_def SetRetain_def Leaf_RemoveRetain_def
  AddSubscriber_def RemoveSubscriber_def Leaf_Subscribers_def

definition wf_leaf :: "('c, 'p) Leaf \<Rightarrow> bool" where
  "wf_leaf l \<longleftrightarrow> go_map (subscribers l)"

lemma wf_leaf_ops [simp, intro]:
  "wf_leaf NewLeaf"
  "wf_leaf l \<Longrightarrow> wf_leaf (fst (SetRetain r l))"
  "wf_leaf l \<Longrightarrow> wf_leaf (fst (Leaf_RemoveRetain l))"
  "wf_leaf l \<Longrightarrow> wf_leaf (fst (AddSubscriber i s l))"
  "wf_leaf l \<Longrightarrow> wf_leaf (RemoveSubscriber i l)"
  by (auto simp: wf_leaf_def leaf_defs Let_def)

end
