(* ===== verification/Topic_Branch.thy ===== *)
theory Topic_Branch
  imports Topic_Leaf
begin

text \<open>
  \<open>trie/branch.go\<close>: a node of the topic tree with its name, its leaves by topic and its
  branches by name. A node is reached from its parent only, so the tree of pointers is a
  datatype value; what a method does to \<open>b.parent\<close> (the second leaf of a \<open>#\<close> filter, the
  clean-up of an empty branch) is done by the caller, which holds the parent.

  The code passes all levels of a topic and an index; it reads only \<open>keys[index]\<close> and
  compares \<open>index+1\<close> with the number of levels. The model passes the levels from the index
  on, so that \<open>keys[index]\<close> is the head and an index out of range is the empty list; reading
  there panics in Go, which is the value \<open>None\<close> here.
\<close>

datatype ('c, 'p) Branch =
  Branch (name: string) (leaves: "(string \<times> ('c, 'p) Leaf) list")
    (branches: "(string \<times> ('c, 'p) Branch) list")

definition NewBranch :: "('c, 'p) Branch" where
  "NewBranch = Branch [] [] []"

fun SetName :: "string \<Rightarrow> ('c, 'p) Branch \<Rightarrow> ('c, 'p) Branch" where
  "SetName n (Branch m ls bs) = Branch n ls bs"

fun set_leaves :: "(string \<times> ('c, 'p) Leaf) list \<Rightarrow> ('c, 'p) Branch \<Rightarrow> ('c, 'p) Branch" where
  "set_leaves ls (Branch n _ bs) = Branch n ls bs"

fun set_branches :: "(string \<times> ('c, 'p) Branch) list \<Rightarrow> ('c, 'p) Branch \<Rightarrow> ('c, 'p) Branch" where
  "set_branches bs (Branch n ls _) = Branch n ls bs"

lemma branch_fields [simp]:
  "name (set_leaves ls b) = name b" "leaves (set_leaves ls b) = ls"
  "branches (set_leaves ls b) = branches b"
  "name (set_branches bs b) = name b" "leaves (set_branches bs b) = leaves b"
  "branches (set_branches bs b) = bs"
  "name (SetName n b) = n" "leaves (SetName n b) = leaves b" "branches (SetName n b) = branches b"
  by (cases b; simp)+

section \<open>Subscriptions\<close>

text \<open>\<open>AddLeaf\<close> also serves \<open>AddRetain\<close>, which passes a nil subscriber.\<close>

definition AddLeaf ::
  "string \<Rightarrow> string \<Rightarrow> 'c option \<Rightarrow> ('c, 'p) Branch \<Rightarrow> ('c, 'p) Branch \<times> ('c, 'p) Leaf \<times> bool" where
  "AddLeaf topic identity subscriber b =
     (let leaf = (case map_of (leaves b) topic of None \<Rightarrow> NewLeaf | Some l \<Rightarrow> l);
          (leaf, exist) = (case subscriber of None \<Rightarrow> (leaf, False)
                           | Some s \<Rightarrow> AddSubscriber identity s leaf)
      in (set_leaves (go_store topic leaf (leaves b)) b, leaf, exist))"

text \<open>The branch under a key, a new one (with that name) where there is none.\<close>

definition get_branch :: "string \<Rightarrow> ('c, 'p) Branch \<Rightarrow> ('c, 'p) Branch" where
  "get_branch key b =
     (case map_of (branches b) key of Some c \<Rightarrow> c | None \<Rightarrow> SetName key NewBranch)"

definition put_branch :: "string \<Rightarrow> ('c, 'p) Branch \<Rightarrow> ('c, 'p) Branch \<Rightarrow> ('c, 'p) Branch" where
  "put_branch key c b = set_branches (go_store key c (branches b)) b"

fun AddBranch ::
  "string \<Rightarrow> string \<Rightarrow> 'c \<Rightarrow> string list \<Rightarrow> ('c, 'p) Branch \<Rightarrow> (('c, 'p) Branch \<times> bool) option" where
  "AddBranch topic identity subscriber [] b = None"
| "AddBranch topic identity subscriber (k # ks) b =
     (let key = TrimSpace k; branch = get_branch key b in
      if name branch = ''#'' then
        let (branch, _, exist) = AddLeaf topic identity (Some subscriber) branch;
            (b, _, _) = AddLeaf topic identity (Some subscriber) (put_branch key branch b)
        in Some (b, exist)
      else if ks \<noteq> [] then
        do { (branch, exist) \<leftarrow> AddBranch topic identity subscriber ks branch;
             Some (put_branch key branch b, exist) }
      else
        let (branch, _, exist) = AddLeaf topic identity (Some subscriber) branch
        in Some (put_branch key branch b, exist))"

definition RemoveLeaf :: "string \<Rightarrow> string \<Rightarrow> ('c, 'p) Branch \<Rightarrow> ('c, 'p) Branch \<times> bool" where
  "RemoveLeaf topic identity b =
     (case map_of (leaves b) topic of
        None \<Rightarrow> (b, False)
      | Some leaf \<Rightarrow>
         (let leaf = RemoveSubscriber identity leaf in
          (if Leaf_Subscribers leaf = [] \<and> GetRetain leaf = None
           then set_leaves (go_delete topic (leaves b)) b
           else set_leaves (go_store topic leaf (leaves b)) b, True)))"

text \<open>\<open>CheckClean\<close> of a branch, on the branches of its parent.\<close>

definition CheckClean ::
  "('c, 'p) Branch \<Rightarrow> (string \<times> ('c, 'p) Branch) list \<Rightarrow> (string \<times> ('c, 'p) Branch) list" where
  "CheckClean b siblings =
     (if leaves b = [] \<and> branches b = [] then go_delete (name b) siblings else siblings)"

text \<open>
  The loop over the branches stops at the first one that reports the leaf; \<open>scan_branches\<close>
  returns its key and its new value. A branch that reports nothing is unchanged.
\<close>

fun ScanRemoveLeaf ::
  "string \<Rightarrow> string \<Rightarrow> string list \<Rightarrow> ('c, 'p) Branch \<Rightarrow> (('c, 'p) Branch \<times> bool) option"
and scan_branches ::
  "string \<Rightarrow> string \<Rightarrow> string list \<Rightarrow> (string \<times> ('c, 'p) Branch) list \<Rightarrow>
     (string \<times> ('c, 'p) Branch) option option" where
  "ScanRemoveLeaf identity topic keys (Branch n ls bs) =
     (if n = ''#'' then Some (RemoveLeaf topic identity (Branch n ls bs))
      else case keys of
        [] \<Rightarrow> None
      | k # ks \<Rightarrow>
          if ks = [] \<and> n = k then Some (RemoveLeaf topic identity (Branch n ls bs))
          else if n = k then
            (case scan_branches identity topic ks bs of
               None \<Rightarrow> None
             | Some None \<Rightarrow> Some (Branch n ls bs, False)
             | Some (Some (key, c)) \<Rightarrow> Some (Branch n ls (CheckClean c (go_store key c bs)), True))
          else Some (Branch n ls bs, False))"
| "scan_branches identity topic keys [] = Some None"
| "scan_branches identity topic keys ((key, b) # bs) =
     (case ScanRemoveLeaf identity topic keys b of
        None \<Rightarrow> None
      | Some (b', True) \<Rightarrow> Some (Some (key, b'))
      | Some (_, False) \<Rightarrow> scan_branches identity topic keys bs)"

text \<open>
  \<open>SearchLeaves\<close> returns a map from topic to leaf: the leaves of the matching branches, a
  later entry replacing an earlier one of the same topic. With the index out of range a
  branch \<open>+\<close> does not look at the level and goes on to its branches.
\<close>

fun SearchLeaves ::
  "string list \<Rightarrow> ('c, 'p) Branch \<Rightarrow> (string \<times> ('c, 'p) Leaf) list option"
and search_branches ::
  "string list \<Rightarrow> (string \<times> ('c, 'p) Branch) list \<Rightarrow> (string \<times> ('c, 'p) Leaf) list \<Rightarrow>
     (string \<times> ('c, 'p) Leaf) list option" where
  "SearchLeaves keys (Branch n ls bs) =
     (if n = ''#'' then Some ls
      else case keys of
        [] \<Rightarrow> if n = ''+'' then search_branches [] bs [] else None
      | k # ks \<Rightarrow>
          if ks = [] \<and> (n = ''+'' \<or> n = k) then Some ls
          else if n = ''+'' \<or> n = k then search_branches ks bs []
          else Some [])"
| "search_branches keys [] acc = Some acc"
| "search_branches keys ((_, b) # bs) acc =
     (case SearchLeaves keys b of
        None \<Rightarrow> None
      | Some subLeaves \<Rightarrow>
          search_branches keys bs (fold (\<lambda>(k, v). go_store k v) subLeaves acc))"

section \<open>Retained packets\<close>

fun AddRetain ::
  "string \<Rightarrow> string list \<Rightarrow> 'p option \<Rightarrow> ('c, 'p) Branch \<Rightarrow> (('c, 'p) Branch \<times> bool) option" where
  "AddRetain topic [] packet b = None"
| "AddRetain topic (k # ks) packet b =
     (let key = TrimSpace k; branch = get_branch key b in
      if ks \<noteq> [] then
        do { (branch, exist) \<leftarrow> AddRetain topic ks packet branch;
             Some (put_branch key branch b, exist) }
      else
        let (branch, leaf, _) = AddLeaf topic [] None branch;
            (leaf, exist) = SetRetain packet leaf;
            branch = set_leaves (go_store topic leaf (leaves branch)) branch
        in Some (put_branch key branch b, exist))"

text \<open>The first leaf that holds a retained packet loses it.\<close>

fun remove_first_retain ::
  "(string \<times> ('c, 'p) Leaf) list \<Rightarrow> (string \<times> ('c, 'p) Leaf) list \<times> bool" where
  "remove_first_retain [] = ([], False)"
| "remove_first_retain ((k, l) # ls) =
     (case Leaf_RemoveRetain l of
        (l', True) \<Rightarrow> ((k, l') # ls, True)
      | (_, False) \<Rightarrow> (case remove_first_retain ls of (ls', e) \<Rightarrow> ((k, l) # ls', e)))"

fun RemoveRetain ::
  "string list \<Rightarrow> ('c, 'p) Branch \<Rightarrow> (('c, 'p) Branch \<times> bool) option"
and remove_retain_branches ::
  "string list \<Rightarrow> (string \<times> ('c, 'p) Branch) list \<Rightarrow>
     (string \<times> ('c, 'p) Branch) option option" where
  "RemoveRetain [] (Branch n ls bs) = None"
| "RemoveRetain (k # ks) (Branch n ls bs) =
     (if ks = [] \<and> n = k then
        (case remove_first_retain ls of (ls', e) \<Rightarrow> Some (Branch n ls' bs, e))
      else if n = k then
        (case remove_retain_branches ks bs of
           None \<Rightarrow> None
         | Some None \<Rightarrow> Some (Branch n ls bs, False)
         | Some (Some (key, c)) \<Rightarrow> Some (Branch n ls (go_store key c bs), True))
      else Some (Branch n ls bs, False))"
| "remove_retain_branches keys [] = Some None"
| "remove_retain_branches keys ((key, b) # bs) =
     (case RemoveRetain keys b of
        None \<Rightarrow> None
      | Some (b', True) \<Rightarrow> Some (Some (key, b'))
      | Some (_, False) \<Rightarrow> remove_retain_branches keys bs)"

definition leaf_retains :: "(string \<times> ('c, 'p) Leaf) list \<Rightarrow> 'p list" where
  "leaf_retains ls = List.map_filter (\<lambda>(k, l). GetRetain l) ls"

fun GetRestRetain :: "('c, 'p) Branch \<Rightarrow> 'p list" where
  "GetRestRetain (Branch n ls bs) =
     leaf_retains ls @ concat (map (\<lambda>(k, b). GetRestRetain b) bs)"

fun SearchRetain :: "string list \<Rightarrow> ('c, 'p) Branch \<Rightarrow> 'p list option"
and search_retain_branches ::
  "string list \<Rightarrow> (string \<times> ('c, 'p) Branch) list \<Rightarrow> 'p list option" where
  "SearchRetain [] (Branch n ls bs) = None"
| "SearchRetain (k # ks) (Branch n ls bs) =
     (if k = ''#'' then Some (GetRestRetain (Branch n ls bs))
      else if ks = [] \<and> (k = ''+'' \<or> n = k) then Some (leaf_retains ls)
      else if k = ''+'' \<or> n = k then search_retain_branches ks bs
      else Some [])"
| "search_retain_branches keys [] = Some []"
| "search_retain_branches keys ((_, b) # bs) =
     (case SearchRetain keys b of
        None \<Rightarrow> None
      | Some retains \<Rightarrow>
          (case search_retain_branches keys bs of
             None \<Rightarrow> None
           | Some later \<Rightarrow> Some (retains @ later)))"

end
