(* ===== verification/Topic_Trie.thy ===== *)
theory Topic_Trie
  imports Topic_Branch
begin

text \<open>
  \<open>trie/trie.go\<close>, the topic storage of the broker: the tree of the wildcard filters and of
  the retained packets under \<open>root\<close>, and \<open>foliage\<close>, the leaves of the topics without
  wildcards by their full name. Each operation is one step here; \<open>Storage_Calls\<close> has the
  accesses it makes to the tree, which the mutex protects, and to the synchronised map one by one.
\<close>

record ('c, 'p) Trie =
  root :: "('c, 'p) Branch"
  foliage :: "(string \<times> ('c, 'p) Leaf) list"

definition NewTrie :: "('c, 'p) Trie" where
  "NewTrie = \<lparr>root = SetName ''root'' NewBranch, foliage = []\<rparr>"

text \<open>The test for a wildcard and the levels of a topic, the first one dropped if it is blank.\<close>

definition wildcard :: "string \<Rightarrow> bool" where
  "wildcard topic \<longleftrightarrow> Contains CHR ''#'' topic \<or> Contains CHR ''+'' topic"

definition levels :: "string \<Rightarrow> string list" where
  "levels topic =
     (let keys = Split CHR ''/'' topic;
          index = (if TrimSpace (keys ! 0) = [] then 1 else 0)
      in drop index keys)"

definition Trie_Subscribe ::
  "string \<Rightarrow> string \<Rightarrow> 'c \<Rightarrow> ('c, 'p) Trie \<Rightarrow> (('c, 'p) Trie \<times> bool) option" where
  "Trie_Subscribe topic identity subscriber t =
     (let leaf = (case map_of (foliage t) topic of None \<Rightarrow> NewLeaf | Some l \<Rightarrow> l);
          t = t\<lparr>foliage := (if map_of (foliage t) topic = None
                            then go_store topic leaf (foliage t) else foliage t)\<rparr>
      in if wildcard topic then
           do { (r, exist) \<leftarrow> AddBranch topic identity subscriber (levels topic) (root t);
                Some (t\<lparr>root := r\<rparr>, exist) }
         else
           let (leaf, exist) = AddSubscriber identity subscriber leaf
           in Some (t\<lparr>foliage := go_store topic leaf (foliage t)\<rparr>, exist))"

definition Trie_Unsubscribe ::
  "string \<Rightarrow> string \<Rightarrow> ('c, 'p) Trie \<Rightarrow> (('c, 'p) Trie \<times> bool) option" where
  "Trie_Unsubscribe topic identity t =
     (if wildcard topic then
        (case scan_branches identity topic (levels topic) (branches (root t)) of
           None \<Rightarrow> None
         | Some None \<Rightarrow> Some (t, False)
         | Some (Some (key, c)) \<Rightarrow>
             Some (t\<lparr>root := set_branches
               (CheckClean c (go_store key c (branches (root t)))) (root t)\<rparr>, True))
      else
        (case map_of (foliage t) topic of
           None \<Rightarrow> Some (t, False)
         | Some leaf \<Rightarrow>
             let leaf = RemoveSubscriber identity leaf in
             Some (t\<lparr>foliage :=
               (if Leaf_Subscribers leaf = [] \<and> GetRetain leaf = None
                then go_delete topic (foliage t) else go_store topic leaf (foliage t))\<rparr>, True)))"

text \<open>
  \<open>RangeTopics\<close> visits the foliage until the callback, which may keep a state, says stop.
\<close>

fun range_loop ::
  "(string \<Rightarrow> ('c, 'p) Leaf \<Rightarrow> 's \<Rightarrow> bool \<times> 's) \<Rightarrow> (string \<times> ('c, 'p) Leaf) list \<Rightarrow> 's \<Rightarrow> 's" where
  "range_loop f [] s = s"
| "range_loop f ((topic, leaf) # rest) s =
     (case f topic leaf s of (go, s') \<Rightarrow> if go then range_loop f rest s' else s')"

definition RangeTopics ::
  "(string \<Rightarrow> ('c, 'p) Leaf \<Rightarrow> 's \<Rightarrow> bool \<times> 's) \<Rightarrow> ('c, 'p) Trie \<Rightarrow> 's \<Rightarrow> 's" where
  "RangeTopics f t s = range_loop f (foliage t) s"

fun search_roots ::
  "string list \<Rightarrow> (string \<times> ('c, 'p) Branch) list \<Rightarrow> 'c list option" where
  "search_roots keys [] = Some []"
| "search_roots keys ((_, b) # bs) =
     do {
       found \<leftarrow> SearchLeaves keys b;
       later \<leftarrow> search_roots keys bs;
       Some (concat (map (\<lambda>(_, leaf). map snd (Leaf_Subscribers leaf)) found) @ later)
     }"

definition Trie_Subscribers :: "string \<Rightarrow> ('c, 'p) Trie \<Rightarrow> 'c list option" where
  "Trie_Subscribers topic t =
     (if wildcard topic then Some []
      else
        let exact = (case map_of (foliage t) topic of None \<Rightarrow> []
                     | Some leaf \<Rightarrow> map snd (Leaf_Subscribers leaf))
        in do { found \<leftarrow> search_roots (levels topic) (branches (root t)); Some (exact @ found) })"

definition Trie_AddRetain ::
  "string \<Rightarrow> 'p \<Rightarrow> ('c, 'p) Trie \<Rightarrow> (('c, 'p) Trie \<times> bool) option" where
  "Trie_AddRetain topic packet t =
     do { (r, exist) \<leftarrow> AddRetain topic (levels topic) (Some packet) (root t);
          Some (t\<lparr>root := r\<rparr>, exist) }"

definition Trie_RemoveRetain :: "string \<Rightarrow> ('c, 'p) Trie \<Rightarrow> (('c, 'p) Trie \<times> bool) option" where
  "Trie_RemoveRetain topic t =
     (case remove_retain_branches (levels topic) (branches (root t)) of
        None \<Rightarrow> None
      | Some None \<Rightarrow> Some (t, False)
      | Some (Some (key, c)) \<Rightarrow>
          Some (t\<lparr>root := set_branches (go_store key c (branches (root t))) (root t)\<rparr>, True))"

text \<open>The error of \<open>SearchRetain\<close> is always nil and left out.\<close>

definition Trie_SearchRetain :: "string \<Rightarrow> ('c, 'p) Trie \<Rightarrow> 'p list option" where
  "Trie_SearchRetain topic t = search_retain_branches (levels topic) (branches (root t))"

end
