(* ===== verification/Topic_Laws.thy ===== *)
theory Topic_Laws
  imports Topic_Trie
begin

text \<open>
  What the operations of the topic tree do, stated on the leaves it holds: \<open>leaf_at p f b\<close> is
  the leaf of topic \<open>f\<close> at the path \<open>p\<close> of branch names below \<open>b\<close>. Each operation is shown to
  keep the tree well formed, to return without a panic, and to change exactly the leaves it
  should.
\<close>

section \<open>Well-formed trees\<close>

fun wf_branch :: "('c, 'p) Branch \<Rightarrow> bool" where
  "wf_branch (Branch n ls bs) \<longleftrightarrow>
     go_map ls \<and> list_all (\<lambda>(k, l). wf_leaf l) ls \<and>
     go_map bs \<and> list_all (\<lambda>(k, c). name c = k \<and> wf_branch c) bs"

text \<open>The tree as a function: the leaf that holds a topic at a path of branch names.\<close>

fun leaf_at :: "string list \<Rightarrow> string \<Rightarrow> ('c, 'p) Branch \<Rightarrow> ('c, 'p) Leaf option" where
  "leaf_at [] f b = map_of (leaves b) f"
| "leaf_at (n # p) f b =
     (case map_of (branches b) n of None \<Rightarrow> None | Some c \<Rightarrow> leaf_at p f c)"

lemma go_map_list_all:
  "go_map m \<Longrightarrow> list_all P m \<longleftrightarrow> (\<forall>k v. map_of m k = Some v \<longrightarrow> P (k, v))"
  by (auto simp: list_all_iff go_map_in_set dest: map_of_SomeD)

lemma wf_branch_iff:
  "wf_branch b \<longleftrightarrow>
     go_map (leaves b) \<and> (\<forall>f l. map_of (leaves b) f = Some l \<longrightarrow> wf_leaf l) \<and>
     go_map (branches b) \<and> (\<forall>k c. map_of (branches b) k = Some c \<longrightarrow> name c = k \<and> wf_branch c)"
  by (cases b) (auto simp: go_map_list_all)

lemma wf_branchD:
  assumes "wf_branch b"
  shows "go_map (leaves b)" "go_map (branches b)"
    "map_of (leaves b) f = Some l \<Longrightarrow> wf_leaf l"
    "map_of (branches b) k = Some c \<Longrightarrow> name c = k"
    "map_of (branches b) k = Some c \<Longrightarrow> wf_branch c"
    "(k, c) \<in> set (branches b) \<Longrightarrow> map_of (branches b) k = Some c"
    "(f, l) \<in> set (leaves b) \<Longrightarrow> map_of (leaves b) f = Some l"
  using assms go_map_in_set unfolding wf_branch_iff [of b] by fastforce+

named_theorems tree_simps \<open>what the steps of an operation do to the leaves of a tree\<close>

lemma leaf_at_New [tree_simps]: "leaf_at p f (SetName k NewBranch) = None"
  by (cases p) (simp_all add: NewBranch_def)

lemma wf_New [tree_simps]: "wf_branch (SetName k NewBranch)"
  by (simp add: NewBranch_def)

lemma leaf_at_get [tree_simps]: "leaf_at p f (get_branch k b) = leaf_at (k # p) f b"
  by (simp add: get_branch_def tree_simps split: option.split)

lemma wf_get [tree_simps]:
  "wf_branch b \<Longrightarrow> wf_branch (get_branch k b)" "wf_branch b \<Longrightarrow> name (get_branch k b) = k"
  by (auto simp: get_branch_def tree_simps dest: wf_branchD split: option.split)

lemma leaf_at_put [tree_simps]:
  "leaf_at p f (put_branch k c b) =
     (case p of [] \<Rightarrow> leaf_at [] f b
      | n # q \<Rightarrow> if n = k then leaf_at q f c else leaf_at (n # q) f b)"
  by (cases p) (simp_all add: put_branch_def go_map_simps)

lemma wf_put [tree_simps]:
  "wf_branch b \<Longrightarrow> wf_branch c \<Longrightarrow> name c = k \<Longrightarrow> wf_branch (put_branch k c b)"
  unfolding put_branch_def
  by (auto simp: wf_branch_iff [of "set_branches m b" for m] go_map_simps
      dest: wf_branchD split: if_splits)

lemma name_put [simp]: "name (put_branch k c b) = name b"
  by (simp add: put_branch_def)

definition default_leaf :: "('c, 'p) Leaf option \<Rightarrow> ('c, 'p) Leaf" where
  "default_leaf l = (case l of None \<Rightarrow> NewLeaf | Some l \<Rightarrow> l)"

definition sub_leaf :: "string \<Rightarrow> 'c \<Rightarrow> ('c, 'p) Leaf option \<Rightarrow> ('c, 'p) Leaf" where
  "sub_leaf identity c l = fst (AddSubscriber identity c (default_leaf l))"

definition subscribed :: "string \<Rightarrow> ('c, 'p) Leaf option \<Rightarrow> bool" where
  "subscribed identity l \<longleftrightarrow> map_of (subscribers (default_leaf l)) identity \<noteq> None"

lemma leaf_at_set_leaves [tree_simps]:
  "leaf_at p g (set_leaves (go_store f l (leaves b)) b) =
     (if p = [] \<and> g = f then Some l else leaf_at p g b)"
  "leaf_at p g (set_leaves (go_delete f (leaves b)) b) =
     (if p = [] \<and> g = f then None else leaf_at p g b)"
  by (cases p; simp add: go_map_simps)+

lemma wf_default [tree_simps]: "wf_branch b \<Longrightarrow> wf_leaf (default_leaf (leaf_at p f b))"
proof (induction p arbitrary: b)
  case Nil
  then show ?case by (auto simp: default_leaf_def dest: wf_branchD split: option.split)
next
  case (Cons n p)
  then show ?case by (auto dest: wf_branchD split: option.split) (simp add: default_leaf_def)
qed

lemma wf_sub_leaf [tree_simps]: "wf_branch b \<Longrightarrow> wf_leaf (sub_leaf i c (leaf_at p f b))"
  by (simp add: sub_leaf_def wf_default)

lemma wf_set_leaves [tree_simps]:
  "wf_branch b \<Longrightarrow> wf_leaf l \<Longrightarrow> wf_branch (set_leaves (go_store f l (leaves b)) b)"
  "wf_branch b \<Longrightarrow> wf_branch (set_leaves (go_delete f (leaves b)) b)"
  by (auto simp: wf_branch_iff [of "set_leaves m b" for m] go_map_simps dest: wf_branchD split: if_splits)

text \<open>The node after \<open>AddLeaf\<close> with a subscriber.\<close>

definition add_sub :: "string \<Rightarrow> string \<Rightarrow> 'c \<Rightarrow> ('c, 'p) Branch \<Rightarrow> ('c, 'p) Branch" where
  "add_sub f identity c b =
     set_leaves (go_store f (sub_leaf identity c (map_of (leaves b) f)) (leaves b)) b"

lemma AddLeaf_Some [tree_simps]:
  "AddLeaf f identity (Some c) b =
     (add_sub f identity c b, sub_leaf identity c (leaf_at [] f b),
      subscribed identity (leaf_at [] f b))"
  by (simp add: AddLeaf_def add_sub_def sub_leaf_def subscribed_def default_leaf_def
      AddSubscriber_def Let_def)

lemma add_sub_effect [tree_simps]:
  "leaf_at p g (add_sub f i c b) =
     (if p = [] \<and> g = f then Some (sub_leaf i c (leaf_at p f b)) else leaf_at p g b)"
  "wf_branch b \<Longrightarrow> wf_branch (add_sub f i c b)"
  "name (add_sub f i c b) = name b"
  using wf_sub_leaf [of b i c "[]" f]
  by (auto simp: add_sub_def leaf_at_set_leaves wf_set_leaves)

section \<open>Where a filter is stored\<close>

text \<open>The path of a filter ends at its first level \<open>#\<close>; then the parent holds it as well.\<close>

fun sub_path :: "string list \<Rightarrow> string list" where
  "sub_path [] = []"
| "sub_path (k # ks) =
     (if TrimSpace k = ''#'' then [''#''] else TrimSpace k # sub_path ks)"

definition sub_places :: "string list \<Rightarrow> string list set" where
  "sub_places keys =
     insert (sub_path keys)
       (if sub_path keys \<noteq> [] \<and> last (sub_path keys) = ''#'' then {butlast (sub_path keys)} else {})"

lemma sub_places_hash: "TrimSpace k = ''#'' \<Longrightarrow> sub_places (k # ks) = {[''#''], []}"
  by (simp add: sub_places_def)

lemma sub_places_Cons:
  "TrimSpace k \<noteq> ''#'' \<Longrightarrow> ks \<noteq> [] \<Longrightarrow> sub_places (k # ks) = (#) (TrimSpace k) ` sub_places ks"
  by (cases ks) (auto simp: sub_places_def)

lemma sub_places_one: "TrimSpace k \<noteq> ''#'' \<Longrightarrow> sub_places [k] = {[TrimSpace k]}"
  by (simp add: sub_places_def)

lemma AddBranch_effect:
  assumes "wf_branch b" "keys \<noteq> []"
  shows "\<exists>b'. AddBranch f i c keys b = Some (b', subscribed i (leaf_at (sub_path keys) f b)) \<and>
    wf_branch b' \<and> name b' = name b \<and>
    (\<forall>p g. leaf_at p g b' = (if g = f \<and> p \<in> sub_places keys
        then Some (sub_leaf i c (leaf_at p f b)) else leaf_at p g b))"
  using assms
proof (induction f i c keys b rule: AddBranch.induct)
  case (2 f i c k ks b)
  let ?k = "TrimSpace k"
  note wf = wf_get [OF 2(2)]
  consider "?k = ''#''" | "?k \<noteq> ''#''" "ks = []" | "?k \<noteq> ''#''" "ks \<noteq> []" by blast
  then show ?case
  proof cases
    case 1
    then show ?thesis using 2 wf
      by (auto simp: Let_def tree_simps sub_places_hash split: list.splits)
  next
    case 2
    then show ?thesis using "2.prems" wf
      by (auto simp: Let_def tree_simps sub_places_one split: list.splits)
  next
    case 3
    with "2.IH" [OF refl refl] wf obtain b' where
      "AddBranch f i c ks (get_branch ?k b) =
        Some (b', subscribed i (leaf_at (sub_path ks) f (get_branch ?k b)))"
      "wf_branch b'" "name b' = ?k" and
      l: "\<And>p g. leaf_at p g b' = (if g = f \<and> p \<in> sub_places ks
        then Some (sub_leaf i c (leaf_at p f (get_branch ?k b))) else leaf_at p g (get_branch ?k b))"
      by auto
    with 3 "2.prems" wf show ?thesis
      by (auto simp: Let_def tree_simps sub_places_Cons l image_iff split: list.splits)
  qed
qed simp

section \<open>Retained packets\<close>

definition ret_leaf :: "'p option \<Rightarrow> ('c, 'p) Leaf option \<Rightarrow> ('c, 'p) Leaf" where
  "ret_leaf packet l = (default_leaf l)\<lparr>retain := packet\<rparr>"

definition retained :: "('c, 'p) Leaf option \<Rightarrow> bool" where
  "retained l \<longleftrightarrow> retain (default_leaf l) \<noteq> None"

definition add_ret :: "string \<Rightarrow> 'p option \<Rightarrow> ('c, 'p) Branch \<Rightarrow> ('c, 'p) Branch" where
  "add_ret f packet b =
     set_leaves (go_store f (ret_leaf packet (map_of (leaves b) f)) (leaves b)) b"

lemma add_ret_effect [tree_simps]:
  "leaf_at p g (add_ret f r b) =
     (if p = [] \<and> g = f then Some (ret_leaf r (leaf_at p f b)) else leaf_at p g b)"
  "wf_branch b \<Longrightarrow> wf_branch (add_ret f r b)"
  "name (add_ret f r b) = name b"
  using wf_default [of b "[]" f]
  by (auto simp: add_ret_def leaf_at_set_leaves ret_leaf_def wf_leaf_def intro!: wf_set_leaves)

lemma AddRetain_one:
  "AddRetain f [k] r b =
     Some (put_branch (TrimSpace k) (add_ret f r (get_branch (TrimSpace k) b)) b,
           retained (leaf_at [TrimSpace k] f b))"
proof -
  have "go_store k v (go_store k w m) = go_store k v m" for k v w and m :: "('a \<times> 'b) list"
    by (induction m) auto
  moreover have "set_leaves m (set_leaves m' c) = set_leaves m c" for m m' and c :: "('a, 'b) Branch"
    by (cases c) simp
  ultimately show ?thesis
    by (simp add: Let_def AddLeaf_def SetRetain_def add_ret_def ret_leaf_def retained_def default_leaf_def
      leaf_at_get [of "[]", simplified] split: option.split)
qed

lemma AddRetain_effect:
  assumes "wf_branch b" "keys \<noteq> []"
  shows "\<exists>b'. AddRetain f keys r b = Some (b', retained (leaf_at (map TrimSpace keys) f b)) \<and>
    wf_branch b' \<and> name b' = name b \<and>
    (\<forall>p g. leaf_at p g b' = (if g = f \<and> p = map TrimSpace keys
        then Some (ret_leaf r (leaf_at p f b)) else leaf_at p g b))"
  using assms
proof (induction f keys r b rule: AddRetain.induct)
  case (2 f k ks r b)
  let ?k = "TrimSpace k"
  note wf = wf_get [OF 2(2)]
  show ?case
  proof (cases "ks = []")
    case True
    show ?thesis
      unfolding True AddRetain_one using 2 wf
      by (auto simp: tree_simps simp del: leaf_at.simps split: list.splits)
  next
    case False
    with "2.IH" [OF refl refl] wf obtain b' where
      "AddRetain f ks r (get_branch ?k b) =
        Some (b', retained (leaf_at (map TrimSpace ks) f (get_branch ?k b)))"
      "wf_branch b'" "name b' = ?k" and
      l: "\<And>p g. leaf_at p g b' = (if g = f \<and> p = map TrimSpace ks
        then Some (ret_leaf r (leaf_at p f (get_branch ?k b))) else leaf_at p g (get_branch ?k b))"
      by auto
    with False "2.prems" wf show ?thesis
      by (auto simp: Let_def tree_simps l split: list.splits)
  qed
qed simp


section \<open>Unsubscribing\<close>

text \<open>The paths below a branch at which \<open>ScanRemoveLeaf\<close> looks, its own name in front.\<close>

fun unsub_match :: "string list \<Rightarrow> string list \<Rightarrow> bool" where
  "unsub_match [] keys = False"
| "unsub_match (n # p) keys =
     (if n = ''#'' then p = []
      else case keys of [] \<Rightarrow> False
           | k # ks \<Rightarrow> n = k \<and> (if ks = [] then p = [] else unsub_match p ks))"

definition rem_leaf :: "string \<Rightarrow> ('c, 'p) Leaf \<Rightarrow> ('c, 'p) Leaf option" where
  "rem_leaf i l =
     (let l' = RemoveSubscriber i l in
      if subscribers l' = [] \<and> retain l' = None then None else Some l')"

text \<open>\<open>b'\<close> is \<open>b\<close> without the subscriber \<open>i\<close> of topic \<open>f\<close> at \<open>p\<close>.\<close>

definition removed ::
  "string \<Rightarrow> string \<Rightarrow> string list \<Rightarrow> ('c, 'p) Branch \<Rightarrow> ('c, 'p) Branch \<Rightarrow> bool" where
  "removed i f p b b' \<longleftrightarrow>
     wf_branch b' \<and> name b' = name b \<and>
     (\<exists>l. leaf_at p f b = Some l \<and>
       (\<forall>q g. leaf_at q g b' = (if q = p \<and> g = f then rem_leaf i l else leaf_at q g b)))"

lemma RemoveLeaf_effect:
  assumes "wf_branch b"
  shows "(\<exists>b'. RemoveLeaf f i b = (b', True) \<and> removed i f [] b b') \<or>
    RemoveLeaf f i b = (b, False) \<and> leaf_at [] f b = None"
proof (cases "map_of (leaves b) f")
  case None
  then show ?thesis by (simp add: RemoveLeaf_def)
next
  case (Some l)
  then have "wf_leaf l" using assms by (auto dest: wf_branchD)
  with Some assms show ?thesis
    by (auto simp: RemoveLeaf_def removed_def rem_leaf_def Let_def leaf_defs(7) leaf_defs(2) tree_simps
      intro!: wf_set_leaves)
qed

lemma empty_branch: "leaves b = [] \<Longrightarrow> branches b = [] \<Longrightarrow> leaf_at p f b = None"
  by (cases p) simp_all

text \<open>A child that changed and was cleaned away if nothing was left of it.\<close>

lemma removed_child:
  assumes "wf_branch b" "map_of (branches b) k = Some c" "removed i f p c c'"
  shows "removed i f (k # p) b (set_branches (CheckClean c' (go_store k c' (branches b))) b)"
proof -
  let ?bs = "CheckClean c' (go_store k c' (branches b))" let ?b = "set_branches ?bs b"
  have k: "name c' = k" "wf_branch c'"
    using assms by (auto simp: removed_def dest: wf_branchD)
  have at: "leaf_at q g ?b = (case q of [] \<Rightarrow> leaf_at [] g b
      | n # r \<Rightarrow> if n = k then leaf_at r g c' else leaf_at q g b)" for q g
    by (cases q) (auto simp: CheckClean_def go_map_simps empty_branch k)
  have "wf_branch ?b"
    using assms(1) k
    by (auto simp: wf_branch_iff [of "set_branches m b" for m] CheckClean_def go_map_simps dest: wf_branchD split: if_splits)
  with assms show ?thesis
    unfolding removed_def at by (auto split: list.splits)
qed

lemma ScanRemove_effect:
  fixes b :: "('c, 'p) Branch" and bs :: "(string \<times> ('c, 'p) Branch) list"
  shows "wf_branch b \<Longrightarrow> keys \<noteq> [] \<Longrightarrow>
     (\<exists>p b'. unsub_match (name b # p) keys \<and> ScanRemoveLeaf i f keys b = Some (b', True) \<and>
        removed i f p b b') \<or>
     (ScanRemoveLeaf i f keys b = Some (b, False) \<and>
        (\<forall>p. unsub_match (name b # p) keys \<longrightarrow> leaf_at p f b = None))"
  "list_all (\<lambda>(k, c). name c = k \<and> wf_branch c) bs \<Longrightarrow> keys \<noteq> [] \<Longrightarrow>
     (\<exists>k c c' p. (k, c) \<in> set bs \<and> unsub_match (k # p) keys \<and>
        scan_branches i f keys bs = Some (Some (k, c')) \<and> removed i f p c c') \<or>
     (scan_branches i f keys bs = Some None \<and>
        (\<forall>(k, c) \<in> set bs. \<forall>p. unsub_match (k # p) keys \<longrightarrow> leaf_at p f c = None))"
proof (induction i f keys b and i f keys bs rule: ScanRemoveLeaf_scan_branches.induct)
  case (1 i f keys n ls bs)
  let ?b = "Branch n ls bs"
  from 1 obtain k ks where keys: "keys = k # ks" by (cases keys) auto
  consider "n = ''#'' \<or> ks = [] \<and> n = k" | "n \<noteq> ''#''" "ks \<noteq> []" "n = k" | "n \<noteq> ''#''" "n \<noteq> k" by blast
  then show ?case
  proof cases
    case 1
    then have "ScanRemoveLeaf i f keys ?b = Some (RemoveLeaf f i ?b)"
      "unsub_match (name ?b # p) keys \<longleftrightarrow> p = []" for p
      by (auto simp: keys)
    with RemoveLeaf_effect [OF "1.prems"(1), of f i] show ?thesis by fastforce
  next
    case 2
    have m: "unsub_match (name ?b # p) keys \<longleftrightarrow> unsub_match p ks" for p
      using 2 by (simp add: keys)
    from "1.IH" [OF 2(1) keys] 2 "1.prems" have
      "(\<exists>k c c' p. (k, c) \<in> set bs \<and> unsub_match (k # p) ks \<and>
        scan_branches i f ks bs = Some (Some (k, c')) \<and> removed i f p c c') \<or>
       (scan_branches i f ks bs = Some None \<and>
        (\<forall>(k, c) \<in> set bs. \<forall>p. unsub_match (k # p) ks \<longrightarrow> leaf_at p f c = None))"
      by auto
    then show ?thesis
    proof (elim disjE exE conjE)
      fix key c c' p
      assume c: "(key, c) \<in> set bs" "unsub_match (key # p) ks"
        "scan_branches i f ks bs = Some (Some (key, c'))" "removed i f p c c'"
      then have "map_of (branches ?b) key = Some c"
        using wf_branchD(6) [OF "1.prems"(1), of key c] by simp
      from removed_child [OF "1.prems"(1) this c(4)] c 2 show ?thesis
        unfolding m by (intro disjI1 exI [of _ "key # p"]) (simp add: keys)
    next
      assume n: "scan_branches i f ks bs = Some None"
        "\<forall>(k, c) \<in> set bs. \<forall>p. unsub_match (k # p) ks \<longrightarrow> leaf_at p f c = None"
      have "leaf_at p f ?b = None" if "unsub_match p ks" for p
        using n(2) that by (cases p) (auto split: option.split dest: map_of_SomeD)
      with n(1) 2 show ?thesis unfolding m by (simp add: keys)
    qed
  next
    case 3
    then show ?thesis by (simp add: keys)
  qed
next
  case (3 i f keys key b bs)
  from "3.prems" have "wf_branch b" "name b = key" by auto
  from "3.IH"(1) [OF this(1) "3.prems"(2)] show ?case
  proof (elim disjE exE conjE)
    fix p b' assume "unsub_match (name b # p) keys" "ScanRemoveLeaf i f keys b = Some (b', True)"
      "removed i f p b b'"
    with \<open>name b = key\<close> show ?thesis
      by (intro disjI1 exI [of _ key] exI [of _ b] exI [of _ b'] exI [of _ p])
        (simp del: unsub_match.simps)
  next
    assume no: "ScanRemoveLeaf i f keys b = Some (b, False)"
      "\<forall>p. unsub_match (name b # p) keys \<longrightarrow> leaf_at p f b = None"
    have eq: "scan_branches i f keys ((key, b) # bs) = scan_branches i f keys bs"
      using no(1) by simp
    have none: "\<forall>p. unsub_match (key # p) keys \<longrightarrow> leaf_at p f b = None"
      using no(2) \<open>name b = key\<close> by simp
    have "list_all (\<lambda>(k, c). name c = k \<and> wf_branch c) bs" using "3.prems" by simp
    from "3.IH"(2) [OF no(1) refl refl this "3.prems"(2)] show ?thesis
    proof (elim disjE exE conjE)
      fix k c c' p
      assume "(k, c) \<in> set bs" "unsub_match (k # p) keys"
        "scan_branches i f keys bs = Some (Some (k, c'))" "removed i f p c c'"
      with eq show ?thesis
        by (intro disjI1 exI [of _ k] exI [of _ c] exI [of _ c'] exI [of _ p])
          (simp del: unsub_match.simps)
    next
      assume "scan_branches i f keys bs = Some None"
        "\<forall>(k, c) \<in> set bs. \<forall>p. unsub_match (k # p) keys \<longrightarrow> leaf_at p f c = None"
      with eq none show ?thesis by (intro disjI2) (simp del: unsub_match.simps)
    qed
  qed
qed auto

section \<open>Searching\<close>

text \<open>The paths whose leaves \<open>SearchLeaves\<close> returns for the levels of a topic.\<close>

fun sub_match :: "string list \<Rightarrow> string list \<Rightarrow> bool" where
  "sub_match [] keys = False"
| "sub_match (n # p) keys =
     (if n = ''#'' then p = []
      else case keys of [] \<Rightarrow> False
           | k # ks \<Rightarrow> (n = ''+'' \<or> n = k) \<and> (if ks = [] then p = [] else sub_match p ks))"

lemma map_of_fold_store:
  "go_map m \<Longrightarrow> map_of (fold (\<lambda>(k, v). go_store k v) m acc) g =
     (case map_of m g of None \<Rightarrow> map_of acc g | Some l \<Rightarrow> Some l)"
proof (induction m arbitrary: acc)
  case (Cons e m)
  obtain k v where "e = (k, v)" by force
  moreover from this Cons.prems have "map_of m k = None" by (simp add: map_of_eq_None_iff)
  ultimately show ?case
    using Cons by (cases "g = k") (auto simp: go_map_simps split: option.splits)
qed simp

lemma go_map_fold_store: "go_map acc \<Longrightarrow> go_map (fold (\<lambda>(k, v). go_store k v) m acc)"
  by (induction m arbitrary: acc) (auto simp: go_map_simps)

text \<open>
  \<open>found\<close> collects the leaves at the matching paths: every entry is one of them, and every
  topic at such a path has an entry.
\<close>

definition found ::
  "string list \<Rightarrow> ('c, 'p) Branch \<Rightarrow> (string \<times> ('c, 'p) Leaf) list \<Rightarrow> bool" where
  "found keys b m \<longleftrightarrow> go_map m \<and>
     (\<forall>g l. map_of m g = Some l \<longrightarrow> (\<exists>p. sub_match (name b # p) keys \<and> leaf_at p g b = Some l)) \<and>
     (\<forall>p g. sub_match (name b # p) keys \<and> leaf_at p g b \<noteq> None \<longrightarrow> map_of m g \<noteq> None)"

definition found_branches ::
  "string list \<Rightarrow> (string \<times> ('c, 'p) Branch) list \<Rightarrow> (string \<times> ('c, 'p) Leaf) list \<Rightarrow>
     (string \<times> ('c, 'p) Leaf) list \<Rightarrow> bool" where
  "found_branches keys bs acc m \<longleftrightarrow> (go_map acc \<longrightarrow> go_map m) \<and>
     (\<forall>g l. map_of m g = Some l \<longrightarrow> map_of acc g = Some l \<or>
        (\<exists>(k, c) \<in> set bs. \<exists>p. sub_match (k # p) keys \<and> leaf_at p g c = Some l)) \<and>
     (\<forall>g. map_of acc g \<noteq> None \<longrightarrow> map_of m g \<noteq> None) \<and>
     (\<forall>(k, c) \<in> set bs. \<forall>p g. sub_match (k # p) keys \<and> leaf_at p g c \<noteq> None \<longrightarrow> map_of m g \<noteq> None)"

lemma found_own:
  "wf_branch b \<Longrightarrow> (\<And>p. sub_match (name b # p) keys \<longleftrightarrow> p = []) \<Longrightarrow> found keys b (leaves b)"
  by (auto simp: found_def dest: wf_branchD)

lemma found_below:
  assumes "wf_branch b" "found_branches ks (branches b) [] m"
    and "\<And>p. sub_match (name b # p) keys \<longleftrightarrow> sub_match p ks"
  shows "found keys b m"
  unfolding found_def assms(3)
proof (intro conjI allI impI)
  show "go_map m" using assms(2) by (simp add: found_branches_def)
next
  fix g l assume l: "map_of m g = Some l"
  have "\<forall>g l. map_of m g = Some l \<longrightarrow> map_of [] g = Some l \<or>
      (\<exists>(k, c) \<in> set (branches b). \<exists>p. sub_match (k # p) ks \<and> leaf_at p g c = Some l)"
    using assms(2) unfolding found_branches_def by (elim conjE) assumption
  from this [rule_format, OF l]
  have "\<exists>(k, c) \<in> set (branches b). \<exists>p. sub_match (k # p) ks \<and> leaf_at p g c = Some l"
    by (simp del: sub_match.simps)
  then obtain k c p where c: "(k, c) \<in> set (branches b)" and m: "sub_match (k # p) ks" "leaf_at p g c = Some l"
    by blast
  from wf_branchD(6) [OF assms(1) c] m show "\<exists>p. sub_match p ks \<and> leaf_at p g b = Some l"
    by (intro exI [of _ "k # p"]) (simp del: sub_match.simps)
next
  fix p g assume m: "sub_match p ks \<and> leaf_at p g b \<noteq> None"
  then obtain k q c where p: "p = k # q" and c: "map_of (branches b) k = Some c" "leaf_at q g c \<noteq> None"
    by (cases p) (auto split: option.splits)
  from c(1) have "(k, c) \<in> set (branches b)" by (rule map_of_SomeD)
  with assms(2) have "\<forall>p g. sub_match (k # p) ks \<and> leaf_at p g c \<noteq> None \<longrightarrow> map_of m g \<noteq> None"
    unfolding found_branches_def by blast
  with m c(2) show "map_of m g \<noteq> None" unfolding p by blast
qed

lemma SearchLeaves_effect:
  fixes b :: "('c, 'p) Branch" and bs :: "(string \<times> ('c, 'p) Branch) list"
  shows "wf_branch b \<Longrightarrow> keys \<noteq> [] \<Longrightarrow> \<exists>m. SearchLeaves keys b = Some m \<and> found keys b m"
  "list_all (\<lambda>(k, c). name c = k \<and> wf_branch c) bs \<Longrightarrow> keys \<noteq> [] \<Longrightarrow>
     \<exists>m. search_branches keys bs acc = Some m \<and> found_branches keys bs acc m"
proof (induction keys b and keys bs acc rule: SearchLeaves_search_branches.induct)
  case (1 keys n ls bs)
  let ?b = "Branch n ls bs"
  from 1 obtain k ks where keys: "keys = k # ks" by (cases keys) auto
  consider "n = ''#''" | "n \<noteq> ''#''" "ks = []" "n = ''+'' \<or> n = k"
    | "n \<noteq> ''#''" "ks \<noteq> []" "n = ''+'' \<or> n = k" | "n \<noteq> ''#''" "\<not> (n = ''+'' \<or> n = k)" by blast
  then show ?case
  proof cases
    case 1
    then show ?thesis using found_own [OF "1.prems"(1)] by simp
  next
    case 2
    then show ?thesis using found_own [OF "1.prems"(1)] by (simp add: keys)
  next
    case 3
    with "1.IH"(2) [OF 3(1) keys] "1.prems" obtain m where
      "search_branches ks bs [] = Some m" "found_branches ks bs [] m" by auto
    with found_below [OF "1.prems"(1), of ks m keys] 3 show ?thesis by (simp add: keys)
  next
    case 4
    then show ?thesis by (auto simp: keys found_def)
  qed
next
  case (2 keys acc)
  then show ?case by (simp add: found_branches_def)
next
  case (3 keys k b bs acc)
  from "3.prems" have b: "wf_branch b" "name b = k" by auto
  from "3.IH"(1) [OF b(1) "3.prems"(2)] obtain m1 where
    m1: "SearchLeaves keys b = Some m1" "found keys b m1" by blast
  let ?acc = "fold (\<lambda>(k, v). go_store k v) m1 acc"
  from "3.IH"(2) [OF m1(1)] "3.prems" obtain m where
    m: "search_branches keys bs ?acc = Some m" "found_branches keys bs ?acc m" by auto
  have acc: "map_of ?acc g = (case map_of m1 g of None \<Rightarrow> map_of acc g | Some l \<Rightarrow> Some l)" for g
    using m1(2) by (intro map_of_fold_store) (simp add: found_def)
  have "found_branches keys ((k, b) # bs) acc m"
    unfolding found_branches_def
  proof (intro conjI allI impI ballI)
    show "go_map acc \<Longrightarrow> go_map m"
      using m(2) go_map_fold_store by (auto simp: found_branches_def)
  next
    fix g l assume "map_of m g = Some l"
    with m(2) consider "map_of ?acc g = Some l"
      | "\<exists>(k, c) \<in> set bs. \<exists>p. sub_match (k # p) keys \<and> leaf_at p g c = Some l"
      unfolding found_branches_def by blast
    then show "map_of acc g = Some l \<or>
        (\<exists>(k, c) \<in> set ((k, b) # bs). \<exists>p. sub_match (k # p) keys \<and> leaf_at p g c = Some l)"
    proof cases
      case 1
      with acc [of g] m1(2) b(2) show ?thesis
        by (cases "map_of m1 g") (auto simp: found_def)
    qed auto
  next
    fix g assume "map_of acc g \<noteq> None"
    then have "map_of ?acc g \<noteq> None" by (auto simp: acc split: option.split)
    with m(2) show "map_of m g \<noteq> None" unfolding found_branches_def by blast
  next
    fix e assume e: "e \<in> set ((k, b) # bs)"
    have "map_of m g \<noteq> None" if "sub_match (k # p) keys" "leaf_at p g b \<noteq> None" for p g
    proof -
      have "map_of m1 g \<noteq> None" using m1(2) b(2) that unfolding found_def by blast
      then have "map_of ?acc g \<noteq> None" by (auto simp: acc split: option.split)
      with m(2) show ?thesis unfolding found_branches_def by blast
    qed
    moreover have "case e of (k, c) \<Rightarrow> \<forall>p g. sub_match (k # p) keys \<and> leaf_at p g c \<noteq> None \<longrightarrow>
        map_of m g \<noteq> None" if "e \<in> set bs"
      using m(2) that unfolding found_branches_def by blast
    ultimately show "case e of (k, c) \<Rightarrow> \<forall>p g. sub_match (k # p) keys \<and> leaf_at p g c \<noteq> None \<longrightarrow>
        map_of m g \<noteq> None"
      using e by (cases "e = (k, b)") (simp del: sub_match.simps, blast, simp del: sub_match.simps)
  qed
  with m m1 show ?case by simp
qed

text \<open>The retained packets at and below a branch, and those a search by filter returns.\<close>

definition retained_at :: "(string list \<Rightarrow> bool) \<Rightarrow> ('c, 'p) Branch \<Rightarrow> 'p set" where
  "retained_at P b = {r. \<exists>p f l. P p \<and> leaf_at p f b = Some l \<and> retain l = Some r}"

fun ret_match :: "string list \<Rightarrow> string list \<Rightarrow> bool" where
  "ret_match (n # p) (k # ks) \<longleftrightarrow>
     k = ''#'' \<or> (k = ''+'' \<or> n = k) \<and> (if ks = [] then p = [] else ret_match p ks)"
| "ret_match _ _ \<longleftrightarrow> False"

lemma ret_match_Nil [simp]: "ret_match [] keys = False" "ret_match p [] = False"
  by (cases keys; simp) (cases p; simp)

lemma set_leaf_retains:
  "wf_branch b \<Longrightarrow> set (leaf_retains (leaves b)) = retained_at (\<lambda>p. p = []) b"
  by (force simp: leaf_retains_def map_filter_def retained_at_def GetRetain_def
      dest: wf_branchD(7) map_of_SomeD)

lemma retained_at_split:
  assumes "wf_branch b"
  shows "retained_at P b = retained_at (\<lambda>p. p = [] \<and> P []) b \<union>
    (\<Union>(k, c) \<in> set (branches b). retained_at (\<lambda>p. P (k # p)) c)"
proof (intro set_eqI iffI)
  fix r assume "r \<in> retained_at P b"
  then obtain p f l where p: "P p" "leaf_at p f b = Some l" "retain l = Some r"
    by (auto simp: retained_at_def)
  show "r \<in> retained_at (\<lambda>p. p = [] \<and> P []) b \<union>
    (\<Union>(k, c) \<in> set (branches b). retained_at (\<lambda>p. P (k # p)) c)"
  proof (cases p)
    case Nil
    with p show ?thesis by (auto simp: retained_at_def)
  next
    case (Cons k q)
    with p obtain c where "map_of (branches b) k = Some c" "leaf_at q f c = Some l"
      by (auto split: option.splits)
    then have "(k, c) \<in> set (branches b)" "r \<in> retained_at (\<lambda>p. P (k # p)) c"
      using p Cons by (auto simp: retained_at_def dest: map_of_SomeD)
    then show ?thesis by blast
  qed
next
  fix r assume "r \<in> retained_at (\<lambda>p. p = [] \<and> P []) b \<union>
    (\<Union>(k, c) \<in> set (branches b). retained_at (\<lambda>p. P (k # p)) c)"
  then consider "r \<in> retained_at (\<lambda>p. p = [] \<and> P []) b"
    | k c where "(k, c) \<in> set (branches b)" "r \<in> retained_at (\<lambda>p. P (k # p)) c" by blast
  then show "r \<in> retained_at P b"
  proof cases
    case 1
    then show ?thesis unfolding retained_at_def by blast
  next
    case 2
    from 2(2) obtain p f l where "P (k # p)" "leaf_at p f c = Some l" "retain l = Some r"
      by (auto simp: retained_at_def)
    with wf_branchD(6) [OF assms 2(1)] show ?thesis
      unfolding retained_at_def by (intro CollectI exI [of _ "k # p"]) auto
  qed
qed

lemma wf_children:
  "wf_branch b \<Longrightarrow> list_all (\<lambda>(k, c). name c = k \<and> wf_branch c) (branches b)"
  by (cases b) simp

lemma GetRestRetain_set:
  "wf_branch b \<Longrightarrow> set (GetRestRetain b) = retained_at (\<lambda>_. True) b"
proof (induction b rule: GetRestRetain.induct)
  case (1 n ls bs)
  let ?b = "Branch n ls bs"
  have "set (GetRestRetain c) = retained_at (\<lambda>_. True) c" if "(k, c) \<in> set bs" for k c
    using 1 that by (fastforce simp: list_all_iff)
  then have "(\<Union>(k, c) \<in> set bs. set (GetRestRetain c)) =
      (\<Union>(k, c) \<in> set bs. retained_at (\<lambda>_. True) c)" by force
  moreover have "set (leaf_retains ls) = retained_at (\<lambda>p. p = []) ?b"
    using set_leaf_retains [OF "1.prems"] by simp
  ultimately show ?case
    using retained_at_split [OF "1.prems", of "\<lambda>_. True"]
    by (simp add: case_prod_unfold)
qed

lemma SearchRetain_set:
  fixes b :: "('c, 'p) Branch" and bs :: "(string \<times> ('c, 'p) Branch) list"
  shows "wf_branch b \<Longrightarrow> keys \<noteq> [] \<Longrightarrow>
    \<exists>rs. SearchRetain keys b = Some rs \<and> set rs = retained_at (\<lambda>p. ret_match (name b # p) keys) b"
  "list_all (\<lambda>(k, c). name c = k \<and> wf_branch c) bs \<Longrightarrow> keys \<noteq> [] \<Longrightarrow>
    \<exists>rs. search_retain_branches keys bs = Some rs \<and>
      set rs = (\<Union>(k, c) \<in> set bs. retained_at (\<lambda>p. ret_match (k # p) keys) c)"
proof (induction keys b and keys bs rule: SearchRetain_search_retain_branches.induct)
  case (2 k ks n ls bs)
  let ?b = "Branch n ls bs"
  consider "k = ''#''" | "k \<noteq> ''#''" "ks = []" "k = ''+'' \<or> n = k"
    | "k \<noteq> ''#''" "ks \<noteq> []" "k = ''+'' \<or> n = k" | "k \<noteq> ''#''" "\<not> (k = ''+'' \<or> n = k)" by blast
  then show ?case
  proof cases
    case 1
    then show ?thesis using GetRestRetain_set [OF "2.prems"(1)] by simp
  next
    case 2
    then have "(\<lambda>p. ret_match (name ?b # p) (k # ks)) = (\<lambda>p. p = [])" by auto
    with 2 show ?thesis
      using set_leaf_retains [OF "2.prems"(1)] by (simp del: ret_match.simps)
  next
    case 3
    then have m: "(\<lambda>p. ret_match (name ?b # p) (k # ks)) = (\<lambda>p. ret_match p ks)" by auto
    from "2.IH"[OF 3(1) _ 3(3)] 3 wf_children [OF "2.prems"(1)] obtain rs where
      "search_retain_branches ks bs = Some rs"
      "set rs = (\<Union>(k, c) \<in> set bs. retained_at (\<lambda>p. ret_match (k # p) ks) c)" by auto
    moreover have "retained_at (\<lambda>p. p = [] \<and> ret_match [] ks) ?b = {}"
      by (simp add: retained_at_def)
    ultimately show ?thesis
      unfolding m retained_at_split [OF "2.prems"(1), of "\<lambda>p. ret_match p ks"]
      using 3 by simp
  next
    case 4
    then show ?thesis by (simp add: retained_at_def)
  qed
next
  case (4 keys k b bs)
  from "4.prems" have b: "wf_branch b" "name b = k" by auto
  from "4.IH"(1) [OF b(1) "4.prems"(2)] obtain rs where
    rs: "SearchRetain keys b = Some rs" "set rs = retained_at (\<lambda>p. ret_match (k # p) keys) b"
    using b(2) by auto
  from "4.IH"(2) [OF rs(1)] "4.prems" obtain rs' where
    "search_retain_branches keys bs = Some rs'"
    "set rs' = (\<Union>(k, c) \<in> set bs. retained_at (\<lambda>p. ret_match (k # p) keys) c)" by auto
  with rs show ?case by simp
qed simp_all


text \<open>\<open>b'\<close> is \<open>b\<close> with one retained packet at the path \<open>p\<close> taken away.\<close>

definition unretained :: "string list \<Rightarrow> ('c, 'p) Branch \<Rightarrow> ('c, 'p) Branch \<Rightarrow> bool" where
  "unretained p b b' \<longleftrightarrow>
     wf_branch b' \<and> name b' = name b \<and>
     (\<exists>f l. leaf_at p f b = Some l \<and> retain l \<noteq> None \<and>
       (\<forall>q g. leaf_at q g b' =
          (if q = p \<and> g = f then Some (l\<lparr>retain := None\<rparr>) else leaf_at q g b)))"

lemma remove_first_retain_effect:
  assumes "go_map ls"
  shows "(\<exists>ls' f l. remove_first_retain ls = (ls', True) \<and> map_of ls f = Some l \<and> retain l \<noteq> None \<and>
       map fst ls' = map fst ls \<and> map_of ls' = (map_of ls)(f \<mapsto> l\<lparr>retain := None\<rparr>)) \<or>
     remove_first_retain ls = (ls, False) \<and> (\<forall>f l. map_of ls f = Some l \<longrightarrow> retain l = None)"
  using assms
proof (induction ls)
  case (Cons e ls)
  obtain k l where e: "e = (k, l)" by force
  show ?case
  proof (cases "retain l")
    case None
    from Cons e have "k \<notin> fst ` set ls" by simp
    then have "map_of ls k = None" by (simp add: map_of_eq_None_iff)
    then have "map_of ls f = Some x \<Longrightarrow> f \<noteq> k" for f x by auto
    note fk = this
    have step: "remove_first_retain (e # ls) = (e # fst (remove_first_retain ls), snd (remove_first_retain ls))"
      using None by (simp add: e Leaf_RemoveRetain_def split: prod.split)
    have "go_map ls" using Cons.prems e by simp
    from Cons.IH [OF this] show ?thesis
    proof (elim disjE exE conjE)
      fix ls' f l'
      assume "remove_first_retain ls = (ls', True)" "map_of ls f = Some l'" "retain l' \<noteq> None"
        "map fst ls' = map fst ls" "map_of ls' = (map_of ls)(f \<mapsto> l'\<lparr>retain := None\<rparr>)"
      with fk [of f l'] step e show ?thesis
        by (intro disjI1 exI [of _ "e # ls'"] exI [of _ f] exI [of _ l']) (auto simp: fun_eq_iff)
    next
      assume "remove_first_retain ls = (ls, False)" "\<forall>f l. map_of ls f = Some l \<longrightarrow> retain l = None"
      with step e None show ?thesis by (intro disjI2) simp
    qed
  next
    case (Some r)
    then show ?thesis
      by (intro disjI1 exI [of _ "(k, l\<lparr>retain := None\<rparr>) # ls"] exI [of _ k] exI [of _ l])
        (simp add: e Leaf_RemoveRetain_def fun_eq_iff)
  qed
qed simp

lemma not_retained [simp]: "\<not> retained None"
  by (simp add: retained_def default_leaf_def NewLeaf_def)

lemma unretained_own:
  assumes "wf_branch b" "map_of (leaves b) f = Some l" "retain l \<noteq> None"
    "map fst ls' = map fst (leaves b)" "map_of ls' = (map_of (leaves b))(f \<mapsto> l\<lparr>retain := None\<rparr>)"
  shows "unretained [] b (set_leaves ls' b)"
proof -
  have "go_map ls'" using wf_branchD(1) [OF assms(1)] assms(4) by (simp add: go_map_def)
  then have "wf_branch (set_leaves ls' b)"
    using assms wf_branchD(3) [OF assms(1), of f l]
    by (auto simp: wf_branch_iff [of "set_leaves m b" for m] wf_leaf_def dest: wf_branchD split: if_splits)
  moreover have "leaf_at q g (set_leaves ls' b) =
      (if q = [] \<and> g = f then Some (l\<lparr>retain := None\<rparr>) else leaf_at q g b)" for q g
    using assms(5) by (cases q) auto
  ultimately show ?thesis using assms(2,3) by (auto simp: unretained_def)
qed

lemma unretained_child:
  assumes "wf_branch b" "map_of (branches b) k = Some c" "unretained p c c'"
  shows "unretained (k # p) b (put_branch k c' b)"
proof -
  have k: "name c' = k" "wf_branch c'"
    using assms by (auto simp: unretained_def dest: wf_branchD)
  have "wf_branch (put_branch k c' b)" using assms(1) k by (intro wf_put)
  with assms show ?thesis
    unfolding unretained_def leaf_at_put by (auto split: list.splits)
qed

lemma RemoveRetain_effect:
  fixes b :: "('c, 'p) Branch" and bs :: "(string \<times> ('c, 'p) Branch) list"
  shows "wf_branch b \<Longrightarrow> keys \<noteq> [] \<Longrightarrow>
     (\<exists>p b'. name b # p = keys \<and> RemoveRetain keys b = Some (b', True) \<and> unretained p b b') \<or>
     (RemoveRetain keys b = Some (b, False) \<and>
        (\<forall>p f. name b # p = keys \<longrightarrow> \<not> retained (leaf_at p f b)))"
  "list_all (\<lambda>(k, c). name c = k \<and> wf_branch c) bs \<Longrightarrow> keys \<noteq> [] \<Longrightarrow>
     (\<exists>k c c' p. (k, c) \<in> set bs \<and> k # p = keys \<and>
        remove_retain_branches keys bs = Some (Some (k, c')) \<and> unretained p c c') \<or>
     (remove_retain_branches keys bs = Some None \<and>
        (\<forall>(k, c) \<in> set bs. \<forall>p f. k # p = keys \<longrightarrow> \<not> retained (leaf_at p f c)))"
proof (induction keys b and keys bs rule: RemoveRetain_remove_retain_branches.induct)
  case (2 k ks n ls bs)
  let ?b = "Branch n ls bs"
  consider "n = k" "ks = []" | "n = k" "ks \<noteq> []" | "n \<noteq> k" by blast
  then show ?case
  proof cases
    case 1
    have "go_map ls" using "2.prems" by simp
    from remove_first_retain_effect [OF this] show ?thesis
    proof (elim disjE exE conjE)
      fix ls' f l
      assume "remove_first_retain ls = (ls', True)" "map_of ls f = Some l" "retain l \<noteq> None"
        "map fst ls' = map fst ls" "map_of ls' = (map_of ls)(f \<mapsto> l\<lparr>retain := None\<rparr>)"
      with unretained_own [OF "2.prems"(1), of f l ls'] 1 show ?thesis by simp
    next
      assume "remove_first_retain ls = (ls, False)" "\<forall>f l. map_of ls f = Some l \<longrightarrow> retain l = None"
      with 1 show ?thesis
        by (auto simp: retained_def default_leaf_def NewLeaf_def split: option.splits)
    qed
  next
    case 2
    from "2.IH"[OF _ 2(1)] 2 wf_children [OF "2.prems"(1)] have
      "(\<exists>k c c' p. (k, c) \<in> set bs \<and> k # p = ks \<and>
        remove_retain_branches ks bs = Some (Some (k, c')) \<and> unretained p c c') \<or>
       (remove_retain_branches ks bs = Some None \<and>
        (\<forall>(k, c) \<in> set bs. \<forall>p f. k # p = ks \<longrightarrow> \<not> retained (leaf_at p f c)))" by simp
    then show ?thesis
    proof (elim disjE exE conjE)
      fix key c c' p
      assume c: "(key, c) \<in> set bs" "key # p = ks"
        "remove_retain_branches ks bs = Some (Some (key, c'))" "unretained p c c'"
      have "map_of (branches ?b) key = Some c"
        using wf_branchD(6) [OF "2.prems"(1), of key c] c(1) by simp
      from unretained_child [OF "2.prems"(1) this c(4)] c 2 show ?thesis
        by (intro disjI1 exI [of _ "key # p"]) (simp add: put_branch_def)
    next
      assume n: "remove_retain_branches ks bs = Some None"
        "\<forall>(k, c) \<in> set bs. \<forall>p f. k # p = ks \<longrightarrow> \<not> retained (leaf_at p f c)"
      have "\<not> retained (leaf_at ks f ?b)" for f
      proof -
        obtain a q where ks: "ks = a # q" using 2 by (cases ks) auto
        show ?thesis
        proof (cases "map_of bs a")
          case (Some c)
          then have "(a, c) \<in> set bs" by (rule map_of_SomeD)
          with n(2) ks have "\<not> retained (leaf_at q f c)" by blast
          with Some ks show ?thesis by simp
        qed (simp add: ks)
      qed
      with n(1) 2 show ?thesis by simp
    qed
  next
    case 3
    then show ?thesis by simp
  qed
next
  case (4 keys key b bs)
  from "4.prems" have "wf_branch b" "name b = key" by auto
  from "4.IH"(1) [OF this(1) "4.prems"(2)] show ?case
  proof (elim disjE exE conjE)
    fix p b' assume "name b # p = keys" "RemoveRetain keys b = Some (b', True)" "unretained p b b'"
    with \<open>name b = key\<close> show ?thesis
      by (intro disjI1 exI [of _ key] exI [of _ b] exI [of _ b'] exI [of _ p]) simp
  next
    assume no: "RemoveRetain keys b = Some (b, False)"
      "\<forall>p f. name b # p = keys \<longrightarrow> \<not> retained (leaf_at p f b)"
    have eq: "remove_retain_branches keys ((key, b) # bs) = remove_retain_branches keys bs"
      using no(1) by simp
    have "list_all (\<lambda>(k, c). name c = k \<and> wf_branch c) bs" using "4.prems" by simp
    from "4.IH"(2) [OF no(1) refl refl this "4.prems"(2)] show ?thesis
    proof (elim disjE exE conjE)
      fix k c c' p
      assume "(k, c) \<in> set bs" "k # p = keys"
        "remove_retain_branches keys bs = Some (Some (k, c'))" "unretained p c c'"
      with eq show ?thesis
        by (intro disjI1 exI [of _ k] exI [of _ c] exI [of _ c'] exI [of _ p]) simp
    next
      assume "remove_retain_branches keys bs = Some None"
        "\<forall>(k, c) \<in> set bs. \<forall>p f. k # p = keys \<longrightarrow> \<not> retained (leaf_at p f c)"
      with eq no(2) \<open>name b = key\<close> show ?thesis by (intro disjI2) simp
    qed
  qed
qed simp_all

end
