(* ===== verification/Topic_Storage.thy ===== *)
theory Topic_Storage
  imports Topic_Laws
begin

text \<open>
  The topic storage as its clients see it: the invariant \<open>wf_trie\<close>, the view \<open>subscription\<close>
  (which subscriber holds which filter) and \<open>retained_packet\<close>, what each operation of
  \<open>ifs.TopicStorage\<close> does to the view, and the interface \<open>topic_storage\<close> as a locale that the
  trie implements.
\<close>

section \<open>Levels and paths\<close>

lemma trim_left_graphic:
  "\<forall>p \<in> set ps. \<forall>c \<in> set p. \<not> graphic c \<Longrightarrow> c \<in> set s \<Longrightarrow> graphic c \<Longrightarrow> c \<in> set (trim_left ps s)"
proof (induction ps s rule: trim_left.induct)
  case (1 ps s)
  show ?case
  proof (cases "List.map_filter (\<lambda>p. strip_prefix p s) ps")
    case Nil
    then have "trim_left ps s = s" by (subst trim_left.simps) simp
    with "1.prems" show ?thesis by simp
  next
    case (Cons s' ss)
    then have "s' \<in> set (List.map_filter (\<lambda>p. strip_prefix p s) ps)" by simp
    then obtain p where p: "p \<in> set ps" "take (length p) s = p" "s' = drop (length p) s"
      by (auto simp: map_filter_def strip_prefix_def split: if_splits)
    then have "s = p @ s'" by (metis append_take_drop_id)
    then have "c \<in> set p \<or> c \<in> set s'" using "1.prems"(2) by (metis Un_iff set_append)
    with p(1) "1.prems"(1,3) have "c \<in> set s'" by blast
    then have "c \<in> set (trim_left ps s')" using "1.IH" [OF Cons] "1.prems"(1,3) by blast
    moreover have "trim_left ps s = trim_left ps s'" by (subst trim_left.simps) (simp add: Cons)
    ultimately show ?thesis by simp
  qed
qed

lemma white_space_chars: "p \<in> set white_space \<Longrightarrow> c \<in> set p \<Longrightarrow> \<not> graphic c"
  unfolding white_space_def by (auto simp: graphic_def)

lemma TrimSpace_nonempty: "c \<in> set s \<Longrightarrow> graphic c \<Longrightarrow> TrimSpace s \<noteq> []"
proof -
  assume "c \<in> set s" "graphic c"
  then have "c \<in> set (trim_left white_space s)"
    using white_space_chars by (intro trim_left_graphic) auto
  then have "c \<in> set (trim_left (map rev white_space) (rev (trim_left white_space s)))"
    using \<open>graphic c\<close> white_space_chars by (intro trim_left_graphic) auto
  then show ?thesis by (auto simp: TrimSpace_def)
qed

lemma levels_wildcard: "wildcard f \<Longrightarrow> levels f \<noteq> []"
proof
  assume w: "wildcard f" and "levels f = []"
  then have "TrimSpace (Split CHR ''/'' f ! 0) = []" "length (Split CHR ''/'' f) = 1"
    by (auto simp: levels_def Let_def le_Suc_eq split: if_splits)
  then obtain k where k: "Split CHR ''/'' f = [k]" "TrimSpace k = []"
    by (cases "Split CHR ''/'' f") auto
  from w have "\<exists>c. (c = CHR ''#'' \<or> c = CHR ''+'') \<and> Contains c f"
    unfolding wildcard_def by blast
  then obtain c where c: "c = CHR ''#'' \<or> c = CHR ''+''" "Contains c f" by blast
  then have "c \<in> set k" using Contains_Split [of c "CHR ''/''" f] k by auto
  moreover from c(1) have "graphic c" by (auto simp: graphic_def)
  ultimately show False using TrimSpace_nonempty k(2) by blast
qed

text \<open>Everywhere a topic may be stored: where it is subscribed and where it is retained.\<close>

definition places :: "string \<Rightarrow> string list set" where
  "places f = insert (map TrimSpace (levels f)) (sub_places (levels f))"

lemma sub_path_prefix: "\<exists>rest. map TrimSpace keys = sub_path keys @ rest"
  by (induction keys) auto

lemma sub_path_hash: "''#'' \<notin> set (butlast (sub_path keys))"
  by (induction keys) auto

lemma sub_path_rest:
  "map TrimSpace keys = sub_path keys @ rest \<Longrightarrow> rest \<noteq> [] \<Longrightarrow> last (sub_path keys) = ''#'' \<and> sub_path keys \<noteq> []"
  by (induction keys) (auto split: if_splits)

lemma length_sub_path: "length (sub_path keys) \<le> length keys"
  by (induction keys) auto

lemma sub_path_Nil [simp]: "sub_path keys = [] \<longleftrightarrow> keys = []"
  by (cases keys) auto

lemma sub_match_prefix_free: "sub_match p keys \<Longrightarrow> sub_match (p @ q) keys \<Longrightarrow> q = []"
  by (induction p keys rule: sub_match.induct) (auto split: if_splits list.splits)

lemma places_cases:
  assumes "p \<in> places f"
  obtains "p = sub_path (levels f)"
    | "p = butlast (sub_path (levels f))" "sub_path (levels f) = p @ [''#'']"
    | rest where "p = sub_path (levels f) @ rest" "last (sub_path (levels f)) = ''#''"
        "rest \<noteq> []" "p = map TrimSpace (levels f)"
proof -
  obtain rest where r: "map TrimSpace (levels f) = sub_path (levels f) @ rest"
    using sub_path_prefix by blast
  consider "p = sub_path (levels f)"
    | "sub_path (levels f) \<noteq> []" "last (sub_path (levels f)) = ''#''" "p = butlast (sub_path (levels f))"
    | "p = map TrimSpace (levels f)" "p \<noteq> sub_path (levels f)"
    using assms by (auto simp: places_def sub_places_def split: if_splits)
  then show thesis
  proof cases
    case 2
    from append_butlast_last_id [OF 2(1)] have "sub_path (levels f) = p @ [''#'']"
      unfolding 2(2,3) by (rule sym)
    with 2(3) show ?thesis by (rule that(2))
  next
    case 3
    with r have "rest \<noteq> []" by auto
    with 3 r sub_path_rest [OF r] show ?thesis using that(3) by auto
  qed (use that in blast)
qed

lemma places_prefix: "p \<in> places f \<Longrightarrow> \<exists>r. map TrimSpace (levels f) = p @ r"
proof -
  assume p: "p \<in> places f"
  obtain rest where rest: "map TrimSpace (levels f) = sub_path (levels f) @ rest"
    using sub_path_prefix by blast
  from p show ?thesis
  proof (cases rule: places_cases)
    case 2
    from rest show ?thesis unfolding 2(2) by (metis append_assoc)
  next
    case 1
    with rest show ?thesis by blast
  next
    case (3 r)
    from 3(4) show ?thesis by (intro exI [of _ "[]"]) simp
  qed
qed

lemma places_unique:
  assumes "p \<in> places f" "q \<in> places f" "sub_match p keys" "sub_match q keys"
  shows "p = q"
proof -
  obtain r s where "p @ r = q @ s" using places_prefix assms(1,2) by metis
  then obtain u where "p = q @ u \<or> q = p @ u" by (auto simp: append_eq_append_conv2)
  then show ?thesis
    using assms(3,4) sub_match_prefix_free [of p keys u] sub_match_prefix_free [of q keys u] by auto
qed

lemma unsub_match_no_hash: "unsub_match p keys \<Longrightarrow> ''#'' \<notin> set p \<Longrightarrow> p = keys"
  by (induction p keys rule: unsub_match.induct) (auto split: if_splits list.splits)

lemma unsub_match_hash: "unsub_match p keys \<Longrightarrow> ''#'' \<notin> set (butlast p)"
  by (induction p keys rule: unsub_match.induct) (auto split: if_splits list.splits)

lemma unsub_place:
  assumes "p \<in> places f" "unsub_match p (levels f)"
  shows "p = sub_path (levels f)"
  using assms(1)
proof (cases rule: places_cases)
  case 2
  then have "''#'' \<notin> set p" using sub_path_hash [of "levels f"] by simp
  with unsub_match_no_hash assms(2) have "p = levels f" by blast
  with 2(2) length_sub_path [of "levels f"] show ?thesis by simp
next
  case (3 rest)
  with unsub_match_hash [OF assms(2)] show ?thesis
    by (cases "sub_path (levels f)" rule: rev_cases) (auto simp: butlast_append)
qed

text \<open>A filter whose levels carry no surrounding white space is found where it was put.\<close>

definition clean :: "string \<Rightarrow> bool" where
  "clean f \<longleftrightarrow> list_all (\<lambda>k. TrimSpace k = k) (levels f)"

lemma unsub_match_sub_path:
  "keys \<noteq> [] \<Longrightarrow> list_all (\<lambda>k. TrimSpace k = k) keys \<Longrightarrow> unsub_match (sub_path keys) keys"
  by (induction keys) auto


text \<open>\<open>ScanRemoveLeaf\<close> compares the levels as they are, so it does not find every filter where it was put.\<close>

definition findable :: "string \<Rightarrow> bool" where
  "findable f \<longleftrightarrow> wildcard f \<longrightarrow> unsub_match (sub_path (levels f)) (levels f)"

lemma clean_findable: "clean f \<Longrightarrow> findable f"
  using unsub_match_sub_path levels_wildcard unfolding findable_def clean_def by blast

section \<open>The storage as a whole\<close>

definition wf_trie :: "('c, 'p) Trie \<Rightarrow> bool" where
  "wf_trie t \<longleftrightarrow> wf_branch (root t) \<and> go_map (foliage t) \<and>
     (\<forall>f l. map_of (foliage t) f = Some l \<longrightarrow>
        wf_leaf l \<and> retain l = None \<and> (wildcard f \<longrightarrow> subscribers l = [])) \<and>
     (\<forall>p f l. leaf_at p f (root t) = Some l \<longrightarrow>
        p \<in> places f \<and> (\<not> wildcard f \<or> p \<notin> sub_places (levels f) \<longrightarrow> subscribers l = []) \<and>
        (p \<noteq> map TrimSpace (levels f) \<longrightarrow> retain l = None))"

text \<open>The subscribers of a topic at a path, and the packet retained for it there.\<close>

definition sub_at :: "('c, 'p) Leaf option \<Rightarrow> string \<Rightarrow> 'c option" where
  "sub_at l i = map_of (subscribers (default_leaf l)) i"

definition ret_at :: "('c, 'p) Leaf option \<Rightarrow> 'p option" where
  "ret_at l = retain (default_leaf l)"

definition subscription :: "('c, 'p) Trie \<Rightarrow> string \<Rightarrow> string \<Rightarrow> 'c option" where
  "subscription t f i =
     (if wildcard f then sub_at (leaf_at (sub_path (levels f)) f (root t)) i
      else sub_at (map_of (foliage t) f) i)"

definition retained_packet :: "('c, 'p) Trie \<Rightarrow> string \<Rightarrow> 'p option" where
  "retained_packet t f = ret_at (leaf_at (map TrimSpace (levels f)) f (root t))"

text \<open>The two copies of a filter that ends in \<open>#\<close> agree.\<close>

definition synced :: "('c, 'p) Trie \<Rightarrow> bool" where
  "synced t \<longleftrightarrow> (\<forall>f p i. wildcard f \<and> p \<in> sub_places (levels f) \<longrightarrow>
     sub_at (leaf_at p f (root t)) i = subscription t f i)"

lemma default_simps [simp]: "default_leaf None = NewLeaf" "default_leaf (Some l) = l"
  by (simp_all add: default_leaf_def)

lemma sub_at_simps [simp]:
  "sub_at None i = None"
  "sub_at (Some l) i = map_of (subscribers l) i"
  "sub_at (Some (sub_leaf j c lo)) i = (if i = j then Some c else sub_at lo i)"
  "sub_at (Some (ret_leaf r lo)) i = sub_at lo i"
  "sub_at (rem_leaf j l) i = (if i = j then None else map_of (subscribers l) i)"
  by (auto simp: sub_at_def NewLeaf_def sub_leaf_def ret_leaf_def rem_leaf_def AddSubscriber_def
      RemoveSubscriber_def Let_def go_map_simps) (metis fun_upd_apply map_of.simps(1) map_of_go_delete)+

lemma ret_at_simps [simp]:
  "ret_at None = None"
  "ret_at (Some l) = retain l"
  "ret_at (Some (sub_leaf j c lo)) = ret_at lo"
  "ret_at (Some (ret_leaf r lo)) = r"
  "ret_at (rem_leaf j l) = retain l"
  by (auto simp: ret_at_def NewLeaf_def sub_leaf_def ret_leaf_def rem_leaf_def AddSubscriber_def
      RemoveSubscriber_def Let_def)

lemma subscribed_iff: "subscribed i l \<longleftrightarrow> sub_at l i \<noteq> None"
  by (simp add: subscribed_def sub_at_def)

lemma retained_iff: "retained l \<longleftrightarrow> ret_at l \<noteq> None"
  by (simp add: retained_def ret_at_def)

lemma wf_NewTrie: "wf_trie NewTrie"
  by (simp add: wf_trie_def NewTrie_def tree_simps)

lemma synced_NewTrie: "synced NewTrie"
  by (simp add: synced_def NewTrie_def subscription_def tree_simps)

lemma subscription_NewTrie: "subscription NewTrie f i = None"
  by (simp add: subscription_def NewTrie_def tree_simps)

lemma sub_path_in_places: "sub_path (levels f) \<in> sub_places (levels f)"
  by (simp add: sub_places_def)

lemma sub_places_in_places: "p \<in> sub_places (levels f) \<Longrightarrow> p \<in> places f"
  by (simp add: places_def)

section \<open>What the operations do\<close>

lemma leaf_fields [simp]:
  "map_of (subscribers (sub_leaf j c lo)) i = (if i = j then Some c else sub_at lo i)"
  "retain (sub_leaf j c lo) = ret_at lo"
  "map_of (subscribers (ret_leaf r lo)) i = sub_at lo i"
  "retain (ret_leaf r lo) = r"
  by (simp_all add: sub_leaf_def ret_leaf_def AddSubscriber_def Let_def go_map_simps sub_at_def ret_at_def)

lemma wf_trieD:
  assumes "wf_trie t"
  shows "wf_branch (root t)" "go_map (foliage t)"
    "map_of (foliage t) f = Some l \<Longrightarrow> wf_leaf l"
    "map_of (foliage t) f = Some l \<Longrightarrow> retain l = None"
    "map_of (foliage t) f = Some l \<Longrightarrow> wildcard f \<Longrightarrow> subscribers l = []"
    "leaf_at p f (root t) = Some l \<Longrightarrow> p \<in> places f"
    "leaf_at p f (root t) = Some l \<Longrightarrow> \<not> wildcard f \<Longrightarrow> subscribers l = []"
    "leaf_at p f (root t) = Some l \<Longrightarrow> p \<notin> sub_places (levels f) \<Longrightarrow> subscribers l = []"
    "leaf_at p f (root t) = Some l \<Longrightarrow> p \<noteq> map TrimSpace (levels f) \<Longrightarrow> retain l = None"
  using assms unfolding wf_trie_def by blast+

lemma wf_trie_ret:
  "wf_trie t \<Longrightarrow> p \<noteq> map TrimSpace (levels f) \<Longrightarrow> ret_at (leaf_at p f (root t)) = None"
  by (cases "leaf_at p f (root t)") (auto dest: wf_trieD)

lemma wf_trie_root:
  assumes "wf_trie t" "wf_branch r"
    and "\<And>p f l. leaf_at p f r = Some l \<Longrightarrow>
        p \<in> places f \<and> (\<not> wildcard f \<or> p \<notin> sub_places (levels f) \<longrightarrow> subscribers l = []) \<and>
        (p \<noteq> map TrimSpace (levels f) \<longrightarrow> retain l = None)"
  shows "wf_trie (t\<lparr>root := r\<rparr>)"
  using assms unfolding wf_trie_def by simp

lemma wf_trie_foliage:
  assumes "wf_trie t" "go_map m"
    and "\<And>f l. map_of m f = Some l \<Longrightarrow>
        wf_leaf l \<and> retain l = None \<and> (wildcard f \<longrightarrow> subscribers l = [])"
  shows "wf_trie (t\<lparr>foliage := m\<rparr>)"
  using assms unfolding wf_trie_def by simp

lemma Subscribe_wildcard:
  assumes "wf_trie t" "wildcard f"
  shows "\<exists>t'. Trie_Subscribe f i c t = Some (t', subscription t f i \<noteq> None) \<and> wf_trie t' \<and>
    (\<forall>p g. leaf_at p g (root t') = (if g = f \<and> p \<in> sub_places (levels f)
        then Some (sub_leaf i c (leaf_at p f (root t))) else leaf_at p g (root t))) \<and>
    (\<forall>g. sub_at (map_of (foliage t') g) = sub_at (map_of (foliage t) g))"
proof -
  let ?m = "if map_of (foliage t) f = None then go_store f NewLeaf (foliage t) else foliage t"
  let ?t = "t\<lparr>foliage := ?m\<rparr>"
  have wf: "wf_trie ?t"
    using assms(1) by (intro wf_trie_foliage)
      (auto simp: go_map_simps NewLeaf_def wf_leaf_def dest: wf_trieD split: if_splits)
  from AddBranch_effect [OF wf_trieD(1) [OF assms(1)] levels_wildcard [OF assms(2)], of f i c]
  obtain r where r: "AddBranch f i c (levels f) (root t) =
      Some (r, subscribed i (leaf_at (sub_path (levels f)) f (root t)))" "wf_branch r" and
    at: "\<And>p g. leaf_at p g r = (if g = f \<and> p \<in> sub_places (levels f)
        then Some (sub_leaf i c (leaf_at p f (root t))) else leaf_at p g (root t))" by blast
  have "wf_trie (?t\<lparr>root := r\<rparr>)"
    using wf r(2) assms
    by (intro wf_trie_root) (auto simp: at sub_places_in_places wf_trie_ret dest: wf_trieD split: if_splits)
  moreover have "Trie_Subscribe f i c t = Some (?t\<lparr>root := r\<rparr>, subscription t f i \<noteq> None)"
    using assms(2) r(1)
    by (auto simp: Trie_Subscribe_def Let_def subscription_def subscribed_iff)
  moreover have "sub_at (map_of ?m g) = sub_at (map_of (foliage t) g)" for g
    by (auto simp: go_map_simps NewLeaf_def fun_eq_iff)
  ultimately show ?thesis using at by (intro exI [of _ "?t\<lparr>root := r\<rparr>"]) auto
qed

lemma Subscribe_exact:
  assumes "wf_trie t" "\<not> wildcard f"
  shows "\<exists>t'. Trie_Subscribe f i c t = Some (t', subscription t f i \<noteq> None) \<and> wf_trie t' \<and>
    root t' = root t \<and>
    (\<forall>g. map_of (foliage t') g = (if g = f then Some (sub_leaf i c (map_of (foliage t) f))
        else map_of (foliage t) g))"
proof -
  let ?l = "sub_leaf i c (map_of (foliage t) f)"
  let ?m0 = "if map_of (foliage t) f = None then go_store f NewLeaf (foliage t) else foliage t"
  let ?m = "go_store f ?l ?m0"
  have l: "wf_leaf ?l" "retain ?l = None"
    using assms(1)
    by (cases "map_of (foliage t) f"; auto simp: sub_leaf_def NewLeaf_def wf_leaf_def AddSubscriber_def
        Let_def go_map_simps dest: wf_trieD)+
  have m: "map_of ?m g = (if g = f then Some ?l else map_of (foliage t) g)" for g
    by (auto simp: go_map_simps)
  have "go_map ?m" using wf_trieD(2) [OF assms(1)] by (auto simp: go_map_simps)
  then have "wf_trie (t\<lparr>foliage := ?m\<rparr>)"
    using assms l by (intro wf_trie_foliage) (auto simp: m dest: wf_trieD split: if_splits)
  moreover have "Trie_Subscribe f i c t = Some (t\<lparr>foliage := ?m\<rparr>, subscription t f i \<noteq> None)"
    using assms(2)
    by (auto simp: Trie_Subscribe_def Let_def subscription_def sub_leaf_def default_leaf_def
        AddSubscriber_def sub_at_def split: option.split)
  ultimately show ?thesis using m by (intro exI [of _ "t\<lparr>foliage := ?m\<rparr>"]) auto
qed

lemma Subscribe_law:
  assumes "wf_trie t"
  shows "\<exists>t'. Trie_Subscribe f i c t = Some (t', subscription t f i \<noteq> None) \<and> wf_trie t' \<and>
    (\<forall>g j. subscription t' g j = (if g = f \<and> j = i then Some c else subscription t g j)) \<and>
    (\<forall>p g. ret_at (leaf_at p g (root t')) = ret_at (leaf_at p g (root t))) \<and> (synced t \<longrightarrow> synced t')"
proof (cases "wildcard f")
  case True
  from Subscribe_wildcard [OF assms True, of i c] obtain t' where
    t': "Trie_Subscribe f i c t = Some (t', subscription t f i \<noteq> None)" "wf_trie t'" and
    at: "\<And>p g. leaf_at p g (root t') = (if g = f \<and> p \<in> sub_places (levels f)
        then Some (sub_leaf i c (leaf_at p f (root t))) else leaf_at p g (root t))" and
    fo: "\<And>g. sub_at (map_of (foliage t') g) = sub_at (map_of (foliage t) g)" by blast
  have sub: "subscription t' g j = (if g = f \<and> j = i then Some c else subscription t g j)" for g j
    using True by (simp add: subscription_def at fo sub_path_in_places)
  moreover have "ret_at (leaf_at p g (root t')) = ret_at (leaf_at p g (root t))" for p g
    by (simp add: at)
  moreover have "synced t'" if "synced t"
    using that unfolding synced_def sub at by (simp add: subscription_def)
  ultimately show ?thesis using t' by blast
next
  case False
  from Subscribe_exact [OF assms False, of i c] obtain t' where
    t': "Trie_Subscribe f i c t = Some (t', subscription t f i \<noteq> None)" "wf_trie t'"
      "root t' = root t" and
    fo: "\<And>g. map_of (foliage t') g = (if g = f then Some (sub_leaf i c (map_of (foliage t) f))
        else map_of (foliage t) g)" by blast
  have sub: "subscription t' g j = (if g = f \<and> j = i then Some c else subscription t g j)" for g j
    using False by (simp add: subscription_def t'(3) fo)
  moreover have "ret_at (leaf_at p g (root t')) = ret_at (leaf_at p g (root t))" for p g
    by (simp add: t'(3))
  moreover have "synced t'" if "synced t"
    using that False unfolding synced_def sub t'(3) by auto
  ultimately show ?thesis using t' by blast
qed


text \<open>Whether the storage holds a leaf for a filter, which is what \<open>Unsubscribe\<close> reports.\<close>

definition known :: "('c, 'p) Trie \<Rightarrow> string \<Rightarrow> bool" where
  "known t f \<longleftrightarrow>
     (if wildcard f then leaf_at (sub_path (levels f)) f (root t) else map_of (foliage t) f) \<noteq> None"

definition ends_hash :: "string \<Rightarrow> bool" where
  "ends_hash f \<longleftrightarrow> wildcard f \<and> last (sub_path (levels f)) = ''#''"

lemma sub_at_Some: "sub_at l i = Some c \<Longrightarrow> \<exists>l'. l = Some l' \<and> map_of (subscribers l') i = Some c"
  by (cases l) simp_all

lemma subscription_known: "subscription t f i \<noteq> None \<Longrightarrow> known t f"
  by (auto simp: subscription_def known_def dest: sub_at_Some split: if_splits)

lemma Unsubscribe_found:
  assumes "wf_trie t" "wildcard f"
  shows "(\<exists>t' l. Trie_Unsubscribe f i t = Some (t', True) \<and> wf_trie t' \<and> foliage t' = foliage t \<and> findable f \<and>
      leaf_at (sub_path (levels f)) f (root t) = Some l \<and>
      (\<forall>p g. leaf_at p g (root t') = (if g = f \<and> p = sub_path (levels f)
        then rem_leaf i l else leaf_at p g (root t)))) \<or>
    (Trie_Unsubscribe f i t = Some (t, False) \<and> (findable f \<longrightarrow> \<not> known t f))"
proof -
  note wf = wf_trieD(1) [OF assms(1)] and lv = levels_wildcard [OF assms(2)]
  from ScanRemove_effect(2) [OF wf_children [OF wf] lv, of i f]
  show ?thesis
  proof (elim disjE exE conjE)
    fix k c c' p
    assume c: "(k, c) \<in> set (branches (root t))" "unsub_match (k # p) (levels f)"
      "scan_branches i f (levels f) (branches (root t)) = Some (Some (k, c'))" "removed i f p c c'"
    let ?r = "set_branches (CheckClean c' (go_store k c' (branches (root t)))) (root t)"
    from removed_child [OF wf wf_branchD(6) [OF wf c(1)] c(4)]
    obtain l where r: "wf_branch ?r" "leaf_at (k # p) f (root t) = Some l" and
      at: "\<And>q g. leaf_at q g ?r = (if q = k # p \<and> g = f then rem_leaf i l else leaf_at q g (root t))"
      unfolding removed_def by blast
    have sp: "k # p = sub_path (levels f)"
      using unsub_place wf_trieD(6) [OF assms(1) r(2)] c(2) by blast
    have "wf_trie (t\<lparr>root := ?r\<rparr>)"
    proof (rule wf_trie_root [OF assms(1) r(1)])
      fix q g l' assume l': "leaf_at q g ?r = Some l'"
      show "q \<in> places g \<and> (\<not> wildcard g \<or> q \<notin> sub_places (levels g) \<longrightarrow> subscribers l' = []) \<and>
        (q \<noteq> map TrimSpace (levels g) \<longrightarrow> retain l' = None)"
      proof (cases "q = k # p \<and> g = f")
        case True
        with l' have "retain l' = retain l" unfolding at
          by (auto simp: rem_leaf_def RemoveSubscriber_def Let_def split: if_splits)
        then show ?thesis
          using True assms(2) sub_path_in_places [of f] sub_places_in_places [of "sub_path (levels f)" f]
            wf_trieD(9) [OF assms(1) r(2)]
          by (auto simp: sp)
      next
        case False
        with l' have "leaf_at q g (root t) = Some l'" unfolding at by (simp split: if_splits)
        with assms(1) show ?thesis by (auto dest: wf_trieD)
      qed
    qed
    moreover have "Trie_Unsubscribe f i t = Some (t\<lparr>root := ?r\<rparr>, True)"
      using c(3) assms(2) by (simp add: Trie_Unsubscribe_def)
    moreover have "findable f" using c(2) unfolding sp findable_def by blast
    ultimately show ?thesis
      using r(2) at unfolding sp by (intro disjI1 exI [of _ "t\<lparr>root := ?r\<rparr>"] exI [of _ l]) auto
  next
    assume no: "scan_branches i f (levels f) (branches (root t)) = Some None"
      "\<forall>(k, c) \<in> set (branches (root t)). \<forall>p. unsub_match (k # p) (levels f) \<longrightarrow> leaf_at p f c = None"
    have "\<not> known t f" if "findable f"
    proof -
      obtain k p where kp: "sub_path (levels f) = k # p" using lv by (cases "sub_path (levels f)") auto
      have m: "unsub_match (k # p) (levels f)"
        using that assms(2) unfolding findable_def kp by blast
      show ?thesis
      proof (cases "map_of (branches (root t)) k")
        case (Some c)
        with no(2) m have "leaf_at p f c = None" by (blast dest: map_of_SomeD)
        with Some kp assms(2) show ?thesis by (simp add: known_def)
      qed (use kp assms(2) in \<open>simp add: known_def\<close>)
    qed
    with no(1) assms(2) show ?thesis by (simp add: Trie_Unsubscribe_def)
  qed
qed

lemma Unsubscribe_wildcard:
  assumes "wf_trie t" "wildcard f"
  shows "(\<exists>t' l. Trie_Unsubscribe f i t = Some (t', True) \<and> wf_trie t' \<and> foliage t' = foliage t \<and>
      leaf_at (sub_path (levels f)) f (root t) = Some l \<and>
      (\<forall>p g. leaf_at p g (root t') = (if g = f \<and> p = sub_path (levels f)
        then rem_leaf i l else leaf_at p g (root t)))) \<or>
    (Trie_Unsubscribe f i t = Some (t, False) \<and> (clean f \<longrightarrow> \<not> known t f))"
  using Unsubscribe_found [OF assms, of i] clean_findable by blast

lemma Unsubscribe_exact:
  assumes "wf_trie t" "\<not> wildcard f"
  shows "(\<exists>t' l. Trie_Unsubscribe f i t = Some (t', True) \<and> wf_trie t' \<and> root t' = root t \<and>
      map_of (foliage t) f = Some l \<and>
      (\<forall>g. map_of (foliage t') g = (if g = f then rem_leaf i l else map_of (foliage t) g))) \<or>
    (Trie_Unsubscribe f i t = Some (t, False) \<and> \<not> known t f)"
proof (cases "map_of (foliage t) f")
  case None
  with assms(2) show ?thesis by (simp add: Trie_Unsubscribe_def known_def)
next
  case (Some l)
  let ?l = "RemoveSubscriber i l"
  let ?m = "if Leaf_Subscribers ?l = [] \<and> GetRetain ?l = None then go_delete f (foliage t)
    else go_store f ?l (foliage t)"
  have m: "map_of ?m g = (if g = f then rem_leaf i l else map_of (foliage t) g)" for g
    by (simp add: rem_leaf_def Let_def go_map_simps GetRetain_def Leaf_Subscribers_def)
  have l: "wf_leaf ?l" "retain ?l = None"
    using Some wf_trieD(3,4) [OF assms(1), of f l] by (simp_all add: RemoveSubscriber_def wf_leaf_def go_map_simps)
  have "go_map ?m" using wf_trieD(2) [OF assms(1)] by (auto simp: go_map_simps)
  then have "wf_trie (t\<lparr>foliage := ?m\<rparr>)"
  proof (rule wf_trie_foliage [OF assms(1)])
    fix g l' assume "map_of ?m g = Some l'"
    then show "wf_leaf l' \<and> retain l' = None \<and> (wildcard g \<longrightarrow> subscribers l' = [])"
      using assms l unfolding m by (auto simp: rem_leaf_def Let_def dest: wf_trieD split: if_splits)
  qed
  moreover have "Trie_Unsubscribe f i t = Some (t\<lparr>foliage := ?m\<rparr>, True)"
    using assms(2) Some by (simp add: Trie_Unsubscribe_def Let_def)
  ultimately show ?thesis
    using Some m by (intro disjI1 exI [of _ "t\<lparr>foliage := ?m\<rparr>"] exI [of _ l]) simp
qed

lemma Unsubscribe_law:
  assumes "wf_trie t"
  shows "\<exists>t' e. Trie_Unsubscribe f i t = Some (t', e) \<and> wf_trie t' \<and>
    (\<forall>p g. ret_at (leaf_at p g (root t')) = ret_at (leaf_at p g (root t))) \<and>
    (e \<longrightarrow> known t f \<and>
      (\<forall>g j. subscription t' g j = (if g = f \<and> j = i then None else subscription t g j))) \<and>
    (\<not> e \<longrightarrow> t' = t \<and> (clean f \<or> \<not> wildcard f \<longrightarrow> \<not> known t f)) \<and>
    (synced t \<and> \<not> ends_hash f \<longrightarrow> synced t')"
proof (cases "wildcard f")
  case True
  from Unsubscribe_wildcard [OF assms True, of i] show ?thesis
  proof (elim disjE exE conjE)
    fix t' l
    assume t': "Trie_Unsubscribe f i t = Some (t', True)" "wf_trie t'" "foliage t' = foliage t"
      "leaf_at (sub_path (levels f)) f (root t) = Some l" and
      at: "\<forall>p g. leaf_at p g (root t') = (if g = f \<and> p = sub_path (levels f)
        then rem_leaf i l else leaf_at p g (root t))"
    have sub: "subscription t' g j = (if g = f \<and> j = i then None else subscription t g j)" for g j
      using True t'(3,4) by (simp add: subscription_def at)
    moreover have "ret_at (leaf_at p g (root t')) = ret_at (leaf_at p g (root t))" for p g
      using t'(4) by (auto simp: at)
    moreover have "synced t'" if "synced t" "\<not> ends_hash f"
    proof -
      have "sub_places (levels f) = {sub_path (levels f)}"
        using that(2) True by (simp add: ends_hash_def sub_places_def)
      with that(1) True t'(4) show ?thesis
        unfolding synced_def sub by (auto simp: at subscription_def)
    qed
    ultimately show ?thesis using t' True by (intro exI [of _ t'] exI [of _ True]) (auto simp: known_def)
  next
    assume "Trie_Unsubscribe f i t = Some (t, False)" "clean f \<longrightarrow> \<not> known t f"
    with True assms show ?thesis by (intro exI [of _ t] exI [of _ False]) simp
  qed
next
  case False
  from Unsubscribe_exact [OF assms False, of i] show ?thesis
  proof (elim disjE exE conjE)
    fix t' l
    assume t': "Trie_Unsubscribe f i t = Some (t', True)" "wf_trie t'" "root t' = root t"
      "map_of (foliage t) f = Some l" and
      fo: "\<forall>g. map_of (foliage t') g = (if g = f then rem_leaf i l else map_of (foliage t) g)"
    have sub: "subscription t' g j = (if g = f \<and> j = i then None else subscription t g j)" for g j
      using False t'(3,4) by (simp add: subscription_def fo)
    moreover have "ret_at (leaf_at p g (root t')) = ret_at (leaf_at p g (root t))" for p g
      by (simp add: t'(3))
    moreover have "synced t'" if "synced t"
      using that False unfolding synced_def sub t'(3) by auto
    ultimately show ?thesis using t' False by (intro exI [of _ t'] exI [of _ True]) (simp add: known_def)
  next
    assume "Trie_Unsubscribe f i t = Some (t, False)" "\<not> known t f"
    with False assms show ?thesis by (intro exI [of _ t] exI [of _ False]) simp
  qed
qed

section \<open>Who receives a message\<close>

text \<open>
  The matching of a filter against a topic, level by level: \<open>+\<close> stands for one level and \<open>#\<close> for any number
  of levels, none included. \<open>filter_match\<close> is what the storage makes of it: on the levels of the code, which
  drops a blank first level and trims the levels of a filter, and with no regard for topics that begin with \<open>$\<close>.
  How far this is MQTT's matching is in \<open>Topic_Receivers\<close>.
\<close>

fun mqtt_match :: "string list \<Rightarrow> string list \<Rightarrow> bool" where
  "mqtt_match [] keys \<longleftrightarrow> keys = []"
| "mqtt_match (n # p) keys \<longleftrightarrow>
     n = ''#'' \<and> p = [] \<or>
     n \<noteq> ''#'' \<and> (case keys of [] \<Rightarrow> False | k # ks \<Rightarrow> (n = ''+'' \<or> n = k) \<and> mqtt_match p ks)"

definition filter_match :: "string \<Rightarrow> string \<Rightarrow> bool" where
  "filter_match f topic \<longleftrightarrow>
     (if wildcard f then mqtt_match (sub_path (levels f)) (levels topic) else f = topic)"

text \<open>
  A path of the tree matches if the filter matches without \<open>#\<close> standing for nothing; the
  second place of a filter that ends in \<open>#\<close> adds that case.
\<close>

lemma mqtt_match_sub:
  "keys \<noteq> [] \<Longrightarrow> ''#'' \<notin> set (butlast p) \<Longrightarrow> mqtt_match p keys \<longleftrightarrow>
     sub_match p keys \<or> (p \<noteq> [] \<and> last p = ''#'' \<and> sub_match (butlast p) keys)"
proof (induction p arbitrary: keys)
  case (Cons n p)
  from Cons.prems(1) obtain k ks where keys: "keys = k # ks" by (cases keys) auto
  show ?case
  proof (cases "n = ''#''")
    case True
    then show ?thesis using Cons.prems(2) by (cases p) auto
  next
    case False
    show ?thesis
    proof (cases "ks = []")
      case True
      have "mqtt_match p [] \<longleftrightarrow> p = [] \<or> p = [''#'']" by (cases p) auto
      then show ?thesis using True False keys by (cases p) auto
    next
      case ks: False
      show ?thesis
      proof (cases p)
        case Nil
        then show ?thesis using ks False keys by simp
      next
        case (Cons m q)
        have "butlast (n # p) = n # butlast p" "last (n # p) = last p" by (simp_all add: Cons)
        with Cons.IH [OF ks] Cons.prems(2) ks False keys Cons show ?thesis by auto
      qed
    qed
  qed
qed simp

lemma mqtt_match_places:
  assumes "keys \<noteq> []"
  shows "mqtt_match (sub_path (levels f)) keys \<longleftrightarrow> (\<exists>p \<in> sub_places (levels f). sub_match p keys)"
  unfolding mqtt_match_sub [OF assms sub_path_hash] by (auto simp: sub_places_def)

lemma search_roots_set:
  assumes "list_all (\<lambda>(k, c). name c = k \<and> wf_branch c) bs" "keys \<noteq> []"
    and "\<forall>(k, c) \<in> set bs. \<forall>p g l. leaf_at p g c = Some l \<longrightarrow> k # p \<in> places g"
  shows "\<exists>cs. search_roots keys bs = Some cs \<and> set cs =
    {s. \<exists>k c p g i. (k, c) \<in> set bs \<and> sub_match (k # p) keys \<and> sub_at (leaf_at p g c) i = Some s}"
  using assms
proof (induction keys bs rule: search_roots.induct)
  case (2 keys k b bs)
  from "2.prems" have b: "wf_branch b" "name b = k" by auto
  from SearchLeaves_effect(1) [OF b(1) "2.prems"(2)] obtain m where
    m: "SearchLeaves keys b = Some m" "found keys b m" by blast
  have entry: "(g, l) \<in> set m \<longleftrightarrow> (\<exists>p. sub_match (k # p) keys \<and> leaf_at p g b = Some l)" for g l
  proof -
    have gm: "go_map m" using m(2) by (simp add: found_def)
    show ?thesis unfolding go_map_in_set [OF gm]
    proof
      assume "map_of m g = Some l"
      with m(2) show "\<exists>p. sub_match (k # p) keys \<and> leaf_at p g b = Some l"
        unfolding found_def b(2) by blast
    next
      assume "\<exists>p. sub_match (k # p) keys \<and> leaf_at p g b = Some l"
      then obtain p where p: "sub_match (k # p) keys" "leaf_at p g b = Some l" by blast
      with m(2) obtain l' where l': "map_of m g = Some l'" unfolding found_def b(2) by blast
      with m(2) obtain q where q: "sub_match (k # q) keys" "leaf_at q g b = Some l'"
        unfolding found_def b(2) by blast
      have "k # p \<in> places g" "k # q \<in> places g" using "2.prems"(3) p q by auto
      from places_unique [OF this p(1) q(1)] p(2) q(2) l' show "map_of m g = Some l" by simp
    qed
  qed
  have wfl: "wf_leaf l" if "(g, l) \<in> set m" for g l
    using that wf_default [OF b(1)] unfolding entry by (metis default_simps(2))
  have "set (concat (map (\<lambda>(_, leaf). map snd (Leaf_Subscribers leaf)) m)) =
      {s. \<exists>p g i. sub_match (k # p) keys \<and> sub_at (leaf_at p g b) i = Some s}" (is "?L = ?R")
  proof
    show "?L \<subseteq> ?R"
    proof
      fix s assume "s \<in> ?L"
      then obtain g l i where l: "(g, l) \<in> set m" "(i, s) \<in> set (subscribers l)"
        by (auto simp: Leaf_Subscribers_def)
      then have "map_of (subscribers l) i = Some s"
        using go_map_in_set wfl [OF l(1)] unfolding wf_leaf_def by metis
      with l(1) show "s \<in> ?R" unfolding entry by (auto simp del: sub_match.simps) (metis sub_at_simps(2))
    qed
    show "?R \<subseteq> ?L"
    proof
      fix s assume "s \<in> ?R"
      then obtain p g i where "sub_match (k # p) keys" "sub_at (leaf_at p g b) i = Some s" by blast
      with sub_at_Some obtain l where "(g, l) \<in> set m" "map_of (subscribers l) i = Some s"
        unfolding entry by metis
      then have "(g, l) \<in> set m" "(i, s) \<in> set (subscribers l)" by (auto dest: map_of_SomeD)
      then show "s \<in> ?L" by (force simp: Leaf_Subscribers_def)
    qed
  qed
  moreover have "list_all (\<lambda>(k, c). name c = k \<and> wf_branch c) bs" using "2.prems" by simp
  note IH = "2.IH" [OF m(1) this "2.prems"(2)]
  have "\<forall>(k, c) \<in> set bs. \<forall>p g l. leaf_at p g c = Some l \<longrightarrow> k # p \<in> places g"
    using "2.prems"(3) by (meson list.set_intros(2))
  from IH [OF this] obtain cs where
    "search_roots keys bs = Some cs" "set cs =
      {s. \<exists>k c p g i. (k, c) \<in> set bs \<and> sub_match (k # p) keys \<and> sub_at (leaf_at p g c) i = Some s}" by blast
  ultimately show ?case using m(1) by (simp del: sub_match.simps) blast
qed simp


lemma Subscribers_law:
  assumes "wf_trie t" "\<not> wildcard topic" "levels topic \<noteq> []"
  shows "\<exists>cs. Trie_Subscribers topic t = Some cs \<and> set cs =
    {c. \<exists>i. subscription t topic i = Some c} \<union>
    {c. \<exists>p f i. sub_match p (levels topic) \<and> sub_at (leaf_at p f (root t)) i = Some c}"
proof -
  note wf = wf_trieD(1) [OF assms(1)]
  have pl: "\<forall>(k, c) \<in> set (branches (root t)). \<forall>p g l. leaf_at p g c = Some l \<longrightarrow> k # p \<in> places g"
  proof (intro ballI, clarify)
    fix k c p g l assume "(k, c) \<in> set (branches (root t))" "leaf_at p g c = Some l"
    with wf_branchD(6) [OF wf] have "leaf_at (k # p) g (root t) = Some l" by simp
    then show "k # p \<in> places g" by (rule wf_trieD(6) [OF assms(1)])
  qed
  from search_roots_set [OF wf_children [OF wf] assms(3) pl] obtain cs where
    cs: "search_roots (levels topic) (branches (root t)) = Some cs" "set cs = {s. \<exists>k c p g i.
      (k, c) \<in> set (branches (root t)) \<and> sub_match (k # p) (levels topic) \<and>
      sub_at (leaf_at p g c) i = Some s}" by blast
  have tree: "set cs = {c. \<exists>p f i. sub_match p (levels topic) \<and> sub_at (leaf_at p f (root t)) i = Some c}"
    (is "_ = ?R")
  proof (intro set_eqI iffI)
    fix s assume "s \<in> set cs"
    then obtain k c p g i where "(k, c) \<in> set (branches (root t))" "sub_match (k # p) (levels topic)"
      "sub_at (leaf_at p g c) i = Some s" unfolding cs(2) by blast
    with wf_branchD(6) [OF wf] show "s \<in> ?R"
      by (intro CollectI exI [of _ "k # p"]) (auto simp del: sub_match.simps)
  next
    fix s assume "s \<in> ?R"
    then obtain p g i where p: "sub_match p (levels topic)" "sub_at (leaf_at p g (root t)) i = Some s" by blast
    then obtain k q where q: "p = k # q" by (cases p) auto
    with p(2) obtain c where "map_of (branches (root t)) k = Some c" "sub_at (leaf_at q g c) i = Some s"
      by (auto split: option.splits)
    with p(1) q show "s \<in> set cs" unfolding cs(2) by (blast dest: map_of_SomeD)
  qed
  let ?exact = "case map_of (foliage t) topic of None \<Rightarrow> [] | Some l \<Rightarrow> map snd (Leaf_Subscribers l)"
  have "set ?exact = {c. \<exists>i. subscription t topic i = Some c}"
  proof (cases "map_of (foliage t) topic")
    case (Some l)
    then have "go_map (subscribers l)" using wf_trieD(3) [OF assms(1)] by (simp add: wf_leaf_def)
    from go_map_in_set [OF this] show ?thesis
      using assms(2) Some by (force simp: Leaf_Subscribers_def subscription_def)
  qed (simp add: assms(2) subscription_def)
  with tree cs(1) assms(2) show ?thesis by (simp add: Trie_Subscribers_def Let_def)
qed

text \<open>With both copies in step, a message goes to exactly the holders of a matching filter.\<close>

lemma Subscribers_synced:
  assumes "wf_trie t" "synced t" "\<not> wildcard topic" "levels topic \<noteq> []"
  shows "\<exists>cs. Trie_Subscribers topic t = Some cs \<and>
    set cs = {c. \<exists>f i. filter_match f topic \<and> subscription t f i = Some c}"
proof -
  have "(\<exists>p f i. sub_match p (levels topic) \<and> sub_at (leaf_at p f (root t)) i = Some c) \<longleftrightarrow>
      (\<exists>f i. wildcard f \<and> filter_match f topic \<and> subscription t f i = Some c)" (is "?L \<longleftrightarrow> ?R") for c
  proof
    assume ?L
    then obtain p f i where p: "sub_match p (levels topic)" "sub_at (leaf_at p f (root t)) i = Some c" by blast
    then obtain l where l: "leaf_at p f (root t) = Some l" "map_of (subscribers l) i = Some c"
      using sub_at_Some by metis
    then have "subscribers l \<noteq> []" by auto
    with wf_trieD(7,8) [OF assms(1) l(1)] have w: "wildcard f" "p \<in> sub_places (levels f)" by blast+
    with p assms(2) have "subscription t f i = Some c" unfolding synced_def by metis
    moreover have "filter_match f topic"
      unfolding filter_match_def mqtt_match_places [OF assms(4)] using w p(1) by auto
    ultimately show ?R using w(1) by blast
  next
    assume ?R
    then obtain f i where f: "wildcard f" "filter_match f topic" "subscription t f i = Some c" by blast
    then obtain p where "p \<in> sub_places (levels f)" "sub_match p (levels topic)"
      using mqtt_match_places [OF assms(4)] unfolding filter_match_def by auto
    with f assms(2) show ?L unfolding synced_def by metis
  qed
  then have "{c. \<exists>i. subscription t topic i = Some c} \<union>
      {c. \<exists>p f i. sub_match p (levels topic) \<and> sub_at (leaf_at p f (root t)) i = Some c} =
    {c. \<exists>f i. filter_match f topic \<and> subscription t f i = Some c}"
    using assms(3) by (auto simp: filter_match_def)
  with Subscribers_law [OF assms(1,3,4)] show ?thesis by simp
qed

section \<open>Retained packets\<close>

lemma retain_places: "map TrimSpace (levels f) \<in> places f"
  by (simp add: places_def)

lemma AddRetain_copies:
  assumes "wf_trie t" "levels f \<noteq> []"
  shows "\<exists>t'. Trie_AddRetain f r t = Some (t', retained_packet t f \<noteq> None) \<and> wf_trie t' \<and>
    (\<forall>g. retained_packet t' g = (if g = f then Some r else retained_packet t g)) \<and>
    (\<forall>g j. subscription t' g j = subscription t g j) \<and> (synced t \<longrightarrow> synced t') \<and>
    (\<forall>p g j. sub_at (leaf_at p g (root t')) j = sub_at (leaf_at p g (root t)) j)"
proof -
  from AddRetain_effect [OF wf_trieD(1) [OF assms(1)] assms(2), of f "Some r"] obtain b' where
    b': "AddRetain f (levels f) (Some r) (root t) =
      Some (b', retained (leaf_at (map TrimSpace (levels f)) f (root t)))" "wf_branch b'" and
    at: "\<And>p g. leaf_at p g b' = (if g = f \<and> p = map TrimSpace (levels f)
        then Some (ret_leaf (Some r) (leaf_at p f (root t))) else leaf_at p g (root t))" by blast
  have "wf_trie (t\<lparr>root := b'\<rparr>)"
  proof (rule wf_trie_root [OF assms(1) b'(2)])
    fix p g l assume l: "leaf_at p g b' = Some l"
    have "subscribers (ret_leaf x (leaf_at p f (root t))) =
        subscribers (default_leaf (leaf_at p f (root t)))" for x by (simp add: ret_leaf_def)
    then show "p \<in> places g \<and> (\<not> wildcard g \<or> p \<notin> sub_places (levels g) \<longrightarrow> subscribers l = []) \<and>
        (p \<noteq> map TrimSpace (levels g) \<longrightarrow> retain l = None)"
      using l assms(1) unfolding at
      by (cases "leaf_at p f (root t)")
        (auto simp: retain_places NewLeaf_def dest: wf_trieD split: if_splits)
  qed
  moreover have "sub_at (leaf_at p g b') j = sub_at (leaf_at p g (root t)) j" for p g j
    by (simp add: at)
  ultimately show ?thesis
    using b'(1) by (intro exI [of _ "t\<lparr>root := b'\<rparr>"])
      (simp add: Trie_AddRetain_def retained_packet_def retained_iff at subscription_def synced_def)
qed

lemma AddRetain_law:
  assumes "wf_trie t" "levels f \<noteq> []"
  shows "\<exists>t'. Trie_AddRetain f r t = Some (t', retained_packet t f \<noteq> None) \<and> wf_trie t' \<and>
    (\<forall>g. retained_packet t' g = (if g = f then Some r else retained_packet t g)) \<and>
    (\<forall>g j. subscription t' g j = subscription t g j) \<and> (synced t \<longrightarrow> synced t')"
  using AddRetain_copies [OF assms, of r] by (elim exE conjE) (intro exI conjI; assumption)

lemma RemoveRetain_copies:
  assumes "wf_trie t" "levels f \<noteq> []"
  shows "\<exists>t' e. Trie_RemoveRetain f t = Some (t', e) \<and> wf_trie t' \<and>
    (\<forall>g j. subscription t' g j = subscription t g j) \<and> (synced t \<longrightarrow> synced t') \<and>
    (\<forall>p g j. sub_at (leaf_at p g (root t')) j = sub_at (leaf_at p g (root t)) j) \<and>
    (e \<longrightarrow> (\<exists>h. (levels f \<in> places h) \<and> (\<exists>l. leaf_at (levels f) h (root t) = Some l \<and> retain l \<noteq> None) \<and>
       (\<forall>p g. ret_at (leaf_at p g (root t')) =
          (if g = h \<and> p = levels f then None else ret_at (leaf_at p g (root t)))))) \<and>
    (\<not> e \<longrightarrow> t' = t \<and> (\<forall>g. ret_at (leaf_at (levels f) g (root t)) = None))"
proof -
  note wf = wf_trieD(1) [OF assms(1)]
  from RemoveRetain_effect(2) [OF wf_children [OF wf] assms(2)] show ?thesis
  proof (elim disjE exE conjE)
    fix k c c' p
    assume c: "(k, c) \<in> set (branches (root t))" "k # p = levels f"
      "remove_retain_branches (levels f) (branches (root t)) = Some (Some (k, c'))" "unretained p c c'"
    let ?r = "put_branch k c' (root t)"
    from unretained_child [OF wf wf_branchD(6) [OF wf c(1)] c(4)]
    obtain h l where r: "wf_branch ?r" "leaf_at (levels f) h (root t) = Some l" "retain l \<noteq> None" and
      at: "\<And>q g. leaf_at q g ?r = (if q = levels f \<and> g = h then Some (l\<lparr>retain := None\<rparr>)
        else leaf_at q g (root t))"
      unfolding unretained_def c(2) by blast
    have "wf_trie (t\<lparr>root := ?r\<rparr>)"
      using r(2) assms(1) by (intro wf_trie_root [OF assms(1) r(1)])
        (auto simp: at dest: wf_trieD split: if_splits)
    moreover have "sub_at (leaf_at q g ?r) j = sub_at (leaf_at q g (root t)) j" for q g j
      using r(2) by (simp add: at)
    moreover have "ret_at (leaf_at q g ?r) =
        (if g = h \<and> q = levels f then None else ret_at (leaf_at q g (root t)))" for q g
      by (simp add: at)
    moreover have "levels f \<in> places h" using r(2) by (rule wf_trieD(6) [OF assms(1)])
    ultimately show ?thesis
      using c(3) r(2,3) by (intro exI [of _ "t\<lparr>root := ?r\<rparr>"] exI [of _ True])
        (auto simp: Trie_RemoveRetain_def put_branch_def subscription_def synced_def)
  next
    assume no: "remove_retain_branches (levels f) (branches (root t)) = Some None"
      "\<forall>(k, c) \<in> set (branches (root t)). \<forall>p g. k # p = levels f \<longrightarrow> \<not> retained (leaf_at p g c)"
    obtain k p where kp: "levels f = k # p" using assms(2) by (cases "levels f") auto
    have "ret_at (leaf_at (levels f) g (root t)) = None" for g
    proof (cases "map_of (branches (root t)) k")
      case (Some c)
      with no(2) kp have "\<not> retained (leaf_at p g c)" by (auto dest: map_of_SomeD)
      with Some kp show ?thesis by (simp add: retained_iff)
    qed (simp add: kp)
    with no(1) assms(1) show ?thesis
      by (intro exI [of _ t] exI [of _ False]) (simp add: Trie_RemoveRetain_def)
  qed
qed

lemma RemoveRetain_law:
  assumes "wf_trie t" "levels f \<noteq> []"
  shows "\<exists>t' e. Trie_RemoveRetain f t = Some (t', e) \<and> wf_trie t' \<and>
    (\<forall>g j. subscription t' g j = subscription t g j) \<and> (synced t \<longrightarrow> synced t') \<and>
    (e \<longrightarrow> (\<exists>h. (levels f \<in> places h) \<and> (\<exists>l. leaf_at (levels f) h (root t) = Some l \<and> retain l \<noteq> None) \<and>
       (\<forall>p g. ret_at (leaf_at p g (root t')) =
          (if g = h \<and> p = levels f then None else ret_at (leaf_at p g (root t)))))) \<and>
    (\<not> e \<longrightarrow> t' = t \<and> (\<forall>g. ret_at (leaf_at (levels f) g (root t)) = None))"
  using RemoveRetain_copies [OF assms] by (elim exE conjE) (intro exI conjI; assumption)

lemma SearchRetain_law:
  assumes "wf_trie t" "levels f \<noteq> []"
  shows "\<exists>rs. Trie_SearchRetain f t = Some rs \<and>
    set rs = {r. \<exists>p g. ret_match p (levels f) \<and> ret_at (leaf_at p g (root t)) = Some r}"
proof -
  note wf = wf_trieD(1) [OF assms(1)]
  have ret: "ret_at l = Some r \<longleftrightarrow> (\<exists>l'. l = Some l' \<and> retain l' = Some r)" for l r
    by (cases l) simp_all
  from SearchRetain_set(2) [OF wf_children [OF wf] assms(2)] obtain rs where
    rs: "search_retain_branches (levels f) (branches (root t)) = Some rs"
    "set rs = (\<Union>(k, c) \<in> set (branches (root t)). retained_at (\<lambda>p. ret_match (k # p) (levels f)) c)"
    by blast
  have "retained_at (\<lambda>p. p = [] \<and> ret_match [] (levels f)) (root t) = {}"
    by (simp add: retained_at_def)
  with rs(2) have "set rs = retained_at (\<lambda>p. ret_match p (levels f)) (root t)"
    using retained_at_split [OF wf, of "\<lambda>p. ret_match p (levels f)"] by simp
  with rs(1) show ?thesis
    by (auto simp: Trie_SearchRetain_def retained_at_def ret simp del: ret_match.simps)
qed

lemma retained_packet_only:
  assumes "wf_trie t"
  shows "ret_at (leaf_at p f (root t)) = Some r \<longleftrightarrow>
    p = map TrimSpace (levels f) \<and> retained_packet t f = Some r"
  using wf_trie_ret [OF assms, of p f]
  by (cases "p = map TrimSpace (levels f)") (simp_all add: retained_packet_def)

text \<open>The packets that a subscription to a filter delivers.\<close>

definition retained_by :: "('c, 'p) Trie \<Rightarrow> string \<Rightarrow> 'p set" where
  "retained_by t f = {r. \<exists>h. ret_match (map TrimSpace (levels h)) (levels f) \<and> retained_packet t h = Some r}"

lemma SearchRetain_retained:
  assumes "wf_trie t" "Trie_SearchRetain f t = Some rs"
  shows "set rs = retained_by t f"
proof (cases "levels f = []")
  case True
  have "search_retain_branches [] bs = Some rs \<Longrightarrow> rs = []" for bs
  proof (cases bs)
    case (Cons b bs')
    obtain k n ls cs where "b = (k, Branch n ls cs)" by (metis Branch.exhaust surj_pair)
    with Cons show "search_retain_branches [] bs = Some rs \<Longrightarrow> rs = []" by simp
  qed simp
  with True assms(2) show ?thesis by (simp add: Trie_SearchRetain_def retained_by_def)
next
  case False
  from SearchRetain_law [OF assms(1) this] assms(2) show ?thesis
    unfolding retained_packet_only [OF assms(1)] by (auto simp: retained_by_def)
qed

section \<open>The interface of a topic storage\<close>

text \<open>
  What a client of \<open>ifs.TopicStorage\<close> relies on, over any state \<open>'s\<close>: subscribing and
  unsubscribing never fail and change the one entry they name, and \<open>subs\<close> returns the
  subscribers that hold a matching filter. \<open>removable\<close> and \<open>topic\<close> say for which filters and
  topics the laws are promised.
\<close>

locale topic_storage =
  fixes inv :: "'s \<Rightarrow> bool"
    and subscribe :: "string \<Rightarrow> string \<Rightarrow> 'c \<Rightarrow> 's \<Rightarrow> ('s \<times> bool) option"
    and unsubscribe :: "string \<Rightarrow> string \<Rightarrow> 's \<Rightarrow> ('s \<times> bool) option"
    and subs :: "string \<Rightarrow> 's \<Rightarrow> 'c list option"
    and holds :: "'s \<Rightarrow> string \<Rightarrow> string \<Rightarrow> 'c option"
    and matches :: "string \<Rightarrow> string \<Rightarrow> bool"
    and removable :: "string \<Rightarrow> bool"
    and topic :: "string \<Rightarrow> bool"
  assumes subscribe_law: "inv s \<Longrightarrow> \<exists>s'. subscribe f i c s = Some (s', holds s f i \<noteq> None) \<and> inv s' \<and>
      (\<forall>g j. holds s' g j = (if g = f \<and> j = i then Some c else holds s g j))"
    and unsubscribe_law: "inv s \<Longrightarrow> removable f \<Longrightarrow> \<exists>s' e. unsubscribe f i s = Some (s', e) \<and> inv s' \<and>
      (\<forall>g j. holds s' g j = (if g = f \<and> j = i then None else holds s g j))"
    and subs_law: "inv s \<Longrightarrow> topic f \<Longrightarrow> \<exists>cs. subs f s = Some cs \<and>
      set cs = {c. \<exists>g i. matches g f \<and> holds s g i = Some c}"
begin

lemma subscribed_receives:
  assumes "inv s" "topic f" "matches g f"
  shows "\<exists>s' e cs. subscribe g i c s = Some (s', e) \<and> inv s' \<and> subs f s' = Some cs \<and> c \<in> set cs"
proof -
  from subscribe_law [OF assms(1), of g i c] obtain s' where
    s': "subscribe g i c s = Some (s', holds s g i \<noteq> None)" "inv s'" and
    h: "\<forall>h j. holds s' h j = (if h = g \<and> j = i then Some c else holds s h j)" by blast
  moreover from subs_law [OF s'(2) assms(2)] obtain cs where
    "subs f s' = Some cs" "set cs = {c. \<exists>g i. matches g f \<and> holds s' g i = Some c}" by blast
  ultimately show ?thesis using assms(3) by fastforce
qed

lemma unmatched_unchanged:
  assumes "inv s" "topic f" "\<not> matches g f"
  shows "\<exists>s' e cs cs'. subscribe g i c s = Some (s', e) \<and> inv s' \<and>
    subs f s = Some cs \<and> subs f s' = Some cs' \<and> set cs' = set cs"
proof -
  from subscribe_law [OF assms(1), of g i c] obtain s' where
    s': "subscribe g i c s = Some (s', holds s g i \<noteq> None)" "inv s'" and
    h: "\<forall>h j. holds s' h j = (if h = g \<and> j = i then Some c else holds s h j)" by blast
  from subs_law [OF s'(2) assms(2)] subs_law [OF assms(1,2)] obtain cs cs' where
    "subs f s = Some cs" "set cs = {c. \<exists>g i. matches g f \<and> holds s g i = Some c}"
    "subs f s' = Some cs'" "set cs' = {c. \<exists>g i. matches g f \<and> holds s' g i = Some c}" by blast
  moreover from this have "set cs' = set cs" using h assms(3) by auto
  ultimately show ?thesis using s' by blast
qed

end

text \<open>A sequence of requests, run on a storage and on the plain map it stands for.\<close>

datatype 'c storage_op = Sub string string 'c | Unsub string string

fun history :: "'c storage_op list \<Rightarrow> (string \<times> string \<Rightarrow> 'c option) \<Rightarrow> (string \<times> string \<Rightarrow> 'c option)" where
  "history [] m = m"
| "history (Sub f i c # ops) m = history ops (m((f, i) \<mapsto> c))"
| "history (Unsub f i # ops) m = history ops (m((f, i) := None))"

fun run_storage ::
  "(string \<Rightarrow> string \<Rightarrow> 'c \<Rightarrow> 's \<Rightarrow> ('s \<times> bool) option) \<Rightarrow> (string \<Rightarrow> string \<Rightarrow> 's \<Rightarrow> ('s \<times> bool) option) \<Rightarrow>
     'c storage_op list \<Rightarrow> 's \<Rightarrow> 's option" where
  "run_storage sub unsub [] s = Some s"
| "run_storage sub unsub (Sub f i c # ops) s =
     do { (s, _) \<leftarrow> sub f i c s; run_storage sub unsub ops s }"
| "run_storage sub unsub (Unsub f i # ops) s =
     do { (s, _) \<leftarrow> unsub f i s; run_storage sub unsub ops s }"

fun op_ok :: "(string \<Rightarrow> bool) \<Rightarrow> 'c storage_op \<Rightarrow> bool" where
  "op_ok P (Sub f i c) = True"
| "op_ok P (Unsub f i) = P f"

context topic_storage begin

lemma run_history:
  "inv s \<Longrightarrow> list_all (op_ok removable) ops \<Longrightarrow> (\<And>f i. holds s f i = m (f, i)) \<Longrightarrow>
     \<exists>s'. run_storage subscribe unsubscribe ops s = Some s' \<and> inv s' \<and>
       (\<forall>f i. holds s' f i = history ops m (f, i))"
proof (induction ops arbitrary: s m)
  case (Cons oper ops)
  show ?case
  proof (cases oper)
    case (Sub f i c)
    from subscribe_law [OF Cons.prems(1), of f i c] obtain s' where
      s': "subscribe f i c s = Some (s', holds s f i \<noteq> None)" "inv s'" and
      h: "\<forall>g j. holds s' g j = (if g = f \<and> j = i then Some c else holds s g j)" by blast
    have "holds s' g j = (m((f, i) \<mapsto> c)) (g, j)" for g j using h Cons.prems(3) by simp
    note IH = Cons.IH [OF s'(2) _ this]
    have "run_storage subscribe unsubscribe (oper # ops) s = run_storage subscribe unsubscribe ops s'"
      "history (oper # ops) m = history ops (m((f, i) \<mapsto> c))" "list_all (op_ok removable) ops"
      using Cons.prems(2) s'(1) Sub by simp_all
    with IH show ?thesis by metis
  next
    case (Unsub f i)
    with Cons.prems(2) have "removable f" by simp
    from unsubscribe_law [OF Cons.prems(1) this, of i] obtain s' e where
      s': "unsubscribe f i s = Some (s', e)" "inv s'" and
      h: "\<forall>g j. holds s' g j = (if g = f \<and> j = i then None else holds s g j)" by blast
    have "holds s' g j = (m((f, i) := None)) (g, j)" for g j using h Cons.prems(3) by simp
    note IH = Cons.IH [OF s'(2) _ this]
    have "run_storage subscribe unsubscribe (oper # ops) s = run_storage subscribe unsubscribe ops s'"
      "history (oper # ops) m = history ops (m((f, i) := None))" "list_all (op_ok removable) ops"
      using Cons.prems(2) s'(1) Unsub by simp_all
    with IH show ?thesis by metis
  qed
qed simp

lemma history_delivers:
  assumes "inv s" "list_all (op_ok removable) ops" "\<And>f i. holds s f i = m (f, i)" "topic f"
  shows "\<exists>s' cs. run_storage subscribe unsubscribe ops s = Some s' \<and> subs f s' = Some cs \<and>
    set cs = {c. \<exists>g i. matches g f \<and> history ops m (g, i) = Some c}"
proof -
  from run_history [OF assms(1,2,3)] obtain s' where
    "run_storage subscribe unsubscribe ops s = Some s'" "inv s'"
    "\<forall>f i. holds s' f i = history ops m (f, i)" by blast
  with subs_law [OF _ assms(4), of s'] show ?thesis by auto
qed

end

text \<open>
  The trie keeps the interface for every filter but those that end in \<open>#\<close> or carry white
  space around a level.
\<close>

definition removable_filter :: "string \<Rightarrow> bool" where
  "removable_filter f \<longleftrightarrow> \<not> wildcard f \<or> clean f \<and> \<not> ends_hash f"

definition publishable :: "string \<Rightarrow> bool" where
  "publishable topic \<longleftrightarrow> \<not> wildcard topic \<and> levels topic \<noteq> []"

definition good_trie :: "('c, 'p) Trie \<Rightarrow> bool" where
  "good_trie t \<longleftrightarrow> wf_trie t \<and> synced t"

interpretation trie_storage: topic_storage good_trie Trie_Subscribe Trie_Unsubscribe
  Trie_Subscribers subscription filter_match removable_filter publishable
proof
  fix s :: "('c, 'p) Trie" and f i c
  assume "good_trie s"
  then show "\<exists>s'. Trie_Subscribe f i c s = Some (s', subscription s f i \<noteq> None) \<and> good_trie s' \<and>
      (\<forall>g j. subscription s' g j = (if g = f \<and> j = i then Some c else subscription s g j))"
    using Subscribe_law [of s f i c] unfolding good_trie_def by blast
next
  fix s :: "('c, 'p) Trie" and f i
  assume s: "good_trie s" "removable_filter f"
  then have ok: "clean f \<or> \<not> wildcard f" "\<not> ends_hash f"
    by (auto simp: removable_filter_def ends_hash_def)
  from Unsubscribe_law [of s f i] s(1) obtain s' e where
    s': "Trie_Unsubscribe f i s = Some (s', e)" "wf_trie s'" and
    e: "e \<longrightarrow> (\<forall>g j. subscription s' g j = (if g = f \<and> j = i then None else subscription s g j))"
      "\<not> e \<longrightarrow> s' = s \<and> (clean f \<or> \<not> wildcard f \<longrightarrow> \<not> known s f)"
      "synced s \<and> \<not> ends_hash f \<longrightarrow> synced s'"
    unfolding good_trie_def by blast
  have "\<not> known s f \<Longrightarrow> subscription s f i = None" using subscription_known by blast
  then have "\<forall>g j. subscription s' g j = (if g = f \<and> j = i then None else subscription s g j)"
    using e(1,2) ok(1) by (cases e) auto
  with s' e(3) ok(2) s(1) show "\<exists>s' e. Trie_Unsubscribe f i s = Some (s', e) \<and> good_trie s' \<and>
      (\<forall>g j. subscription s' g j = (if g = f \<and> j = i then None else subscription s g j))"
    unfolding good_trie_def by blast
next
  fix s :: "('c, 'p) Trie" and f
  assume "good_trie s" "publishable f"
  then show "\<exists>cs. Trie_Subscribers f s = Some cs \<and>
      set cs = {c. \<exists>g i. filter_match g f \<and> subscription s g i = Some c}"
    using Subscribers_synced [of s f] unfolding good_trie_def publishable_def by blast
qed

lemma good_NewTrie: "good_trie NewTrie"
  by (simp add: good_trie_def wf_NewTrie synced_NewTrie)

end
