(* ===== verification/Topic_Receivers.thy ===== *)
theory Topic_Receivers
  imports Topic_Storage
begin

text \<open>
  Who receives a message from a storage in any state it can get into. A filter that ends in \<open>#\<close> is
  stored twice, and \<open>Unsubscribe\<close> removes one of the copies; \<open>receivers\<close> are the subscribers at every place that is searched,
  \<open>leftovers\<close> those that no subscription accounts for any more. And how the matching of the storage differs from MQTT's.
\<close>

section \<open>Every copy of a subscription\<close>

definition copy_at :: "('c, 'p) Trie \<Rightarrow> string list \<Rightarrow> string \<Rightarrow> string \<Rightarrow> 'c option" where
  "copy_at t p f i = sub_at (leaf_at p f (root t)) i"

definition receivers :: "('c, 'p) Trie \<Rightarrow> string \<Rightarrow> 'c set" where
  "receivers t topic =
     {c. \<exists>i. subscription t topic i = Some c} \<union>
     {c. \<exists>p f i. sub_match p (levels topic) \<and> copy_at t p f i = Some c}"

lemma copy_at_exact:
  assumes "wf_trie t" "\<not> wildcard f"
  shows "copy_at t p f i = None"
proof (cases "leaf_at p f (root t)")
  case (Some l)
  with wf_trieD(7) [OF assms(1) Some assms(2)] show ?thesis by (simp add: copy_at_def)
qed (simp add: copy_at_def)

lemma copy_at_place:
  assumes "wf_trie t" "copy_at t p f i = Some c"
  shows "wildcard f" "p \<in> sub_places (levels f)"
proof -
  obtain l where l: "leaf_at p f (root t) = Some l" "map_of (subscribers l) i = Some c"
    using sub_at_Some [OF assms(2) [unfolded copy_at_def]] by blast
  then have "subscribers l \<noteq> []" by auto
  with wf_trieD(7,8) [OF assms(1) l(1)] show "wildcard f" "p \<in> sub_places (levels f)" by blast+
qed

lemma copy_at_main: "wildcard f \<Longrightarrow> copy_at t (sub_path (levels f)) f i = subscription t f i"
  by (simp add: copy_at_def subscription_def)

lemma Subscribe_copies:
  assumes "wf_trie t" "Trie_Subscribe f i c t = Some (t', e)"
  shows "wf_trie t'" "subscription t' g j = (if g = f \<and> j = i then Some c else subscription t g j)"
    "copy_at t' p g j = (if g = f \<and> j = i \<and> wildcard f \<and> p \<in> sub_places (levels f) then Some c else copy_at t p g j)"
proof -
  from Subscribe_law [OF assms(1), of f i c] assms(2)
  show "wf_trie t'" "subscription t' g j = (if g = f \<and> j = i then Some c else subscription t g j)" by auto
  show "copy_at t' p g j = (if g = f \<and> j = i \<and> wildcard f \<and> p \<in> sub_places (levels f) then Some c else copy_at t p g j)"
  proof (cases "wildcard f")
    case True
    with Subscribe_wildcard [OF assms(1) True, of i c] assms(2) show ?thesis by (auto simp: copy_at_def)
  next
    case False
    with Subscribe_exact [OF assms(1) False, of i c] assms(2) show ?thesis by (auto simp: copy_at_def)
  qed
qed

lemma Unsubscribe_copies:
  assumes "wf_trie t"
  shows "\<exists>t'. Trie_Unsubscribe f i t = Some (t', known t f \<and> findable f) \<and> wf_trie t' \<and>
    (\<forall>g j. subscription t' g j = (if g = f \<and> j = i \<and> findable f then None else subscription t g j)) \<and>
    (\<forall>p g j. copy_at t' p g j =
      (if g = f \<and> j = i \<and> findable f \<and> p = sub_path (levels f) then None else copy_at t p g j)) \<and>
    (\<forall>p g. ret_at (leaf_at p g (root t')) = ret_at (leaf_at p g (root t)))"
proof (cases "wildcard f")
  case True
  from Unsubscribe_found [OF assms True, of i] show ?thesis
  proof (elim disjE exE conjE)
    fix t' l
    assume t': "Trie_Unsubscribe f i t = Some (t', True)" "wf_trie t'" "foliage t' = foliage t" "findable f"
      "leaf_at (sub_path (levels f)) f (root t) = Some l" and
      at: "\<forall>p g. leaf_at p g (root t') = (if g = f \<and> p = sub_path (levels f) then rem_leaf i l else leaf_at p g (root t))"
    have "known t f" using True t'(5) by (simp add: known_def)
    moreover have "subscription t' g j = (if g = f \<and> j = i then None else subscription t g j)" for g j
      using True t'(3,5) by (simp add: subscription_def at)
    moreover have "copy_at t' p g j = (if g = f \<and> j = i \<and> p = sub_path (levels f) then None else copy_at t p g j)" for p g j
      using t'(5) by (auto simp: copy_at_def at)
    moreover have "ret_at (leaf_at p g (root t')) = ret_at (leaf_at p g (root t))" for p g
      using t'(5) by (auto simp: at)
    ultimately show ?thesis using t' by (intro exI [of _ t']) auto
  next
    assume "Trie_Unsubscribe f i t = Some (t, False)" "findable f \<longrightarrow> \<not> known t f"
    moreover have "subscription t f i = None" if "\<not> known t f"
      using that subscription_known by blast
    moreover from this have "copy_at t (sub_path (levels f)) f i = None" if "\<not> known t f"
      using that copy_at_main [OF True] by metis
    ultimately show ?thesis using assms by (intro exI [of _ t]) auto
  qed
next
  case False
  then have f: "findable f" by (simp add: findable_def)
  note none = copy_at_exact [OF assms False]
  from Unsubscribe_exact [OF assms False, of i] show ?thesis
  proof (elim disjE exE conjE)
    fix t' l
    assume t': "Trie_Unsubscribe f i t = Some (t', True)" "wf_trie t'" "root t' = root t"
      "map_of (foliage t) f = Some l" and
      fo: "\<forall>g. map_of (foliage t') g = (if g = f then rem_leaf i l else map_of (foliage t) g)"
    have "known t f" using False t'(4) by (simp add: known_def)
    moreover have "subscription t' g j = (if g = f \<and> j = i then None else subscription t g j)" for g j
      using False t'(3,4) by (simp add: subscription_def fo)
    moreover have "copy_at t' p g j = copy_at t p g j" for p g j by (simp add: copy_at_def t'(3))
    ultimately show ?thesis using t' f none by (intro exI [of _ t']) auto
  next
    assume no: "Trie_Unsubscribe f i t = Some (t, False)" "\<not> known t f"
    then have "subscription t f i = None" using subscription_known by blast
    with no f none assms show ?thesis by (intro exI [of _ t]) auto
  qed
qed

lemma Subscribers_receivers:
  "wf_trie t \<Longrightarrow> publishable topic \<Longrightarrow> \<exists>cs. Trie_Subscribers topic t = Some cs \<and> set cs = receivers t topic"
  using Subscribers_law [of t topic] by (simp add: receivers_def copy_at_def publishable_def)

lemma receivers_synced:
  assumes "wf_trie t" "synced t" "publishable topic"
  shows "receivers t topic = {c. \<exists>f i. filter_match f topic \<and> subscription t f i = Some c}"
proof -
  obtain cs where "Trie_Subscribers topic t = Some cs" "set cs = receivers t topic"
    using Subscribers_receivers [OF assms(1,3)] by blast
  moreover have "\<not> wildcard topic" "levels topic \<noteq> []" using assms(3) by (auto simp: publishable_def)
  note Subscribers_synced [OF assms(1,2) this]
  ultimately show ?thesis by auto
qed

section \<open>What the operations build\<close>

inductive built :: "('c, 'p) Trie \<Rightarrow> bool" where
  new: "built NewTrie"
| subscribe: "built t \<Longrightarrow> Trie_Subscribe f i c t = Some (t', e) \<Longrightarrow> built t'"
| unsubscribe: "built t \<Longrightarrow> Trie_Unsubscribe f i t = Some (t', e) \<Longrightarrow> built t'"
| add_retain: "built t \<Longrightarrow> Trie_AddRetain f r t = Some (t', e) \<Longrightarrow> built t'"
| remove_retain: "built t \<Longrightarrow> Trie_RemoveRetain f t = Some (t', e) \<Longrightarrow> built t'"

text \<open>A subscription is at all its places; only the other way round a copy may be left.\<close>

definition kept_up :: "('c, 'p) Trie \<Rightarrow> bool" where
  "kept_up t \<longleftrightarrow> (\<forall>f i c p. wildcard f \<and> subscription t f i = Some c \<and> p \<in> sub_places (levels f) \<longrightarrow>
     copy_at t p f i = Some c)"

lemma retain_blank:
  assumes "levels f = []"
  shows "Trie_AddRetain f r t = None"
    "Trie_RemoveRetain f t = (if branches (root t) = [] then Some (t, False) else None)"
proof -
  show "Trie_AddRetain f r t = None" using assms by (cases "root t") (simp add: Trie_AddRetain_def)
  have "RemoveRetain [] b = None" for b :: "('a, 'b) Branch" by (cases b) simp
  then have "remove_retain_branches [] bs = (if bs = [] then Some None else None)" for bs :: "(string \<times> ('a, 'b) Branch) list"
    by (cases bs) auto
  then show "Trie_RemoveRetain f t = (if branches (root t) = [] then Some (t, False) else None)"
    using assms by (simp add: Trie_RemoveRetain_def)
qed

lemma built_law: "built t \<Longrightarrow> wf_trie t \<and> kept_up t"
proof (induction rule: built.induct)
  case new
  show ?case by (simp add: wf_NewTrie kept_up_def subscription_NewTrie)
next
  case (subscribe t f i c t' e)
  with Subscribe_copies [of t f i c t' e] show ?case by (auto simp: kept_up_def)
next
  case (unsubscribe t f i t' e)
  with Unsubscribe_copies [of t f i] show ?case by (auto simp: kept_up_def)
next
  case (add_retain t f r t' e)
  then have "levels f \<noteq> []" using retain_blank(1) [of f r t] by auto
  with add_retain AddRetain_copies [of t f r] show ?case by (auto simp: kept_up_def copy_at_def)
next
  case (remove_retain t f t' e)
  show ?case
  proof (cases "levels f = []")
    case True
    with retain_blank(2) [OF True, of t] remove_retain show ?thesis by (auto split: if_splits)
  next
    case False
    with remove_retain RemoveRetain_copies [of t f] show ?thesis by (auto simp: kept_up_def copy_at_def)
  qed
qed

text \<open>A holder of a filter that ends in \<open>#\<close> that was unsubscribed, at the level above the \<open>#\<close>.\<close>

definition leftovers :: "('c, 'p) Trie \<Rightarrow> string \<Rightarrow> 'c set" where
  "leftovers t topic = {c. \<exists>f i. ends_hash f \<and> subscription t f i = None \<and>
     sub_match (butlast (sub_path (levels f))) (levels topic) \<and> copy_at t (butlast (sub_path (levels f))) f i = Some c}"

lemma receivers_built:
  assumes "built t" "publishable topic"
  shows "receivers t topic = {c. \<exists>f i. filter_match f topic \<and> subscription t f i = Some c} \<union> leftovers t topic"
proof -
  have t: "wf_trie t" "kept_up t" using built_law [OF assms(1)] by blast+
  have topic: "\<not> wildcard topic" "levels topic \<noteq> []" using assms(2) by (auto simp: publishable_def)
  have m: "filter_match f topic \<longleftrightarrow> (\<exists>p \<in> sub_places (levels f). sub_match p (levels topic))" if "wildcard f" for f
    using that mqtt_match_places [OF topic(2)] by (simp add: filter_match_def)
  show ?thesis
  proof (intro set_eqI iffI)
    fix c assume "c \<in> receivers t topic"
    then consider i where "subscription t topic i = Some c"
      | p f i where "sub_match p (levels topic)" "copy_at t p f i = Some c" by (auto simp: receivers_def)
    then show "c \<in> {c. \<exists>f i. filter_match f topic \<and> subscription t f i = Some c} \<union> leftovers t topic"
    proof cases
      case 1
      then show ?thesis using topic(1) by (auto simp: filter_match_def)
    next
      case 2
      note f = copy_at_place [OF t(1) 2(2)]
      show ?thesis
      proof (cases "subscription t f i")
        case (Some d)
        with t(2) f 2(2) have "d = c" unfolding kept_up_def by fastforce
        with Some m [OF f(1)] f(2) 2(1) show ?thesis by auto
      next
        case None
        then have "p \<noteq> sub_path (levels f)" using copy_at_main [OF f(1), of t i] 2(2) by auto
        with f have "ends_hash f" "p = butlast (sub_path (levels f))"
          by (auto simp: sub_places_def ends_hash_def split: if_splits)
        with None 2 show ?thesis by (auto simp: leftovers_def)
      qed
    qed
  next
    fix c assume "c \<in> {c. \<exists>f i. filter_match f topic \<and> subscription t f i = Some c} \<union> leftovers t topic"
    then consider f i where "filter_match f topic" "subscription t f i = Some c" | "c \<in> leftovers t topic" by blast
    then show "c \<in> receivers t topic"
    proof cases
      case (1 f i)
      show ?thesis
      proof (cases "wildcard f")
        case True
        with m 1 t(2) show ?thesis unfolding kept_up_def receivers_def by blast
      next
        case False
        with 1 show ?thesis by (auto simp: filter_match_def receivers_def)
      qed
    qed (auto simp: leftovers_def receivers_def)
  qed
qed

section \<open>MQTT's matching\<close>

text \<open>
  Section 4.7 of MQTT 3.1.1, on the levels as they stand between the separators: \<open>+\<close> is any one level, \<open>#\<close>, which
  comes last, the level above it and all below, and a filter that begins with a wildcard matches no topic
  that begins with \<open>$\<close>.
\<close>

definition spec_match :: "string \<Rightarrow> string \<Rightarrow> bool" where
  "spec_match f topic \<longleftrightarrow>
     mqtt_match (Split CHR ''/'' f) (Split CHR ''/'' topic) \<and>
     \<not> (hd (Split CHR ''/'' f) \<in> {''+'', ''#''} \<and> take 1 topic = ''$'')"

text \<open>No blanks around a level, the first level not blank, and \<open>#\<close> at the end only.\<close>

definition plain_filter :: "string \<Rightarrow> bool" where
  "plain_filter f \<longleftrightarrow> list_all (\<lambda>k. TrimSpace k = k) (Split CHR ''/'' f) \<and>
     TrimSpace (hd (Split CHR ''/'' f)) \<noteq> [] \<and> ''#'' \<notin> set (butlast (Split CHR ''/'' f))"

lemma levels_first: "TrimSpace (hd (Split CHR ''/'' s)) \<noteq> [] \<Longrightarrow> levels s = Split CHR ''/'' s"
  by (cases "Split CHR ''/'' s") (auto simp: levels_def Let_def hd_conv_nth)

lemma sub_path_plain:
  "''#'' \<notin> set (butlast ks) \<Longrightarrow> list_all (\<lambda>k. TrimSpace k = k) ks \<Longrightarrow> sub_path ks = ks"
  by (induction ks) (auto split: if_splits)

lemma plain_path: "plain_filter f \<Longrightarrow> sub_path (levels f) = Split CHR ''/'' f"
  using levels_first [of f] sub_path_plain [of "Split CHR ''/'' f"] by (simp add: plain_filter_def)

lemma mqtt_match_exact: "''+'' \<notin> set p \<Longrightarrow> ''#'' \<notin> set p \<Longrightarrow> mqtt_match p keys \<longleftrightarrow> p = keys"
  by (induction p arbitrary: keys) (auto split: list.splits)

lemma Split_inj: "Split x s = Split x t \<longleftrightarrow> s = t"
  by (metis Join_Split)

lemma exact_levels: "\<not> wildcard f \<Longrightarrow> ''+'' \<notin> set (Split CHR ''/'' f) \<and> ''#'' \<notin> set (Split CHR ''/'' f)"
  using Contains_Split [of "CHR ''+''" "CHR ''/''" f] Contains_Split [of "CHR ''#''" "CHR ''/''" f]
  by (auto simp: wildcard_def)

text \<open>On a topic without a blank first level or a \<open>$\<close> in front the storage matches as MQTT does.\<close>

lemma filter_match_spec:
  assumes "wildcard f \<longrightarrow> plain_filter f" "TrimSpace (hd (Split CHR ''/'' topic)) \<noteq> []" "take 1 topic \<noteq> ''$''"
  shows "filter_match f topic \<longleftrightarrow> spec_match f topic"
proof (cases "wildcard f")
  case True
  with assms plain_path [of f] levels_first [OF assms(2)] show ?thesis by (simp add: filter_match_def spec_match_def)
next
  case False
  with exact_levels [OF False] assms(3) show ?thesis
    by (simp add: filter_match_def spec_match_def mqtt_match_exact Split_inj)
qed

lemma mqtt_match_length: "mqtt_match p ks \<Longrightarrow> ''#'' \<notin> set p \<Longrightarrow> length p = length ks"
  by (induction p arbitrary: ks) (auto split: list.splits)

text \<open>A separator in front of a topic does not change its levels.\<close>

lemma levels_slash:
  assumes "TrimSpace (hd (Split CHR ''/'' topic)) \<noteq> []"
  shows "levels (CHR ''/'' # topic) = levels topic"
proof -
  have "TrimSpace ([] :: string) = []" by code_simp
  then show ?thesis using levels_first [OF assms] by (simp add: levels_def Let_def)
qed

end
