(* ===== verification/Topic_Properties.thy ===== *)
theory Topic_Properties
  imports Topic_Receivers
begin

text \<open>
  The properties of the topic storage, each with a witness on the concrete storage
  \<open>sample_trie\<close>, which three operations build.
\<close>

lemma retained_NewTrie: "retained_packet NewTrie f = None"
  by (simp add: retained_packet_def NewTrie_def tree_simps)

text \<open>A concrete storage: three filters, two subscribers, one retained packet.\<close>

definition sample_ops :: "string storage_op list" where
  "sample_ops = [Sub ''a/#'' ''c1'' ''s1'', Sub ''a/+'' ''c2'' ''s2'', Sub ''a/b'' ''c1'' ''s3'',
     Unsub ''a/+'' ''c2'']"

definition sample_trie :: "(string, nat) Trie" where
  "sample_trie = \<lparr>root = Branch ''root'' []
      [(''a'', Branch ''a'' [(''a/#'', \<lparr>subscribers = [(''c1'', ''s1'')], retain = None\<rparr>)]
         [(''#'', Branch ''#'' [(''a/#'', \<lparr>subscribers = [(''c1'', ''s1'')], retain = None\<rparr>)] []),
          (''b'', Branch ''b'' [(''a/b'', \<lparr>subscribers = [], retain = Some 7\<rparr>)] [])])],
    foliage = [(''a/#'', \<lparr>subscribers = [], retain = None\<rparr>),
      (''a/b'', \<lparr>subscribers = [(''c2'', ''s2'')], retain = None\<rparr>)]\<rparr>"

lemma sample_built:
  "do { (t, _) \<leftarrow> Trie_Subscribe ''a/#'' ''c1'' ''s1'' NewTrie;
        (t, _) \<leftarrow> Trie_Subscribe ''a/b'' ''c2'' ''s2'' t;
        (t, _) \<leftarrow> Trie_AddRetain ''a/b'' 7 t;
        Some t } = Some sample_trie"
  by code_simp

lemma sample_good: "good_trie sample_trie"
proof -
  from trie_storage.subscribe_law [OF good_NewTrie, of "''a/#''" "''c1''" "''s1''"]
  obtain t1 :: "(string, nat) Trie" where t1:
    "Trie_Subscribe ''a/#'' ''c1'' ''s1'' NewTrie = Some (t1, subscription (NewTrie :: (string, nat) Trie) ''a/#'' ''c1'' \<noteq> None)"
    "good_trie t1" by metis
  from trie_storage.subscribe_law [OF t1(2), of "''a/b''" "''c2''" "''s2''"]
  obtain t2 where t2:
    "Trie_Subscribe ''a/b'' ''c2'' ''s2'' t1 = Some (t2, subscription t1 ''a/b'' ''c2'' \<noteq> None)"
    "good_trie t2" by metis
  have "levels ''a/b'' \<noteq> []" by code_simp
  then obtain t3 e where t3: "Trie_AddRetain ''a/b'' 7 t2 = Some (t3, e)" "good_trie t3"
    using AddRetain_law [of t2 "''a/b''" 7] t2(2) unfolding good_trie_def by blast
  have "t3 = sample_trie"
    using sample_built by (simp add: t1(1) t2(1) t3(1))
  with t3(2) show ?thesis by simp
qed

text \<open>
  Subscribing always succeeds (no panic for any filter and identity), reports whether the
  identity already held this very filter, keeps the storage well formed, and changes the one
  entry of that filter and identity; retained packets stay.
\<close>

theorem subscribe_functional:
  assumes "good_trie t"
  shows "\<exists>t'. Trie_Subscribe f i c t = Some (t', subscription t f i \<noteq> None) \<and> good_trie t' \<and>
    (\<forall>g j. subscription t' g j = (if g = f \<and> j = i then Some c else subscription t g j)) \<and>
    (\<forall>g. retained_packet t' g = retained_packet t g)"
  using Subscribe_law [of t f i c] assms unfolding good_trie_def retained_packet_def by blast

theorem subscribe_functional_witness:
  "\<exists>t'. Trie_Subscribe ''+/x'' ''c3'' ''s9'' sample_trie =
      Some (t', subscription sample_trie ''+/x'' ''c3'' \<noteq> None) \<and> good_trie t' \<and>
    (\<forall>g j. subscription t' g j =
      (if g = ''+/x'' \<and> j = ''c3'' then Some ''s9'' else subscription sample_trie g j)) \<and>
    (\<forall>g. retained_packet t' g = retained_packet sample_trie g)"
  by (rule subscribe_functional) (rule sample_good)

text \<open>
  C31. What \<open>Unsubscribe\<close> does, for every filter and identity on every storage. It returns. It reports whether the storage
  has a leaf for the filter, whoever is on it, and can find it: a filter with a wildcard is found if its levels,
  blanks included, are those of its path, which is so if none has blanks around it. If it can, the
  subscription of that filter and identity is gone, and its copy where the path ends; every other subscription stays,
  and so does every other copy, that of the same subscription at the level above a final \<open>#\<close> included, and the
  retained packets. If it cannot, nothing changes.
\<close>

theorem unsubscribe_functional:
  assumes "wf_trie t"
  shows "\<exists>t'. Trie_Unsubscribe f i t = Some (t', known t f \<and> findable f) \<and> wf_trie t' \<and>
    (\<forall>g j. subscription t' g j = (if g = f \<and> j = i \<and> findable f then None else subscription t g j)) \<and>
    (\<forall>p g j. copy_at t' p g j =
      (if g = f \<and> j = i \<and> findable f \<and> p = sub_path (levels f) then None else copy_at t p g j)) \<and>
    (\<forall>g. retained_packet t' g = retained_packet t g) \<and> (clean f \<or> \<not> wildcard f \<longrightarrow> findable f)"
  using Unsubscribe_copies [OF assms, of f i] clean_findable
  unfolding retained_packet_def by (auto simp: findable_def)

lemma sample_levels:
  "clean ''a/#'' \<and> ends_hash ''a/#'' \<and> publishable ''a'' \<and> publishable ''a/b'' \<and>
   levels ''a'' = [''a''] \<and> levels ''a/b'' = [''a'', ''b''] \<and> levels ''a/#'' = [''a'', ''#''] \<and>
   sub_match [''a''] [''a''] \<and> levels '''' = [] \<and> levels ''b'' = [''b''] \<and> levels ''/b'' = [''b''] \<and>
   map TrimSpace [''b''] = [''b''] \<and> map TrimSpace [''a'', ''b''] = [''a'', ''b'']"
  by code_simp

theorem unsubscribe_functional_witness:
  "\<exists>t'. Trie_Unsubscribe ''a/#'' ''c1'' sample_trie = Some (t', True) \<and> subscription t' ''a/#'' ''c1'' = None \<and>
    copy_at t' [''a'', ''#''] ''a/#'' ''c1'' = None \<and> copy_at t' [''a''] ''a/#'' ''c1'' = Some ''s1''"
proof -
  have "known sample_trie ''a/#''" "findable ''a/#''" "sub_path (levels ''a/#'') = [''a'', ''#'']"
    "copy_at sample_trie [''a''] ''a/#'' ''c1'' = Some ''s1''" by code_simp+
  with unsubscribe_functional [of sample_trie "''a/#''" "''c1''"] sample_good show ?thesis
    by (auto simp: good_trie_def)
qed

lemma sample_is_built: "built sample_trie"
proof -
  obtain t u e d g where "Trie_Subscribe ''a/#'' ''c1'' ''s1'' NewTrie = Some (t, e)"
    "Trie_Subscribe ''a/b'' ''c2'' ''s2'' t = Some (u, d)" "Trie_AddRetain ''a/b'' 7 u = Some (sample_trie, g)"
    using sample_built by (auto split: Option.bind_splits)
  then show ?thesis using built.intros(1,2,4) by metis
qed

text \<open>
  C7. Who receives a message, on every storage the operations build. For a topic one can publish to,
  \<open>Subscribers\<close> returns exactly the subscribers of the filters that match it and, besides them, the leftovers: those
  who unsubscribed a filter that ends in \<open>#\<close>, on the topics of the level above the \<open>#\<close>. The matching is that of the
  code; it is MQTT's for exact filters, and for filters with wildcards without blanks around a level or a
  blank first level and with \<open>#\<close> at the end only, on topics that begin neither with a blank level nor with \<open>$\<close>.
\<close>

theorem subscribers_exact:
  assumes "built t" "publishable topic"
  shows "(\<exists>cs. Trie_Subscribers topic t = Some cs \<and>
      set cs = {c. \<exists>f i. filter_match f topic \<and> subscription t f i = Some c} \<union> leftovers t topic) \<and>
    (TrimSpace (hd (Split CHR ''/'' topic)) \<noteq> [] \<and> take 1 topic \<noteq> ''$'' \<longrightarrow>
      (\<forall>f. wildcard f \<longrightarrow> plain_filter f \<longrightarrow> filter_match f topic = spec_match f topic) \<and>
      (\<forall>f. \<not> wildcard f \<longrightarrow> filter_match f topic = spec_match f topic))"
proof -
  have "wf_trie t" using built_law [OF assms(1)] by blast
  from Subscribers_receivers [OF this assms(2)] receivers_built [OF assms] show ?thesis
    using filter_match_spec by simp
qed

theorem subscribers_exact_witness:
  "\<exists>t cs. Trie_Unsubscribe ''a/#'' ''c1'' sample_trie = Some (t, True) \<and> Trie_Subscribers ''a'' t = Some cs \<and>
    set cs = {c. \<exists>f i. filter_match f ''a'' \<and> subscription t f i = Some c} \<union> leftovers t ''a'' \<and> ''s1'' \<in> leftovers t ''a''"
proof -
  obtain t where t: "Trie_Unsubscribe ''a/#'' ''c1'' sample_trie = Some (t, True)" "subscription t ''a/#'' ''c1'' = None"
    "copy_at t [''a''] ''a/#'' ''c1'' = Some ''s1''"
  proof -
    have u: "known sample_trie ''a/#''" "findable ''a/#''" "sub_path (levels ''a/#'') = [''a'', ''#'']"
      "copy_at sample_trie [''a''] ''a/#'' ''c1'' = Some ''s1''" by code_simp+
    have "wf_trie sample_trie" using sample_good by (simp add: good_trie_def)
    from Unsubscribe_copies [OF this, of "''a/#''" "''c1''"] u that show thesis by auto
  qed
  have path: "butlast (sub_path (levels ''a/#'')) = [''a'']" by code_simp
  have "''s1'' \<in> leftovers t ''a''"
    unfolding leftovers_def
    by (intro CollectI exI [of _ "''a/#''"] exI [of _ "''c1''"], unfold path) (use t(2,3) sample_levels in simp)
  moreover have "built t" using built.unsubscribe [OF sample_is_built t(1)] .
  from subscribers_exact [OF this, of "''a''"] sample_levels obtain cs where "Trie_Subscribers ''a'' t = Some cs"
    "set cs = {c. \<exists>f i. filter_match f ''a'' \<and> subscription t f i = Some c} \<union> leftovers t ''a''" by blast
  ultimately show ?thesis using t(1) by blast
qed

text \<open>
  C32. Where the matching is not MQTT's. A filter that begins with a wildcard receives the topics that begin with \<open>$\<close>,
  such as those the broker publishes its counters on; and a filter without \<open>#\<close> that matches a topic receives also the topic with a separator in
  front, which has one level more.
\<close>

theorem matching_differs:
  assumes "built t" "subscription t f i = Some c" "wildcard f" "plain_filter f" "publishable topic"
    "TrimSpace (hd (Split CHR ''/'' topic)) \<noteq> []" "mqtt_match (Split CHR ''/'' f) (Split CHR ''/'' topic)"
  shows "(hd (Split CHR ''/'' f) \<in> {''+'', ''#''} \<and> take 1 topic = ''$'' \<longrightarrow>
      \<not> spec_match f topic \<and> (\<exists>cs. Trie_Subscribers topic t = Some cs \<and> c \<in> set cs)) \<and>
    (''#'' \<notin> set (Split CHR ''/'' f) \<longrightarrow>
      \<not> spec_match f (CHR ''/'' # topic) \<and> (\<exists>cs. Trie_Subscribers (CHR ''/'' # topic) t = Some cs \<and> c \<in> set cs))"
proof -
  note lv = levels_slash [OF assms(6)]
  have "filter_match f topic"
    using assms(3,7) plain_path [OF assms(4)] levels_first [OF assms(6)] by (simp add: filter_match_def)
  then have m: "filter_match f topic" "filter_match f (CHR ''/'' # topic)"
    using assms(3) lv by (simp_all add: filter_match_def)
  have p: "publishable (CHR ''/'' # topic)"
    using assms(5) lv by (simp add: publishable_def wildcard_def Contains_def)
  have "wf_trie t" using built_law [OF assms(1)] by blast
  note r = Subscribers_receivers [OF this] receivers_built [OF assms(1)]
  have s: "\<exists>cs. Trie_Subscribers x t = Some cs \<and> c \<in> set cs" if "filter_match f x" "publishable x" for x
    using r(1) [OF that(2)] r(2) [OF that(2)] that(1) assms(2) by blast
  have "\<not> spec_match f (CHR ''/'' # topic)" if "''#'' \<notin> set (Split CHR ''/'' f)"
    using mqtt_match_length [OF assms(7) that] mqtt_match_length [OF _ that, of "Split CHR ''/'' (CHR ''/'' # topic)"]
    by (auto simp: spec_match_def)
  with s [OF m(1) assms(5)] s [OF m(2) p] show ?thesis by (auto simp: spec_match_def)
qed

theorem matching_differs_witness:
  "\<exists>t cs. Trie_Subscribe ''+/b'' ''c3'' ''s3'' sample_trie = Some (t, False) \<and> \<not> spec_match ''+/b'' ''/a/b'' \<and>
    Trie_Subscribers ''/a/b'' t = Some cs \<and> ''s3'' \<in> set cs"
proof -
  have "wf_trie sample_trie" using sample_good by (simp add: good_trie_def)
  moreover have "subscription sample_trie ''+/b'' ''c3'' = None" by code_simp
  ultimately obtain t where t: "Trie_Subscribe ''+/b'' ''c3'' ''s3'' sample_trie = Some (t, False)"
    "subscription t ''+/b'' ''c3'' = Some ''s3''"
    using Subscribe_law [of sample_trie "''+/b''" "''c3''" "''s3''"] by auto
  have side: "wildcard ''+/b''" "plain_filter ''+/b''" "TrimSpace (hd (Split CHR ''/'' ''a/b'')) \<noteq> []"
    "mqtt_match (Split CHR ''/'' ''+/b'') (Split CHR ''/'' ''a/b'')" "''#'' \<notin> set (Split CHR ''/'' ''+/b'')"
    by code_simp+
  have "publishable ''a/b''" using sample_levels by blast
  from matching_differs [OF built.subscribe [OF sample_is_built t(1)] t(2) side(1,2) this side(3,4)] side(5) t(1)
  show ?thesis by blast
qed

text \<open>
  C2. The storage refines a map. Any sequence of subscriptions and unsubscriptions (of filters
  that do not end in \<open>#\<close>) run on an empty trie succeeds, and a message then goes to exactly
  the subscribers whose last request for a matching filter was to subscribe.
\<close>

theorem storage_history:
  assumes "list_all (op_ok removable_filter) ops" "publishable topic"
  shows "\<exists>t cs. run_storage Trie_Subscribe Trie_Unsubscribe ops NewTrie = Some t \<and>
    Trie_Subscribers topic t = Some cs \<and>
    set cs = {c. \<exists>f i. filter_match f topic \<and> history ops (\<lambda>_. None) (f, i) = Some c}"
  by (rule trie_storage.history_delivers [OF good_NewTrie assms(1) _ assms(2)])
    (simp add: subscription_NewTrie)

theorem storage_history_witness:
  "\<exists>t cs. run_storage Trie_Subscribe Trie_Unsubscribe sample_ops NewTrie = Some t \<and>
    Trie_Subscribers ''a/b'' t = Some cs \<and>
    set cs = {c. \<exists>f i. filter_match f ''a/b'' \<and> history sample_ops (\<lambda>_. None) (f, i) = Some c}"
proof (rule storage_history)
  show "list_all (op_ok removable_filter) sample_ops" by code_simp
qed (use sample_levels in blast)

text \<open>
  Unsubscribing from a filter that ends in \<open>#\<close> leaves its second copy behind. Whoever held
  the filter still receives, after a successful \<open>Unsubscribe\<close>, every message for the level
  above the \<open>#\<close>.
\<close>

theorem unsubscribe_hash_leaves_parent:
  assumes "good_trie t" "clean f" "ends_hash f" "subscription t f i = Some c"
    and "publishable topic" "sub_match (butlast (sub_path (levels f))) (levels topic)"
  shows "\<exists>t' cs. Trie_Unsubscribe f i t = Some (t', True) \<and> subscription t' f i = None \<and>
    Trie_Subscribers topic t' = Some cs \<and> c \<in> set cs"
proof -
  let ?sp = "sub_path (levels f)"
  have w: "wildcard f" "wf_trie t" "synced t" using assms(1,3) by (auto simp: ends_hash_def good_trie_def)
  have sp: "?sp \<noteq> []" "butlast ?sp \<in> sub_places (levels f)"
    using levels_wildcard [OF w(1)] assms(3) by (auto simp: ends_hash_def sub_places_def)
  have "length (butlast ?sp) \<noteq> length ?sp" using sp(1) by (cases "sub_path (levels f)" rule: rev_cases) auto
  then have bl: "butlast ?sp \<noteq> ?sp" by metis
  have kn: "known t f" using subscription_known [of t f i] assms(4) by simp
  from Unsubscribe_wildcard [OF w(2,1), of i] obtain t' l where
    t': "Trie_Unsubscribe f i t = Some (t', True)" "wf_trie t'" "leaf_at ?sp f (root t) = Some l" and
    at: "\<forall>p g. leaf_at p g (root t') = (if g = f \<and> p = ?sp then rem_leaf i l else leaf_at p g (root t))"
    using kn assms(2) by blast
  have "sub_at (leaf_at (butlast ?sp) f (root t')) i = Some c"
    using w(1,3) sp(2) bl assms(4) at unfolding synced_def by auto
  moreover from Subscribers_law [OF t'(2)] assms(5) obtain cs where
    "Trie_Subscribers topic t' = Some cs" "set cs = {c. \<exists>i. subscription t' topic i = Some c} \<union>
      {c. \<exists>p f i. sub_match p (levels topic) \<and> sub_at (leaf_at p f (root t')) i = Some c}"
    unfolding publishable_def by blast
  ultimately have "Trie_Subscribers topic t' = Some cs" "c \<in> set cs" using assms(6) by blast+
  moreover have "subscription t' f i = None" using w(1) at by (simp add: subscription_def)
  ultimately show ?thesis using t'(1) by blast
qed

theorem unsubscribe_hash_leaves_parent_witness:
  "\<exists>t' cs. Trie_Unsubscribe ''a/#'' ''c1'' sample_trie = Some (t', True) \<and>
    subscription t' ''a/#'' ''c1'' = None \<and> Trie_Subscribers ''a'' t' = Some cs \<and> ''s1'' \<in> set cs"
proof (rule unsubscribe_hash_leaves_parent [OF sample_good])
  show "subscription sample_trie ''a/#'' ''c1'' = Some ''s1''" by code_simp
  show "sub_match (butlast (sub_path (levels ''a/#''))) (levels ''a'')" by code_simp
qed (use sample_levels in auto)

text \<open>
  A blank topic brings the storage down. For a topic without levels, such as the empty
  string, \<open>AddRetain\<close> panics on every storage, \<open>SearchRetain\<close> on every storage that has a
  branch, and \<open>Subscribers\<close> on every storage whose first branch is an ordinary name; the
  topics concerned are exactly those that consist of one blank level.
\<close>

theorem blank_topic_panics:
  assumes "levels topic = []"
  shows "Trie_AddRetain topic r t = None \<and>
    (branches (root t) \<noteq> [] \<longrightarrow> Trie_SearchRetain topic t = None) \<and>
    (\<forall>k b bs. branches (root t) = (k, b) # bs \<and> name b \<noteq> ''#'' \<and> name b \<noteq> ''+'' \<longrightarrow>
       Trie_Subscribers topic t = None) \<and>
    Split CHR ''/'' topic = [topic] \<and> TrimSpace topic = []"
proof -
  have "length (Split CHR ''/'' topic) = 1" "TrimSpace (Split CHR ''/'' topic ! 0) = []"
    using assms by (auto simp: levels_def Let_def le_Suc_eq split: if_splits)
  moreover from this obtain k where "Split CHR ''/'' topic = [k]" by (cases "Split CHR ''/'' topic") auto
  ultimately have one: "Split CHR ''/'' topic = [topic]" "TrimSpace topic = []"
    using Join_Split [of "CHR ''/''" topic] by auto
  have "\<not> wildcard topic" using levels_wildcard assms by blast
  moreover have "SearchLeaves [] b = None" if "name b \<noteq> ''#''" "name b \<noteq> ''+''" for b :: "('a, 'b) Branch"
    using that by (cases b) simp
  moreover have "search_retain_branches [] bs = None" if ne: "bs \<noteq> []" for bs :: "(string \<times> ('a, 'b) Branch) list"
  proof -
    obtain k b rest where "bs = (k, b) # rest" using ne by (cases bs) auto
    then show ?thesis by (cases b) simp
  qed
  ultimately show ?thesis
    using assms one
    by (simp add: Trie_AddRetain_def Trie_SearchRetain_def Trie_Subscribers_def Let_def)
qed

theorem blank_topic_panics_witness:
  "Trie_AddRetain '''' 1 sample_trie = None \<and> Trie_SearchRetain '''' sample_trie = None \<and>
   Trie_Subscribers '''' sample_trie = None"
proof -
  have "levels '''' = []" using sample_levels by blast
  from blank_topic_panics [OF this, of 1 sample_trie] show ?thesis by (simp add: sample_trie_def)
qed

text \<open>
  C35. Nothing else panics: on a well-formed storage, for every topic with at least one level,
  each operation returns.
\<close>

theorem storage_total:
  assumes "good_trie t" "levels f \<noteq> []"
  shows "Trie_Subscribe f i c t \<noteq> None \<and> Trie_Unsubscribe f i t \<noteq> None \<and>
    Trie_Subscribers f t \<noteq> None \<and> Trie_AddRetain f r t \<noteq> None \<and>
    Trie_RemoveRetain f t \<noteq> None \<and> Trie_SearchRetain f t \<noteq> None"
proof -
  from assms(1) have wf: "wf_trie t" by (simp add: good_trie_def)
  have "Trie_Subscribers f t \<noteq> None"
    using Subscribers_law [OF wf, of f] assms(2)
    by (cases "wildcard f") (auto simp: Trie_Subscribers_def)
  moreover have "Trie_Subscribe f i c t \<noteq> None"
    using Subscribe_law [OF wf, of f i c] by (elim exE conjE) simp
  moreover have "Trie_Unsubscribe f i t \<noteq> None"
    using Unsubscribe_law [OF wf, of f i] by (elim exE conjE) simp
  moreover have "Trie_AddRetain f r t \<noteq> None"
    using AddRetain_law [OF wf assms(2), of r] by (elim exE conjE) simp
  moreover have "Trie_RemoveRetain f t \<noteq> None"
    using RemoveRetain_law [OF wf assms(2)] by (elim exE conjE) simp
  moreover have "Trie_SearchRetain f t \<noteq> None"
    using SearchRetain_law [OF wf assms(2)] by (elim exE conjE) simp
  ultimately show ?thesis by blast
qed

theorem storage_total_witness:
  "Trie_Subscribe ''a/b'' ''c'' ''s'' sample_trie \<noteq> None \<and> Trie_Unsubscribe ''a/b'' ''c'' sample_trie \<noteq> None \<and>
    Trie_Subscribers ''a/b'' sample_trie \<noteq> None \<and> Trie_AddRetain ''a/b'' 3 sample_trie \<noteq> None \<and>
    Trie_RemoveRetain ''a/b'' sample_trie \<noteq> None \<and> Trie_SearchRetain ''a/b'' sample_trie \<noteq> None"
  using sample_levels by (intro storage_total [OF sample_good]) simp

text \<open>
  C36. A retained packet is stored and found. \<open>AddRetain\<close> reports whether the topic had one,
  replaces it and touches no other topic and no subscription; and \<open>SearchRetain\<close> returns
  exactly the packets of the topics whose levels the filter accepts.
\<close>

theorem retain_stored_and_found:
  assumes "good_trie t" "levels f \<noteq> []" "levels g \<noteq> []"
  shows "\<exists>t' rs. Trie_AddRetain f r t = Some (t', retained_packet t f \<noteq> None) \<and> good_trie t' \<and>
    (\<forall>h. retained_packet t' h = (if h = f then Some r else retained_packet t h)) \<and>
    (\<forall>h j. subscription t' h j = subscription t h j) \<and>
    Trie_SearchRetain g t' = Some rs \<and>
    set rs = {s. \<exists>h. ret_match (map TrimSpace (levels h)) (levels g) \<and> retained_packet t' h = Some s}"
proof -
  from AddRetain_law [of t f r] assms(1,2) obtain t' where
    t': "Trie_AddRetain f r t = Some (t', retained_packet t f \<noteq> None)" "good_trie t'"
      "\<forall>h. retained_packet t' h = (if h = f then Some r else retained_packet t h)"
      "\<forall>h j. subscription t' h j = subscription t h j"
    unfolding good_trie_def by blast
  then have wf: "wf_trie t'" by (simp add: good_trie_def)
  from SearchRetain_law [OF wf assms(3)] obtain rs where
    "Trie_SearchRetain g t' = Some rs"
    "set rs = {s. \<exists>h. ret_match (map TrimSpace (levels h)) (levels g) \<and> retained_packet t' h = Some s}"
    unfolding retained_packet_only [OF wf] by blast
  with t' show ?thesis by blast
qed

theorem retain_stored_and_found_witness:
  "\<exists>t' rs. Trie_AddRetain ''a/b'' 9 sample_trie = Some (t', True) \<and> good_trie t' \<and>
    Trie_SearchRetain ''a/#'' t' = Some rs \<and> 9 \<in> set rs"
proof -
  have r: "retained_packet sample_trie ''a/b'' \<noteq> None" by code_simp
  from retain_stored_and_found [OF sample_good, of "''a/b''" "''a/#''" 9] sample_levels obtain t' rs where
    t': "Trie_AddRetain ''a/b'' 9 sample_trie = Some (t', retained_packet sample_trie ''a/b'' \<noteq> None)"
      "good_trie t'" "retained_packet t' ''a/b'' = Some 9" "Trie_SearchRetain ''a/#'' t' = Some rs"
      "set rs = {s. \<exists>h. ret_match (map TrimSpace (levels h)) [''a'', ''#''] \<and> retained_packet t' h = Some s}"
    by auto
  have "ret_match (map TrimSpace (levels ''a/b'')) [''a'', ''#'']" using sample_levels by simp
  with t' r show ?thesis by (intro exI [of _ t'] exI [of _ rs]) auto
qed

text \<open>
  C37. \<open>RemoveRetain\<close> takes away at most one packet, and that of a topic with the same levels:
  it reports true exactly if there is one, then one such topic loses its packet and all others
  keep theirs. A topic with a leading slash has the levels of the one without, so the packet
  may be that of the other topic.
\<close>

theorem remove_retain_one:
  assumes "wf_trie t" "levels f \<noteq> []"
  shows "\<exists>t' e. Trie_RemoveRetain f t = Some (t', e) \<and> wf_trie t' \<and>
    (\<forall>g j. subscription t' g j = subscription t g j) \<and>
    (e \<longleftrightarrow> (\<exists>h. map TrimSpace (levels h) = levels f \<and> retained_packet t h \<noteq> None)) \<and>
    (e \<longrightarrow> (\<exists>h. map TrimSpace (levels h) = levels f \<and> retained_packet t h \<noteq> None \<and>
      (\<forall>g. retained_packet t' g = (if g = h then None else retained_packet t g)))) \<and>
    (\<not> e \<longrightarrow> t' = t)"
proof -
  from RemoveRetain_law [OF assms] obtain t' e where
    t': "Trie_RemoveRetain f t = Some (t', e)" "wf_trie t'" "\<forall>g j. subscription t' g j = subscription t g j"
    and e: "e \<longrightarrow> (\<exists>h. (\<exists>l. leaf_at (levels f) h (root t) = Some l \<and> retain l \<noteq> None) \<and>
       (\<forall>p g. ret_at (leaf_at p g (root t')) =
          (if g = h \<and> p = levels f then None else ret_at (leaf_at p g (root t)))))"
      "\<not> e \<longrightarrow> t' = t \<and> (\<forall>g. ret_at (leaf_at (levels f) g (root t)) = None)" by blast
  show ?thesis
  proof (cases e)
    case True
    with e(1) obtain h l where h: "leaf_at (levels f) h (root t) = Some l" "retain l \<noteq> None" and
      at: "\<forall>p g. ret_at (leaf_at p g (root t')) =
          (if g = h \<and> p = levels f then None else ret_at (leaf_at p g (root t)))" by blast
    have lv: "map TrimSpace (levels h) = levels f" using wf_trieD(9) [OF assms(1) h(1)] h(2) by metis
    moreover have "retained_packet t h \<noteq> None" using h by (simp add: retained_packet_def lv)
    moreover have "retained_packet t' g = (if g = h then None else retained_packet t g)" for g
      using at lv by (simp add: retained_packet_def)
    ultimately show ?thesis using t' True by blast
  next
    case False
    with e(2) have "\<forall>g. ret_at (leaf_at (levels f) g (root t)) = None" "t' = t" by blast+
    moreover from this(1) have "\<not> (\<exists>h. map TrimSpace (levels h) = levels f \<and> retained_packet t h \<noteq> None)"
      by (metis retained_packet_def)
    ultimately show ?thesis using t' False by blast
  qed
qed

theorem remove_retain_one_witness:
  "\<exists>t :: (string, nat) Trie. \<exists>t' e. Trie_AddRetain ''/b'' 5 NewTrie = Some (t, False) \<and>
    Trie_RemoveRetain ''b'' t = Some (t', e) \<and> e \<and>
    (\<exists>h. map TrimSpace (levels h) = levels ''b'' \<and> retained_packet t h \<noteq> None \<and>
      (\<forall>g. retained_packet t' g = (if g = h then None else retained_packet t g)))"
proof -
  have lv: "levels ''/b'' \<noteq> []" "levels ''b'' \<noteq> []" "map TrimSpace (levels ''/b'') = levels ''b''"
    using sample_levels by simp_all
  from AddRetain_law [where t = "NewTrie :: (string, nat) Trie", OF wf_NewTrie lv(1), of 5] obtain t :: "(string, nat) Trie" where
    t: "Trie_AddRetain ''/b'' 5 NewTrie = Some (t, False)" "wf_trie t" "retained_packet t ''/b'' = Some 5"
    by (elim exE conjE) (simp add: retained_NewTrie)
  from remove_retain_one [OF t(2) lv(2)] t(1,3) lv(3) show ?thesis by blast
qed

lemma mqtt_match_self:
  "''#'' \<notin> set ks \<Longrightarrow> list_all (\<lambda>k. TrimSpace k = k) ks \<Longrightarrow> mqtt_match (sub_path (ks @ [''#''])) ks"
  by (induction ks) (simp_all add: TrimSpace_graphic graphic_def)

lemma ret_match_self: "''#'' \<notin> set ks \<Longrightarrow> \<not> ret_match ks (ks @ [''#''])"
  by (induction ks) auto

text \<open>
  The retained packet of a topic is not sent to a new subscriber of that topic's \<open>#\<close>
  filter, although its messages are: the filter matches the topic, but \<open>SearchRetain\<close> on it
  does not return the packet.
\<close>

theorem retain_hash_misses_parent:
  assumes "wf_trie t" "publishable f" "clean f" "wildcard g" "levels g = levels f @ [''#'']"
    and "retained_packet t f = Some r" "\<forall>h. retained_packet t h = Some r \<longrightarrow> h = f"
  shows "filter_match g f \<and> (\<exists>rs. Trie_SearchRetain g t = Some rs \<and> r \<notin> set rs)"
proof -
  have "k \<in> set (levels f) \<Longrightarrow> k \<in> set (Split CHR ''/'' f)" for k
    by (auto simp: levels_def Let_def dest: in_set_dropD split: if_splits)
  moreover have "\<not> Contains CHR ''#'' f" using assms(2) by (simp add: publishable_def wildcard_def)
  ultimately have nh: "''#'' \<notin> set (levels f)" using Contains_Split [of "CHR ''#''" "CHR ''/''" f] by fastforce
  have cl: "list_all (\<lambda>k. TrimSpace k = k) (levels f)" using assms(3) by (simp add: clean_def)
  from nh cl have "filter_match g f"
    using assms(4,5) by (simp add: filter_match_def mqtt_match_self)
  moreover have lg: "levels g \<noteq> []" using assms(5) by simp
  from SearchRetain_law [OF assms(1) lg] obtain rs where rs: "Trie_SearchRetain g t = Some rs"
    "set rs = {s. \<exists>h. ret_match (map TrimSpace (levels h)) (levels g) \<and> retained_packet t h = Some s}"
    unfolding retained_packet_only [OF assms(1)] by blast
  have "map TrimSpace (levels f) = levels f" using cl by (simp add: list_all_iff map_idI)
  with ret_match_self [OF nh] have "r \<notin> set rs" using rs(2) assms(5,7) by auto
  ultimately show ?thesis using rs(1) by blast
qed

theorem retain_hash_misses_parent_witness:
  "\<exists>t :: (string, nat) Trie. \<exists>e rs. Trie_AddRetain ''a'' 5 NewTrie = Some (t, e) \<and>
    filter_match ''a/#'' ''a'' \<and> Trie_SearchRetain ''a/#'' t = Some rs \<and> 5 \<notin> set rs"
proof -
  have lv: "levels ''a'' \<noteq> []" using sample_levels by simp
  from AddRetain_law [where t = "NewTrie :: (string, nat) Trie", OF wf_NewTrie lv, of 5] obtain t :: "(string, nat) Trie" and e where
    t: "Trie_AddRetain ''a'' 5 NewTrie = Some (t, e)" "wf_trie t"
      "\<forall>g. retained_packet t g = (if g = ''a'' then Some 5 else retained_packet (NewTrie :: (string, nat) Trie) g)"
    by blast
  from t(3) have r: "retained_packet t ''a'' = Some 5" "\<forall>h. retained_packet t h = Some 5 \<longrightarrow> h = ''a''"
    by (auto simp: retained_NewTrie)
  have "clean ''a''" "wildcard ''a/#''" by code_simp+
  with retain_hash_misses_parent [OF t(2) _ _ _ _ r, of "''a/#''"] sample_levels t(1) show ?thesis by auto
qed

end
