(* ===== verification/Topic_Holders.thy ===== *)
theory Topic_Holders
  imports Topic_Storage
begin

text \<open>
  Who sits in a topic storage. \<open>held_by C t\<close> says that the storage is well formed and every
  subscriber anywhere in it satisfies \<open>C\<close>; every operation keeps that, whatever the topic, and
  \<open>Subscribers\<close> returns only such subscribers.
\<close>

definition holds_only :: "('c \<Rightarrow> bool) \<Rightarrow> ('c, 'p) Leaf option \<Rightarrow> bool" where
  "holds_only C l \<longleftrightarrow> (\<forall>i c. sub_at l i = Some c \<longrightarrow> C c)"

definition held_by :: "('c \<Rightarrow> bool) \<Rightarrow> ('c, 'p) Trie \<Rightarrow> bool" where
  "held_by C t \<longleftrightarrow> wf_trie t \<and> (\<forall>p g. holds_only C (leaf_at p g (root t))) \<and>
     (\<forall>g. holds_only C (map_of (foliage t) g))"

lemma holds_only_simps [simp]:
  "holds_only C None"
  "holds_only C (Some (sub_leaf i c l)) \<longleftrightarrow> C c \<and> (\<forall>j d. j \<noteq> i \<longrightarrow> sub_at l j = Some d \<longrightarrow> C d)"
  "holds_only C (Some (ret_leaf r l)) = holds_only C l"
  by (auto simp: holds_only_def simp del: sub_at_simps(2))

lemma holds_only_rem: "holds_only C (Some l) \<Longrightarrow> holds_only C (rem_leaf i l)"
  by (auto simp: holds_only_def split: if_splits)

lemma holds_only_sub: "holds_only C l \<Longrightarrow> C c \<Longrightarrow> holds_only C (Some (sub_leaf i c l))"
  by (auto simp: holds_only_def)

lemma held_byI:
  "wf_trie t \<Longrightarrow> (\<And>p g. holds_only C (leaf_at p g (root t))) \<Longrightarrow>
     (\<And>g. holds_only C (map_of (foliage t) g)) \<Longrightarrow> held_by C t"
  by (simp add: held_by_def)

lemma held_byD:
  assumes "held_by C t"
  shows "wf_trie t" "holds_only C (leaf_at p g (root t))" "holds_only C (map_of (foliage t) g)"
  using assms by (simp_all add: held_by_def)

lemma held_by_mono: "held_by C t \<Longrightarrow> (\<And>c. C c \<Longrightarrow> D c) \<Longrightarrow> held_by D t"
  unfolding held_by_def holds_only_def by blast

lemma held_by_New: "held_by C NewTrie"
  by (rule held_byI) (simp_all add: wf_NewTrie, simp_all add: NewTrie_def tree_simps)

lemma held_by_Subscribe:
  assumes "held_by C t" "C c" "Trie_Subscribe f i c t = Some (t', e)"
  shows "held_by C t'"
proof (cases "wildcard f")
  case True
  from Subscribe_wildcard [OF held_byD(1) [OF assms(1)] True, of i c] assms(3) have
    t: "wf_trie t'" "\<And>p g. leaf_at p g (root t') = (if g = f \<and> p \<in> sub_places (levels f)
        then Some (sub_leaf i c (leaf_at p f (root t))) else leaf_at p g (root t))"
      "\<And>g. sub_at (map_of (foliage t') g) = sub_at (map_of (foliage t) g)" by auto
  show ?thesis
  proof (rule held_byI [OF t(1)])
    show "holds_only C (leaf_at p g (root t'))" for p g
      unfolding t(2) using held_byD(2) [OF assms(1)] holds_only_sub [where C = C, OF held_byD(2) [OF assms(1)], of c] assms(2) by (simp del: holds_only_simps)
    show "holds_only C (map_of (foliage t') g)" for g
      using held_byD(3) [OF assms(1), of g] by (simp only: holds_only_def t(3))
  qed
next
  case False
  from Subscribe_exact [OF held_byD(1) [OF assms(1)] False, of i c] assms(3) have
    t: "wf_trie t'" "root t' = root t"
      "\<And>g. map_of (foliage t') g = (if g = f then Some (sub_leaf i c (map_of (foliage t) f))
        else map_of (foliage t) g)" by auto
  show ?thesis
  proof (rule held_byI [OF t(1)])
    show "holds_only C (leaf_at p g (root t'))" for p g
      unfolding t(2) by (rule held_byD(2) [OF assms(1)])
    show "holds_only C (map_of (foliage t') g)" for g
      unfolding t(3) using held_byD(3) [OF assms(1)] holds_only_sub [where C = C, OF held_byD(3) [OF assms(1)], of c] assms(2) by (simp del: holds_only_simps)
  qed
qed

lemma held_by_Unsubscribe:
  assumes "held_by C t" "Trie_Unsubscribe f i t = Some (t', e)"
  shows "held_by C t'"
proof (cases "wildcard f")
  case True
  from Unsubscribe_wildcard [OF held_byD(1) [OF assms(1)] True, of i] assms(2)
  consider l where "wf_trie t'" "foliage t' = foliage t"
      "leaf_at (sub_path (levels f)) f (root t) = Some l"
      "\<And>p g. leaf_at p g (root t') = (if g = f \<and> p = sub_path (levels f)
        then rem_leaf i l else leaf_at p g (root t))"
    | "t' = t" by auto
  then show ?thesis
  proof cases
    case 1
    have "holds_only C (Some l)" using held_byD(2) [OF assms(1)] 1(3) by metis
    then show ?thesis
      using held_byD [OF assms(1)] by (intro held_byI [OF 1(1)]) (simp_all add: 1(2,4) holds_only_rem)
  qed (use assms in simp)
next
  case False
  from Unsubscribe_exact [OF held_byD(1) [OF assms(1)] False, of i] assms(2)
  consider l where "wf_trie t'" "root t' = root t" "map_of (foliage t) f = Some l"
      "\<And>g. map_of (foliage t') g = (if g = f then rem_leaf i l else map_of (foliage t) g)"
    | "t' = t" by auto
  then show ?thesis
  proof cases
    case 1
    have "holds_only C (Some l)" using held_byD(3) [OF assms(1)] 1(3) by metis
    then show ?thesis
      using held_byD [OF assms(1)] by (intro held_byI [OF 1(1)]) (simp_all add: 1(2,4) holds_only_rem)
  qed (use assms in simp)
qed

lemma held_by_root:
  assumes "held_by C t" "wf_trie t'" "foliage t' = foliage t"
    and "\<And>p g. sub_at (leaf_at p g (root t')) = sub_at (leaf_at p g (root t))"
  shows "held_by C t'"
  using held_byD [OF assms(1)] assms(2-4) by (intro held_byI) (simp_all add: holds_only_def)


lemma held_by_AddRetain:
  assumes "held_by C t" "Trie_AddRetain f r t = Some (t', e)"
  shows "held_by C t'"
proof -
  note wf = held_byD(1) [OF assms(1)]
  have lv: "levels f \<noteq> []" using assms(2) by (auto simp: Trie_AddRetain_def)
  from AddRetain_law [OF wf lv, of r] assms(2) have "wf_trie t'" by auto
  moreover from AddRetain_effect [OF wf_trieD(1) [OF wf] lv, of f "Some r"] assms(2)
  have "foliage t' = foliage t" and at: "\<forall>p g. leaf_at p g (root t') = (if g = f \<and> p = map TrimSpace (levels f)
        then Some (ret_leaf (Some r) (leaf_at p f (root t))) else leaf_at p g (root t))"
    by (auto simp: Trie_AddRetain_def)
  moreover have "sub_at (leaf_at p g (root t')) = sub_at (leaf_at p g (root t))" for p g
    by (simp add: at fun_eq_iff)
  ultimately show ?thesis by (intro held_by_root [OF assms(1)])
qed

lemma remove_retain_no_keys: "remove_retain_branches [] bs = Some r \<Longrightarrow> r = None"
proof (induction bs)
  case (Cons kb bs)
  obtain k b where "kb = (k, b)" by (cases kb)
  with Cons show ?case by (cases b) simp
qed simp

lemma held_by_RemoveRetain:
  assumes "held_by C t" "Trie_RemoveRetain f t = Some (t', e)"
  shows "held_by C t'"
proof (cases "levels f = []")
  case True
  with assms remove_retain_no_keys show ?thesis
    by (auto simp: Trie_RemoveRetain_def split: option.splits)
next
  case False
  note wf = held_byD(1) [OF assms(1)]
  from RemoveRetain_effect(2) [OF wf_children [OF wf_trieD(1) [OF wf]] False] show ?thesis
  proof (elim disjE exE conjE)
    fix k c c' p
    assume c: "(k, c) \<in> set (branches (root t))" "k # p = levels f"
      "remove_retain_branches (levels f) (branches (root t)) = Some (Some (k, c'))" "unretained p c c'"
    from assms(2) c(3) have t': "t' = t\<lparr>root := put_branch k c' (root t)\<rparr>"
      by (simp add: Trie_RemoveRetain_def put_branch_def)
    from RemoveRetain_law [OF wf False] assms(2) have w: "wf_trie t'" by (elim exE conjE) simp
    from unretained_child [OF wf_trieD(1) [OF wf] wf_branchD(6) [OF wf_trieD(1) [OF wf] c(1)] c(4)]
    obtain h l where at: "leaf_at (k # p) h (root t) = Some l"
      "\<forall>q g. leaf_at q g (put_branch k c' (root t)) =
         (if q = k # p \<and> g = h then Some (l\<lparr>retain := None\<rparr>) else leaf_at q g (root t))"
      unfolding unretained_def by blast
    have "sub_at (leaf_at q g (root t')) = sub_at (leaf_at q g (root t))" for q g
      using at by (simp add: t' fun_eq_iff del: leaf_at.simps)
    with w show ?thesis by (intro held_by_root [OF assms(1)]) (simp_all add: t')
  next
    assume "remove_retain_branches (levels f) (branches (root t)) = Some None"
    with assms show ?thesis by (simp add: Trie_RemoveRetain_def)
  qed
qed

section \<open>What a search finds\<close>

lemma set_fold_store:
  "set (fold (\<lambda>(k, v). AList.update k v) m acc) \<subseteq> set m \<union> set acc"
proof (induction m arbitrary: acc)
  case (Cons kv m)
  have "set (AList.update k v xs) \<subseteq> insert (k, v) (set xs)" for k v and xs :: "('a \<times> 'b) list"
    by (induction xs) auto
  with Cons [of "AList.update (fst kv) (snd kv) acc"] show ?case
    by (cases kv) fastforce
qed simp

lemma SearchLeaves_found:
  fixes b :: "('c, 'p) Branch" and bs :: "(string \<times> ('c, 'p) Branch) list"
  shows "wf_branch b \<Longrightarrow> SearchLeaves keys b = Some m \<Longrightarrow> (g, l) \<in> set m \<Longrightarrow>
     \<exists>p. leaf_at p g b = Some l"
  "go_map bs \<Longrightarrow> list_all (\<lambda>(k, c). name c = k \<and> wf_branch c) bs \<Longrightarrow> search_branches keys bs acc = Some m \<Longrightarrow>
     (g, l) \<in> set m \<Longrightarrow> (g, l) \<in> set acc \<or> (\<exists>(k, c) \<in> set bs. \<exists>p. leaf_at p g c = Some l)"
proof (induction keys b and keys bs acc arbitrary: m g l and m g l rule: SearchLeaves_search_branches.induct)
  case (1 keys n ls bs)
  note wf = "1.prems"(1)
  have own: "(g, l) \<in> set ls \<Longrightarrow> ?case"
    using wf_branchD(7) [OF wf, of g l] by (intro exI [of _ "[]"]) simp
  have below: "(\<exists>(k, c) \<in> set bs. \<exists>p. leaf_at p g c = Some l) \<Longrightarrow> ?case"
  proof clarify
    fix k c p assume "(k, c) \<in> set bs" "leaf_at p g c = Some l"
    with wf_branchD(6) [OF wf, of k c] show ?case by (intro exI [of _ "k # p"]) simp
  qed
  have bs: "go_map bs" "list_all (\<lambda>(k, c). name c = k \<and> wf_branch c) bs" using wf by auto
  show ?case
  proof (cases keys)
    case Nil
    with "1.prems" "1.IH"(1) [OF _ Nil] bs own below show ?thesis by (auto split: if_splits)
  next
    case (Cons k ks)
    with "1.prems" "1.IH"(2) [OF _ Cons] bs own below show ?thesis by (auto split: if_splits)
  qed
next
  case (3 keys k b bs acc)
  from "3.prems"(3) obtain s where s: "SearchLeaves keys b = Some s"
    "search_branches keys bs (fold (\<lambda>(k, v). AList.update k v) s acc) = Some m"
    by (auto split: option.splits)
  from "3.prems" have "wf_branch b" "go_map bs" "list_all (\<lambda>(k, c). name c = k \<and> wf_branch c) bs" by auto
  with "3.IH"(2) [OF s(1) _ _ s(2) "3.prems"(4)] "3.IH"(1) [OF _ s(1)] set_fold_store [of s acc]
  show ?case by (fastforce simp: split_beta)
qed auto

lemma search_roots_found:
  assumes "search_roots keys bs = Some cs" "list_all (\<lambda>(k, c). name c = k \<and> wf_branch c) bs"
    and "\<And>k b p g l i d. (k, b) \<in> set bs \<Longrightarrow> leaf_at p g b = Some l \<Longrightarrow> (i, d) \<in> set (subscribers l) \<Longrightarrow> C d"
  shows "\<forall>d \<in> set cs. C d"
  using assms
proof (induction keys bs arbitrary: cs rule: search_roots.induct)
  case (2 keys k b bs)
  then obtain found later where f: "SearchLeaves keys b = Some found" "search_roots keys bs = Some later"
    "cs = concat (map (\<lambda>(_, leaf). map snd (Leaf_Subscribers leaf)) found) @ later"
    by (auto split: Option.bind_splits)
  from "2.prems" have "wf_branch b" by simp
  have "C d" if g: "(g, l) \<in> set found" "(i, d) \<in> set (subscribers l)" for g l i d
  proof -
    from SearchLeaves_found(1) [OF \<open>wf_branch b\<close> f(1) g(1)] obtain p where "leaf_at p g b = Some l" by blast
    with "2.prems"(3) [of k b p g l i d] g(2) show ?thesis by simp
  qed
  moreover have "\<forall>d \<in> set later. C d"
  proof (rule "2.IH" [OF f(1) f(2)])
    show "list_all (\<lambda>(k, c). name c = k \<and> wf_branch c) bs" using "2.prems"(2) by simp
    show "C d" if "(k', b') \<in> set bs" "leaf_at p g b' = Some l" "(i, d) \<in> set (subscribers l)"
      for k' b' p g l i d
      using "2.prems"(3) [of k' b' p g l i d] that by simp
  qed
  ultimately show ?case unfolding f(3) by (auto simp: Leaf_Subscribers_def)
qed simp

lemma held_by_Subscribers:
  fixes t :: "('c, 'p) Trie"
  assumes "held_by C t" "Trie_Subscribers f t = Some cs" "d \<in> set cs"
  shows "C d"
proof -
  note wf = held_byD(1) [OF assms(1)]
  have leaf: "C e" if "holds_only C (Some l)" "wf_leaf l" "(i, e) \<in> set (subscribers l)"
    for l :: "('c, 'p) Leaf" and i e
    using that by (auto simp: holds_only_def wf_leaf_def go_map_in_set)
  have exact: "C e" if "map_of (foliage t) f = Some l" "(i, e) \<in> set (subscribers l)" for l i e
    using leaf [of l] held_byD(3) [OF assms(1), of f] wf_trieD(3) [OF wf] that by metis
  have below: "C e" if "(k, b) \<in> set (branches (root t))" "leaf_at p g b = Some l"
    "(i, e) \<in> set (subscribers l)" for k b p g l i e
  proof -
    have l: "leaf_at (k # p) g (root t) = Some l"
      using that wf_branchD(6) [OF wf_trieD(1) [OF wf]] by simp
    with wf_default [OF wf_trieD(1) [OF wf], of "k # p" g] have "wf_leaf l"
      by (simp del: leaf_at.simps)
    with l leaf held_byD(2) [OF assms(1), of "k # p" g] that(3) show ?thesis by metis
  qed
  show ?thesis
  proof (cases "wildcard f")
    case True
    with assms(2,3) show ?thesis by (simp add: Trie_Subscribers_def)
  next
    case False
    with assms(2) obtain found where found: "search_roots (levels f) (branches (root t)) = Some found"
      and cs: "cs = (case map_of (foliage t) f of None \<Rightarrow> [] | Some l \<Rightarrow> map snd (Leaf_Subscribers l)) @ found"
      by (auto simp: Trie_Subscribers_def Let_def split: Option.bind_splits)
    have "\<forall>d \<in> set found. C d"
      by (rule search_roots_found [OF found wf_children [OF wf_trieD(1) [OF wf]]]) (rule below)
    with assms(3) exact show ?thesis
      unfolding cs by (cases "map_of (foliage t) f") (auto simp: Leaf_Subscribers_def)
  qed
qed

end
