(* ===== verification/World.thy ===== *)
theory World
  imports Packet_Laws Topic_Storage
begin

text \<open>
  What the goroutines of the broker share: the server of \<open>server/server.go\<close> with its two topic
  storages, its maps of clients and of cluster peers and its counters (\<open>ifs/i_server.go\<close>), the
  client objects of \<open>broker/clients.go\<close> and \<open>cluster/clients.go\<close>, their connections, and the
  broker processor's table of QoS 2 messages with its timers.

  Client objects and connections are shared by pointer (a client sits in the map of clients
  and in many leaves of the topic storage), so they live in heaps and are named by their
  addresses. An operation takes the world and returns the new one; \<open>None\<close> is a panic, which
  nothing recovers from and which ends the process. The counters are 64-bit words. A method of a client is one
  step here, as if no other goroutine were in one of the same client; \<open>Client_Calls\<close> has the accesses
  of \<open>ReadPacket\<close>, \<open>WritePacket\<close> and \<open>Close\<close> one by one.
\<close>

section \<open>The state of the server\<close>

type_synonym int64 = "64 word"

record ServerState =
  BytesRecv :: int64
  BytesSent :: int64
  ClientsConnected :: int64
  ClientsDisconnected :: int64
  ClientsMax :: int64
  ClientsTotal :: int64
  Inflight :: int64
  MsgRecv :: int64
  MsgSent :: int64
  PubRecv :: int64
  PubSent :: int64
  RetainCount :: int64
  StoreCount :: int64
  StoreBytes :: int64
  SubCount :: int64
  Version :: string
  Uptime :: int64

definition NewState :: "string \<Rightarrow> int64 \<Rightarrow> ServerState" where
  "NewState version now =
     \<lparr>BytesRecv = 0, BytesSent = 0, ClientsConnected = 0, ClientsDisconnected = 0, ClientsMax = 0,
      ClientsTotal = 0, Inflight = 0, MsgRecv = 0, MsgSent = 0, PubRecv = 0, PubSent = 0,
      RetainCount = 0, StoreCount = 0, StoreBytes = 0, SubCount = 0,
      Version = ''1.0.0'', Uptime = now\<rparr>"

section \<open>Clients and connections\<close>

text \<open>
  The two implementations of the interface \<open>ifs.Client\<close>. The fields of the cluster's client are
  those of the broker's less \<open>will\<close>, so one record serves both, with the package it is of.
\<close>

datatype client_kind = BrokerClient | ClusterClient

datatype conn_type = TypClient | TypServer | TypTcp | TypWs

type_synonym cref = nat
type_synonym connref = nat

record Client =
  kind :: client_kind
  client_id :: string
  conn :: "connref option"
  client_done :: bool
  client_topics :: "(string \<times> string) list"
  client_typ :: conn_type
  will :: "PublishPacket option"

text \<open>
  A connection: the bytes the peer sends from here on until it closes its side, the bytes the
  client has written, and whether it is still up. Writing to or reading from a connection that
  is down is an error. A read takes the bytes it needs when it happens, so that \<open>incoming\<close> is
  given as a whole does not fix when they arrive.
\<close>

record Conn =
  incoming :: "byte list"
  sent :: "byte list"
  up :: bool

record World =
  brokerTopics :: "(cref, PublishPacket) Trie"
  clusterTopics :: "(cref, PublishPacket) Trie"
  clients :: "(string \<times> cref) list"
  clusters :: "(string \<times> cref) list"
  server_state :: ServerState
  heap :: "cref \<Rightarrow> Client option"
  next_cref :: cref
  conns :: "connref \<Rightarrow> Conn option"
  qos2Msgs :: "(uint16 \<times> int64) list"
  maxQos2Msgs :: nat
  timers :: "int64 list"
  clock :: int64

definition NewServer :: "int64 \<Rightarrow> World" where
  "NewServer now =
     \<lparr>brokerTopics = NewTrie, clusterTopics = NewTrie, clients = [], clusters = [],
      server_state = NewState ''1.0.0'' now, heap = (\<lambda>_. None), next_cref = 0,
      conns = (\<lambda>_. None), qos2Msgs = [], maxQos2Msgs = 0, timers = [], clock = now\<rparr>"

text \<open>\<open>atomic.AddInt64\<close> on a counter.\<close>

definition count :: "(ServerState \<Rightarrow> ServerState) \<Rightarrow> World \<Rightarrow> World" where
  "count f w = w\<lparr>server_state := f (server_state w)\<rparr>"

definition conn_Write :: "connref \<Rightarrow> byte list \<Rightarrow> World \<Rightarrow> go_error option \<times> World" where
  "conn_Write k bs w =
     (case conns w k of
        None \<Rightarrow> (Some ErrConnWrite, w)
      | Some c \<Rightarrow>
          if up c then (None, w\<lparr>conns := (conns w)(k \<mapsto> c\<lparr>sent := sent c @ bs\<rparr>)\<rparr>)
          else (Some ErrConnWrite, w))"

definition conn_Close :: "connref \<Rightarrow> World \<Rightarrow> World" where
  "conn_Close k w =
     (case conns w k of None \<Rightarrow> w | Some c \<Rightarrow> w\<lparr>conns := (conns w)(k \<mapsto> c\<lparr>up := False\<rparr>)\<rparr>)"

definition set_client :: "cref \<Rightarrow> Client \<Rightarrow> World \<Rightarrow> World" where
  "set_client c cl w = w\<lparr>heap := (heap w)(c \<mapsto> cl)\<rparr>"

text \<open>
  Reading a packet off a connection and writing one to it. The packet is returned because \<open>Write\<close>
  stores its lengths in it.
\<close>

definition conn_ReadPacket :: "connref \<Rightarrow> World \<Rightarrow> ControlPacket option \<times> go_error option \<times> World" where
  "conn_ReadPacket k w =
     (case conns w k of
        None \<Rightarrow> (None, Some EOF, w)
      | Some cn \<Rightarrow>
          if up cn then
            (case ReadPacket (incoming cn) of
               (p, err, rest) \<Rightarrow> (p, err, w\<lparr>conns := (conns w)(k \<mapsto> cn\<lparr>incoming := rest\<rparr>)\<rparr>))
          else (None, Some EOF, w))"

definition conn_WritePacket ::
  "connref \<Rightarrow> ControlPacket \<Rightarrow> World \<Rightarrow> (go_error option \<times> ControlPacket \<times> World) option" where
  "conn_WritePacket k packet w =
     do { (bs, packet) \<leftarrow> Write packet;
          let (err, w) = conn_Write k bs w;
          Some (err, packet, w) }"

section \<open>The client of the broker package\<close>

definition broker_NewClient :: "connref \<Rightarrow> conn_type \<Rightarrow> World \<Rightarrow> cref \<times> World" where
  "broker_NewClient k t w =
     (let c = next_cref w;
          cl = \<lparr>kind = BrokerClient, client_id = [], conn = Some k, client_done = False,
                client_topics = [], client_typ = t, will = None\<rparr>
      in (c, (set_client c cl w)\<lparr>next_cref := c + 1\<rparr>))"

definition broker_SetId :: "cref \<Rightarrow> string \<Rightarrow> World \<Rightarrow> World option" where
  "broker_SetId c i w = do { cl \<leftarrow> heap w c; Some (set_client c (cl\<lparr>client_id := i\<rparr>) w) }"

definition broker_SetConn :: "cref \<Rightarrow> connref option \<Rightarrow> World \<Rightarrow> World option" where
  "broker_SetConn c k w = do { cl \<leftarrow> heap w c; Some (set_client c (cl\<lparr>conn := k\<rparr>) w) }"

definition broker_GetId :: "cref \<Rightarrow> World \<Rightarrow> string option" where
  "broker_GetId c w = map_option client_id (heap w c)"

definition broker_GetConn :: "cref \<Rightarrow> World \<Rightarrow> connref option option" where
  "broker_GetConn c w = map_option conn (heap w c)"

definition broker_GetTyp :: "cref \<Rightarrow> World \<Rightarrow> conn_type option" where
  "broker_GetTyp c w = map_option client_typ (heap w c)"

text \<open>The type assertion \<open>client.(*Client)\<close> panics on a client of the other package.\<close>

definition SetWill :: "cref \<Rightarrow> PublishPacket \<Rightarrow> World \<Rightarrow> World option" where
  "SetWill c p w =
     do { cl \<leftarrow> heap w c;
          if kind cl = BrokerClient then Some (set_client c (cl\<lparr>will := Some p\<rparr>) w) else None }"

definition broker_ReadPacket ::
  "cref \<Rightarrow> World \<Rightarrow> (ControlPacket option \<times> go_error option \<times> World) option" where
  "broker_ReadPacket c w =
     do {
       cl \<leftarrow> heap w c;
       case conn cl of
         Some k \<Rightarrow> Some (conn_ReadPacket k w)
       | None \<Rightarrow> Some (None, Some ErrConnDisconnected, w)
     }"

text \<open>Without a connection the packet is dropped and success reported.\<close>

definition broker_WritePacket ::
  "cref \<Rightarrow> ControlPacket \<Rightarrow> World \<Rightarrow> (go_error option \<times> ControlPacket \<times> World) option" where
  "broker_WritePacket c packet w =
     do {
       cl \<leftarrow> heap w c;
       case conn cl of
         Some k \<Rightarrow> conn_WritePacket k packet w
       | None \<Rightarrow> Some (None, packet, w)
     }"

definition broker_AddTopic :: "cref \<Rightarrow> string \<Rightarrow> string \<Rightarrow> World \<Rightarrow> (World \<times> bool) option" where
  "broker_AddTopic c topic data w =
     do { cl \<leftarrow> heap w c;
          let exist = map_of (client_topics cl) topic \<noteq> None;
          Some (set_client c (cl\<lparr>client_topics := go_store topic data (client_topics cl)\<rparr>) w, exist) }"

definition broker_RemoveTopic :: "cref \<Rightarrow> string \<Rightarrow> World \<Rightarrow> (World \<times> go_error option) option" where
  "broker_RemoveTopic c topic w =
     do { cl \<leftarrow> heap w c;
          if map_of (client_topics cl) topic = None then Some (w, Some ErrTopicNotExist)
          else Some (set_client c (cl\<lparr>client_topics := go_delete topic (client_topics cl)\<rparr>) w, None) }"

text \<open>\<open>Close\<close> cancels the client's context, closes its connection and forgets it.\<close>

definition broker_Close :: "cref \<Rightarrow> World \<Rightarrow> World option" where
  "broker_Close c w =
     do {
       cl \<leftarrow> heap w c;
       let w = (case conn cl of None \<Rightarrow> w | Some k \<Rightarrow> conn_Close k w);
       Some (set_client c (cl\<lparr>client_done := True, conn := None\<rparr>) w)
     }"

section \<open>The client of the cluster package\<close>

definition cluster_NewClient :: "connref \<Rightarrow> conn_type \<Rightarrow> World \<Rightarrow> cref \<times> World" where
  "cluster_NewClient k t w =
     (let c = next_cref w;
          cl = \<lparr>kind = ClusterClient, client_id = [], conn = Some k, client_done = False,
                client_topics = [], client_typ = t, will = None\<rparr>
      in (c, (set_client c cl w)\<lparr>next_cref := c + 1\<rparr>))"

definition cluster_SetId :: "cref \<Rightarrow> string \<Rightarrow> World \<Rightarrow> World option" where
  "cluster_SetId c i w = do { cl \<leftarrow> heap w c; Some (set_client c (cl\<lparr>client_id := i\<rparr>) w) }"

definition cluster_SetConn :: "cref \<Rightarrow> connref option \<Rightarrow> World \<Rightarrow> World option" where
  "cluster_SetConn c k w = do { cl \<leftarrow> heap w c; Some (set_client c (cl\<lparr>conn := k\<rparr>) w) }"

definition cluster_GetId :: "cref \<Rightarrow> World \<Rightarrow> string option" where
  "cluster_GetId c w = map_option client_id (heap w c)"

definition cluster_GetConn :: "cref \<Rightarrow> World \<Rightarrow> connref option option" where
  "cluster_GetConn c w = map_option conn (heap w c)"

definition cluster_GetTyp :: "cref \<Rightarrow> World \<Rightarrow> conn_type option" where
  "cluster_GetTyp c w = map_option client_typ (heap w c)"

definition cluster_ReadPacket ::
  "cref \<Rightarrow> World \<Rightarrow> (ControlPacket option \<times> go_error option \<times> World) option" where
  "cluster_ReadPacket c w =
     do {
       cl \<leftarrow> heap w c;
       case conn cl of
         Some k \<Rightarrow> Some (conn_ReadPacket k w)
       | None \<Rightarrow> Some (None, Some ErrConnDisconnected, w)
     }"

text \<open>Without a connection an error is reported.\<close>

definition cluster_WritePacket ::
  "cref \<Rightarrow> ControlPacket \<Rightarrow> World \<Rightarrow> (go_error option \<times> ControlPacket \<times> World) option" where
  "cluster_WritePacket c packet w =
     do {
       cl \<leftarrow> heap w c;
       case conn cl of
         None \<Rightarrow> Some (Some ErrConnDisconnected, packet, w)
       | Some k \<Rightarrow> conn_WritePacket k packet w
     }"

definition cluster_AddTopic :: "cref \<Rightarrow> string \<Rightarrow> string \<Rightarrow> World \<Rightarrow> (World \<times> bool) option" where
  "cluster_AddTopic c topic data w =
     do { cl \<leftarrow> heap w c;
          let exist = map_of (client_topics cl) topic \<noteq> None;
          Some (set_client c (cl\<lparr>client_topics := go_store topic data (client_topics cl)\<rparr>) w, exist) }"

definition cluster_RemoveTopic :: "cref \<Rightarrow> string \<Rightarrow> World \<Rightarrow> (World \<times> go_error option) option" where
  "cluster_RemoveTopic c topic w =
     do { cl \<leftarrow> heap w c;
          if map_of (client_topics cl) topic = None then Some (w, Some ErrTopicNotExist)
          else Some (set_client c (cl\<lparr>client_topics := go_delete topic (client_topics cl)\<rparr>) w, None) }"

definition cluster_Close :: "cref \<Rightarrow> World \<Rightarrow> World option" where
  "cluster_Close c w =
     do {
       cl \<leftarrow> heap w c;
       let w = (case conn cl of None \<Rightarrow> w | Some k \<Rightarrow> conn_Close k w);
       Some (set_client c (cl\<lparr>client_done := True, conn := None\<rparr>) w)
     }"

section \<open>The interface \<open>ifs.Client\<close>\<close>

text \<open>
  A method of the interface is the one of the client's package. Nothing calls \<open>SetConn\<close> or
  \<open>GetConn\<close>.
\<close>

definition dispatch :: "cref \<Rightarrow> World \<Rightarrow> 'a option \<Rightarrow> 'a option \<Rightarrow> 'a option" where
  "dispatch c w b k =
     do { cl \<leftarrow> heap w c; case kind cl of BrokerClient \<Rightarrow> b | ClusterClient \<Rightarrow> k }"

definition NewClient :: "client_kind \<Rightarrow> connref \<Rightarrow> conn_type \<Rightarrow> World \<Rightarrow> cref \<times> World" where
  "NewClient pkg k t w =
     (case pkg of BrokerClient \<Rightarrow> broker_NewClient k t w | ClusterClient \<Rightarrow> cluster_NewClient k t w)"

definition SetId :: "cref \<Rightarrow> string \<Rightarrow> World \<Rightarrow> World option" where
  "SetId c i w = dispatch c w (broker_SetId c i w) (cluster_SetId c i w)"

definition SetConn :: "cref \<Rightarrow> connref option \<Rightarrow> World \<Rightarrow> World option" where
  "SetConn c k w = dispatch c w (broker_SetConn c k w) (cluster_SetConn c k w)"

definition GetId :: "cref \<Rightarrow> World \<Rightarrow> string option" where
  "GetId c w = dispatch c w (broker_GetId c w) (cluster_GetId c w)"

definition GetConn :: "cref \<Rightarrow> World \<Rightarrow> connref option option" where
  "GetConn c w = dispatch c w (broker_GetConn c w) (cluster_GetConn c w)"

definition GetTyp :: "cref \<Rightarrow> World \<Rightarrow> conn_type option" where
  "GetTyp c w = dispatch c w (broker_GetTyp c w) (cluster_GetTyp c w)"

definition client_ReadPacket ::
  "cref \<Rightarrow> World \<Rightarrow> (ControlPacket option \<times> go_error option \<times> World) option" where
  "client_ReadPacket c w = dispatch c w (broker_ReadPacket c w) (cluster_ReadPacket c w)"

definition client_WritePacket ::
  "cref \<Rightarrow> ControlPacket \<Rightarrow> World \<Rightarrow> (go_error option \<times> ControlPacket \<times> World) option" where
  "client_WritePacket c packet w =
     dispatch c w (broker_WritePacket c packet w) (cluster_WritePacket c packet w)"

definition AddTopic :: "cref \<Rightarrow> string \<Rightarrow> string \<Rightarrow> World \<Rightarrow> (World \<times> bool) option" where
  "AddTopic c topic data w =
     dispatch c w (broker_AddTopic c topic data w) (cluster_AddTopic c topic data w)"

definition RemoveTopic :: "cref \<Rightarrow> string \<Rightarrow> World \<Rightarrow> (World \<times> go_error option) option" where
  "RemoveTopic c topic w =
     dispatch c w (broker_RemoveTopic c topic w) (cluster_RemoveTopic c topic w)"

definition client_Close :: "cref \<Rightarrow> World \<Rightarrow> World option" where
  "client_Close c w = dispatch c w (broker_Close c w) (cluster_Close c w)"

section \<open>What the packages have in common\<close>

lemmas dispatch_defs = dispatch_def conn_ReadPacket_def conn_WritePacket_def

lemma NewClient_eq:
  "NewClient pkg k t w =
     (let c = next_cref w;
          cl = \<lparr>kind = pkg, client_id = [], conn = Some k, client_done = False,
                client_topics = [], client_typ = t, will = None\<rparr>
      in (c, (set_client c cl w)\<lparr>next_cref := c + 1\<rparr>))"
  by (cases pkg) (simp_all add: NewClient_def broker_NewClient_def cluster_NewClient_def)

lemma SetId_eq: "SetId c i w = do { cl \<leftarrow> heap w c; Some (set_client c (cl\<lparr>client_id := i\<rparr>) w) }"
  by (cases "heap w c")
    (simp_all add: SetId_def broker_SetId_def cluster_SetId_def dispatch_defs split: client_kind.split)

lemma GetId_eq: "GetId c w = map_option client_id (heap w c)"
  by (cases "heap w c")
    (simp_all add: GetId_def broker_GetId_def cluster_GetId_def dispatch_defs split: client_kind.split)

lemma GetTyp_eq: "GetTyp c w = map_option client_typ (heap w c)"
  by (cases "heap w c")
    (simp_all add: GetTyp_def broker_GetTyp_def cluster_GetTyp_def dispatch_defs split: client_kind.split)

lemma client_WritePacket_eq:
  "client_WritePacket c packet w =
     do {
       cl \<leftarrow> heap w c;
       case conn cl of
         None \<Rightarrow>
           (case kind cl of
              BrokerClient \<Rightarrow> Some (None, packet, w)
            | ClusterClient \<Rightarrow> Some (Some ErrConnDisconnected, packet, w))
       | Some k \<Rightarrow>
           do { (bs, packet) \<leftarrow> Write packet;
                let (err, w) = conn_Write k bs w;
                Some (err, packet, w) }
     }"
  by (cases "heap w c") (simp_all add: client_WritePacket_def broker_WritePacket_def cluster_WritePacket_def
      dispatch_defs split: client_kind.split option.split)

lemma client_ReadPacket_eq:
  "client_ReadPacket c w =
     do {
       cl \<leftarrow> heap w c;
       case conn cl of
         None \<Rightarrow> Some (None, Some ErrConnDisconnected, w)
       | Some k \<Rightarrow>
           (case conns w k of
              None \<Rightarrow> Some (None, Some EOF, w)
            | Some cn \<Rightarrow>
                if up cn then
                  (case ReadPacket (incoming cn) of
                     (p, err, rest) \<Rightarrow>
                       Some (p, err, w\<lparr>conns := (conns w)(k \<mapsto> cn\<lparr>incoming := rest\<rparr>)\<rparr>))
                else Some (None, Some EOF, w))
     }"
  by (cases "heap w c") (simp_all add: client_ReadPacket_def broker_ReadPacket_def cluster_ReadPacket_def
      dispatch_defs split: client_kind.split option.split prod.split)

lemma AddTopic_eq:
  "AddTopic c topic data w =
     do { cl \<leftarrow> heap w c;
          let exist = map_of (client_topics cl) topic \<noteq> None;
          Some (set_client c (cl\<lparr>client_topics := go_store topic data (client_topics cl)\<rparr>) w, exist) }"
  by (cases "heap w c")
    (simp_all add: AddTopic_def broker_AddTopic_def cluster_AddTopic_def dispatch_defs split: client_kind.split)

lemma RemoveTopic_eq:
  "RemoveTopic c topic w =
     do { cl \<leftarrow> heap w c;
          if map_of (client_topics cl) topic = None then Some (w, Some ErrTopicNotExist)
          else Some (set_client c (cl\<lparr>client_topics := go_delete topic (client_topics cl)\<rparr>) w, None) }"
  by (cases "heap w c")
    (simp_all add: RemoveTopic_def broker_RemoveTopic_def cluster_RemoveTopic_def dispatch_defs split: client_kind.split)

lemma client_Close_eq:
  "client_Close c w =
     do {
       cl \<leftarrow> heap w c;
       let w = (case conn cl of None \<Rightarrow> w | Some k \<Rightarrow> conn_Close k w);
       Some (set_client c (cl\<lparr>client_done := True, conn := None\<rparr>) w)
     }"
  by (cases "heap w c")
    (simp_all add: client_Close_def broker_Close_def cluster_Close_def dispatch_defs split: client_kind.split)

end
