(* ===== verification/Broker_Processor.thy ===== *)
theory Broker_Processor
  imports World
begin

text \<open>
  \<open>broker/processor.go\<close>: what the broker does with a packet from a client. Each \<open>Process\<close>
  function is one step of the world; the messages of the log are left out.
\<close>

definition Qos2Timeout :: int64 where "Qos2Timeout = 20"

section \<open>The table of QoS 2 messages\<close>

definition checkQos2Msg :: "uint16 \<Rightarrow> World \<Rightarrow> World \<times> go_error option" where
  "checkQos2Msg messageId w =
     (if map_of (qos2Msgs w) messageId \<noteq> None
      then (w\<lparr>qos2Msgs := go_delete messageId (qos2Msgs w)\<rparr>, None)
      else (w, Some ErrQos2NotFound))"

definition isQos2MsgFull :: "World \<Rightarrow> bool" where
  "isQos2MsgFull w =
     (if maxQos2Msgs w = 0 then False
      else if length (qos2Msgs w) < maxQos2Msgs w then False else True)"

text \<open>\<open>time.AfterFunc\<close> leaves a timer behind, which runs \<open>expireQos2Msg\<close> when it is due.\<close>

definition saveQos2Msg :: "uint16 \<Rightarrow> World \<Rightarrow> World \<times> go_error option" where
  "saveQos2Msg messageId w =
     (if isQos2MsgFull w then (w, Some ErrQos2Full)
      else if map_of (qos2Msgs w) messageId \<noteq> None then (w, Some ErrQos2Exist)
      else (w\<lparr>qos2Msgs := go_store messageId (clock w) (qos2Msgs w),
              timers := timers w @ [clock w + Qos2Timeout]\<rparr>, None))"

definition expireQos2Msg :: "World \<Rightarrow> World" where
  "expireQos2Msg w =
     w\<lparr>qos2Msgs := filter (\<lambda>(messageId, ts). \<not> Qos2Timeout \<le>s clock w - ts) (qos2Msgs w)\<rparr>"

section \<open>Writing and publishing\<close>

definition WritePacket ::
  "cref \<Rightarrow> ControlPacket \<Rightarrow> World \<Rightarrow> (go_error option \<times> ControlPacket \<times> World) option" where
  "WritePacket client packet w =
     do {
       (err, packet, w) \<leftarrow> client_WritePacket client packet w;
       if err \<noteq> None then Some (err, packet, w)
       else Some (None, packet, count (\<lambda>s. s\<lparr>MsgSent := MsgSent s + 1,
              BytesSent := BytesSent s + word_of_int (Size packet)\<rparr>) w)
     }"

text \<open>
  The loop over the subscribers of a topic. \<open>seen\<close> (the code's \<open>history\<close>) holds the identities that have been
  served: a message is sent to a client once. The broker's own loop counts what it sends,
  whether or not the write fails.
\<close>

fun deliver_loop ::
  "bool \<Rightarrow> cref list \<Rightarrow> string list \<Rightarrow> ControlPacket \<Rightarrow> World \<Rightarrow> (ControlPacket \<times> World) option" where
  "deliver_loop counted [] seen packet w = Some (packet, w)"
| "deliver_loop counted (client # subs) seen packet w =
     do {
       i \<leftarrow> GetId client w;
       if i \<in> set seen then deliver_loop counted subs seen packet w
       else do {
         (_, packet, w) \<leftarrow> client_WritePacket client packet w;
         let w = (if counted then count (\<lambda>s. s\<lparr>PubSent := PubSent s + 1\<rparr>) w else w);
         deliver_loop counted subs (i # seen) packet w
       }
     }"

definition DoPublish :: "string \<Rightarrow> ControlPacket \<Rightarrow> World \<Rightarrow> (ControlPacket \<times> World) option" where
  "DoPublish topic packet w =
     do {
       brokerSubs \<leftarrow> Trie_Subscribers topic (brokerTopics w);
       let w = count (\<lambda>s. s\<lparr>PubRecv := PubRecv s + 1\<rparr>) w;
       (packet, w) \<leftarrow> deliver_loop True brokerSubs [] packet w;
       clusterSubs \<leftarrow> Trie_Subscribers topic (clusterTopics w);
       deliver_loop False clusterSubs [] packet w
     }"

definition puback_for :: "uint16 \<Rightarrow> ControlPacket" where
  "puback_for i = PubackP ((new_PubackPacket (zero_header\<lparr>MessageType := Puback\<rparr>))\<lparr>puback_MessageID := i\<rparr>)"

definition pubrec_for :: "uint16 \<Rightarrow> ControlPacket" where
  "pubrec_for i = PubrecP ((new_PubrecPacket (zero_header\<lparr>MessageType := Pubrec\<rparr>))\<lparr>pubrec_MessageID := i\<rparr>)"

definition pubcomp_for :: "uint16 \<Rightarrow> ControlPacket" where
  "pubcomp_for i =
     PubcompP ((new_PubcompPacket (zero_header\<lparr>MessageType := Pubcomp\<rparr>))\<lparr>pubcomp_MessageID := i\<rparr>)"

definition suback_for :: "uint16 \<Rightarrow> ControlPacket" where
  "suback_for i = SubackP ((new_SubackPacket (zero_header\<lparr>MessageType := Suback\<rparr>))\<lparr>suback_MessageID := i\<rparr>)"

definition unsuback_for :: "uint16 \<Rightarrow> ControlPacket" where
  "unsuback_for i =
     UnsubackP ((new_UnsubackPacket (zero_header\<lparr>MessageType := Unsuback\<rparr>))\<lparr>unsuback_MessageID := i\<rparr>)"

text \<open>
  The end of \<open>ProcessPublish\<close>: a retained message is stored, or, if its payload is empty,
  the stored one removed.
\<close>

definition process_retain :: "string \<Rightarrow> PublishPacket \<Rightarrow> World \<Rightarrow> World option" where
  "process_retain topic packet w =
     (if Retain packet then
        if length (Payload packet) > 0 then
          do { (t, exist) \<leftarrow> Trie_AddRetain topic packet (brokerTopics w);
               let w = w\<lparr>brokerTopics := t\<rparr>;
               Some (if \<not> exist then count (\<lambda>s. s\<lparr>RetainCount := RetainCount s + 1\<rparr>) w else w) }
        else
          do { (t, exist) \<leftarrow> Trie_RemoveRetain topic (brokerTopics w);
               let w = w\<lparr>brokerTopics := t\<rparr>;
               Some (if exist then count (\<lambda>s. s\<lparr>RetainCount := RetainCount s - 1\<rparr>) w else w) }
      else Some w)"

text \<open>The publish packet after it was written, with the lengths stored in it.\<close>

definition as_publish :: "ControlPacket \<Rightarrow> PublishPacket \<Rightarrow> PublishPacket" where
  "as_publish p old = (case p of PublishP q \<Rightarrow> q | _ \<Rightarrow> old)"

definition ProcessPublish :: "cref \<Rightarrow> PublishPacket \<Rightarrow> World \<Rightarrow> World option" where
  "ProcessPublish client packet w =
     (let topic = TopicName packet;
          publish = (\<lambda>w. do { (p, w) \<leftarrow> DoPublish topic (PublishP packet) w;
                              process_retain topic (as_publish p packet) w })
      in if Qos packet = 0 then publish w
         else if Qos packet = 1 then
           do { (err, _, w) \<leftarrow> WritePacket client (puback_for (pub_MessageID packet)) w;
                if err \<noteq> None then Some w else publish w }
         else if Qos packet = 2 then
           (case saveQos2Msg (pub_MessageID packet) w of
              (w, Some e) \<Rightarrow> Some w
            | (w, None) \<Rightarrow>
                do { (err, _, w) \<leftarrow> WritePacket client (pubrec_for (pub_MessageID packet)) w;
                     if err \<noteq> None then Some w else publish w })
         else Some w)"

section \<open>Subscriptions\<close>

text \<open>\<open>Range\<close> over the peers of the cluster: each is sent the packet, errors are ignored.\<close>

fun to_clusters :: "(string \<times> cref) list \<Rightarrow> ControlPacket \<Rightarrow> World \<Rightarrow> World option" where
  "to_clusters [] packet w = Some w"
| "to_clusters ((_, c) # cs) packet w =
     do { (_, packet, w) \<leftarrow> client_WritePacket c packet w; to_clusters cs packet w }"

fun unsubscribe_topics :: "cref \<Rightarrow> string list \<Rightarrow> World \<Rightarrow> World option" where
  "unsubscribe_topics client [] w = Some w"
| "unsubscribe_topics client (topic # topics) w =
     do {
       (w, _) \<leftarrow> RemoveTopic client topic w;
       i \<leftarrow> GetId client w;
       (t, exist) \<leftarrow> Trie_Unsubscribe topic i (brokerTopics w);
       let w = w\<lparr>brokerTopics := t\<rparr>;
       let w = (if exist then count (\<lambda>s. s\<lparr>SubCount := SubCount s - 1\<rparr>) w else w);
       unsubscribe_topics client topics w
     }"

definition ProcessUnSubscribe :: "cref \<Rightarrow> UnsubscribePacket \<Rightarrow> World \<Rightarrow> World option" where
  "ProcessUnSubscribe client packet w =
     do {
       (_, _, w) \<leftarrow> WritePacket client (unsuback_for (unsub_MessageID packet)) w;
       w \<leftarrow> unsubscribe_topics client (unsub_Topics packet) w;
       to_clusters (clusters w) (UnsubscribeP packet) w
     }"

fun send_retains :: "cref \<Rightarrow> PublishPacket list \<Rightarrow> World \<Rightarrow> World option" where
  "send_retains client [] w = Some w"
| "send_retains client (p # ps) w =
     do { (_, _, w) \<leftarrow> WritePacket client (PublishP p) w; send_retains client ps w }"

fun subscribe_to :: "cref \<Rightarrow> string list \<Rightarrow> World \<Rightarrow> World option" where
  "subscribe_to client [] w = Some w"
| "subscribe_to client (topic # topics) w =
     do {
       i \<leftarrow> GetId client w;
       (w, _) \<leftarrow> AddTopic client topic i w;
       (t, exist) \<leftarrow> Trie_Subscribe topic i client (brokerTopics w);
       let w = w\<lparr>brokerTopics := t\<rparr>;
       let w = (if \<not> exist then count (\<lambda>s. s\<lparr>SubCount := SubCount s + 1\<rparr>) w else w);
       retains \<leftarrow> Trie_SearchRetain topic (brokerTopics w);
       w \<leftarrow> send_retains client retains w;
       subscribe_to client topics w
     }"

definition ProcessSubscribe :: "cref \<Rightarrow> SubscribePacket \<Rightarrow> World \<Rightarrow> World option" where
  "ProcessSubscribe client packet w =
     do {
       (_, _, w) \<leftarrow> WritePacket client (suback_for (sub_MessageID packet)) w;
       w \<leftarrow> subscribe_to client (sub_Topics packet) w;
       to_clusters (clusters w) (SubscribeP packet) w
     }"

section \<open>Ping, disconnect, release, connect\<close>

definition ProcessPing :: "cref \<Rightarrow> World \<Rightarrow> World option" where
  "ProcessPing client w =
     do { (_, _, w) \<leftarrow> WritePacket client (PingrespP (zero_header\<lparr>MessageType := Pingresp\<rparr>)) w;
          Some w }"

text \<open>The range over \<open>client.Topics()\<close> removes the topic it visits from the map.\<close>

definition ProcessDisconnect :: "cref \<Rightarrow> World \<Rightarrow> World option" where
  "ProcessDisconnect client w =
     do {
       w \<leftarrow> client_Close client w;
       cl \<leftarrow> heap w client;
       w \<leftarrow> unsubscribe_topics client (map fst (client_topics cl)) w;
       Some (count (\<lambda>s. s\<lparr>ClientsConnected := ClientsConnected s - 1,
                           ClientsDisconnected := ClientsDisconnected s + 1\<rparr>) w)
     }"

definition ProcessPubrel :: "cref \<Rightarrow> PubrelPacket \<Rightarrow> World \<Rightarrow> World option" where
  "ProcessPubrel client packet w =
     do { let (w, _) = checkQos2Msg (pubrel_MessageID packet) w;
          (_, _, w) \<leftarrow> WritePacket client (pubcomp_for (pubrel_MessageID packet)) w;
          Some w }"

definition connack_for :: "ConnectPacket \<Rightarrow> ControlPacket" where
  "connack_for cp = ConnackP ((new_ConnackPacket (zero_header\<lparr>MessageType := Connack\<rparr>))
     \<lparr>SessionPresent := CleanSession cp, ReturnCode := Validate cp\<rparr>)"

definition will_of :: "ConnectPacket \<Rightarrow> PublishPacket" where
  "will_of cp = (new_PublishPacket (zero_header\<lparr>MessageType := Publish\<rparr>))
     \<lparr>Retain := WillRetain cp, Payload := WillMessage cp, TopicName := WillTopic cp,
      Qos := WillQos cp, Dup := Dup cp\<rparr>"

definition ProcessConnect :: "cref \<Rightarrow> ConnectPacket \<Rightarrow> World \<Rightarrow> World option" where
  "ProcessConnect client cp w =
     do {
       let clientId = ClientIdentifier cp;
       w \<leftarrow> (case map_of (clients w) clientId of
               None \<Rightarrow> Some w
             | Some oldClient \<Rightarrow> client_Close oldClient w);
       (err, _, w) \<leftarrow> WritePacket client (connack_for cp) w;
       if err \<noteq> None then Some w
       else do {
         w \<leftarrow> SetId client clientId w;
         let w = w\<lparr>clients := go_store clientId client (clients w)\<rparr>;
         w \<leftarrow> (if WillFlag cp then SetWill client (will_of cp) w else Some w);
         let w = count (\<lambda>s. s\<lparr>ClientsTotal := ClientsTotal s + 1,
                               ClientsConnected := ClientsConnected s + 1\<rparr>) w;
         Some (if ClientsMax (server_state w) <s ClientsConnected (server_state w)
               then count (\<lambda>s. s\<lparr>ClientsMax := ClientsMax s + 1\<rparr>) w else w)
       }
     }"

section \<open>ProcessMessage\<close>

definition ProcessMessage :: "cref \<Rightarrow> ControlPacket \<Rightarrow> World \<Rightarrow> World option" where
  "ProcessMessage client cp w =
     (let w = count (\<lambda>s. s\<lparr>BytesRecv := BytesRecv s + word_of_int (Size cp),
                            MsgRecv := MsgRecv s + 1\<rparr>) w
      in case cp of
           PublishP packet \<Rightarrow> ProcessPublish client packet w
         | PubrelP packet \<Rightarrow> ProcessPubrel client packet w
         | SubscribeP packet \<Rightarrow> ProcessSubscribe client packet w
         | UnsubscribeP packet \<Rightarrow> ProcessUnSubscribe client packet w
         | PingreqP packet \<Rightarrow> ProcessPing client w
         | DisconnectP packet \<Rightarrow> ProcessDisconnect client w
         | ConnectP packet \<Rightarrow> ProcessConnect client packet w
         | PubcompP _ \<Rightarrow> Some w
         | SubackP _ \<Rightarrow> Some w
         | UnsubackP _ \<Rightarrow> Some w
         | PingrespP _ \<Rightarrow> Some w
         | PubackP _ \<Rightarrow> Some w
         | PubrecP _ \<Rightarrow> Some w
         | ConnackP _ \<Rightarrow> Some w)"

end
