(* ===== verification/Go_Flags.thy ===== *)
theory Go_Flags
  imports Go_Strings
begin

text \<open>
  What the configuration uses of Go's packages \<open>strconv\<close>, \<open>strings\<close> and \<open>flag\<close>: decimal output,
  \<open>ParseBool\<close>, \<open>ParseInt\<close> with base 0 (prefixes and underscores) and 64 bits, \<open>Split\<close> on a
  string, and the parser of a \<open>FlagSet\<close> that exits on errors.
\<close>

section \<open>Numbers and strings\<close>

definition digit :: "nat \<Rightarrow> char" where "digit d = char_of (48 + d)"

fun nat_Itoa :: "nat \<Rightarrow> string" where
  "nat_Itoa n = (if n < 10 then [digit n] else nat_Itoa (n div 10) @ [digit (n mod 10)])"

declare nat_Itoa.simps [simp del]

definition Itoa :: "int \<Rightarrow> string" where
  "Itoa i = (if i < 0 then CHR ''-'' # nat_Itoa (nat (- i)) else nat_Itoa (nat i))"

definition code :: "char \<Rightarrow> nat" where "code c = of_char c"

definition lower :: "char \<Rightarrow> nat" where
  "lower c = (let n = code c in if 65 \<le> n \<and> n \<le> 90 then n + 32 else n)"

definition digit_value :: "char \<Rightarrow> nat option" where
  "digit_value c =
     (let n = lower c in
      if 48 \<le> n \<and> n \<le> 57 then Some (n - 48)
      else if 97 \<le> n \<and> n \<le> 122 then Some (n - 87) else None)"

fun parse_digits :: "nat \<Rightarrow> bool \<Rightarrow> string \<Rightarrow> nat \<Rightarrow> nat option" where
  "parse_digits base us [] acc = Some acc"
| "parse_digits base us (c # s) acc =
     (if us \<and> c = CHR ''_'' then parse_digits base us s acc
      else case digit_value c of
        None \<Rightarrow> None
      | Some d \<Rightarrow> if base \<le> d then None else parse_digits base us s (acc * base + d))"

text \<open>An underscore must stand between two digits, of which a base prefix counts as one.\<close>

fun underscore_scan :: "bool \<Rightarrow> char \<Rightarrow> string \<Rightarrow> bool" where
  "underscore_scan hex saw [] \<longleftrightarrow> saw \<noteq> CHR ''_''"
| "underscore_scan hex saw (c # s) \<longleftrightarrow>
     (let n = lower c in
      if 48 \<le> n \<and> n \<le> 57 \<or> hex \<and> 97 \<le> n \<and> n \<le> 102 then underscore_scan hex CHR ''0'' s
      else if c = CHR ''_'' then saw = CHR ''0'' \<and> underscore_scan hex CHR ''_'' s
      else saw \<noteq> CHR ''_'' \<and> underscore_scan hex CHR ''!'' s)"

text \<open>The prefix of a number: its base and what is left.\<close>

definition base_prefix :: "string \<Rightarrow> (nat \<times> string) option" where
  "base_prefix s =
     (case s of
        CHR ''0'' # c # s' \<Rightarrow>
          (if lower c = 98 then Some (2, s') else if lower c = 111 then Some (8, s')
           else if lower c = 120 then Some (16, s') else None)
      | _ \<Rightarrow> None)"

definition underscoreOK :: "string \<Rightarrow> bool" where
  "underscoreOK s =
     (case base_prefix s of
        Some (b, s') \<Rightarrow> underscore_scan (b = 16) CHR ''0'' s'
      | None \<Rightarrow> underscore_scan False CHR ''^'' s)"

definition ParseUint :: "string \<Rightarrow> nat option" where
  "ParseUint s =
     (if s = [] then None
      else
        let (base, digits) =
          (case base_prefix s of
             Some (b, s') \<Rightarrow> if 3 \<le> length s then (b, s') else (8, tl s)
           | None \<Rightarrow> if hd s = CHR ''0'' then (8, tl s) else (10, s))
        in case parse_digits base True digits 0 of
             None \<Rightarrow> None
           | Some n \<Rightarrow>
               if 2 ^ 64 \<le> n then None
               else if CHR ''_'' \<in> set s \<and> \<not> underscoreOK s then None
               else Some n)"

definition ParseInt :: "string \<Rightarrow> int option" where
  "ParseInt s =
     (case s of
        [] \<Rightarrow> None
      | c # s' \<Rightarrow>
          let neg = (c = CHR ''-'');
              digits = (if c = CHR ''-'' \<or> c = CHR ''+'' then s' else s)
          in (case ParseUint digits of
                None \<Rightarrow> None
              | Some un \<Rightarrow>
                  if \<not> neg \<and> 2 ^ 63 \<le> un then None
                  else if neg \<and> 2 ^ 63 < un then None
                  else Some (if neg then - int un else int un)))"

definition ParseBool :: "string \<Rightarrow> bool option" where
  "ParseBool s =
     (if s \<in> {''1'', ''t'', ''T'', ''true'', ''TRUE'', ''True''} then Some True
      else if s \<in> {''0'', ''f'', ''F'', ''false'', ''FALSE'', ''False''} then Some False
      else None)"

text \<open>\<open>strings.Split\<close> on a separator of more than one byte.\<close>

function SplitOn :: "string \<Rightarrow> string \<Rightarrow> string list" where
  "SplitOn sep s =
     (case s of
        [] \<Rightarrow> [[]]
      | c # s' \<Rightarrow>
          (case strip_prefix sep s of
             Some r \<Rightarrow> [] # SplitOn sep r
           | None \<Rightarrow> (case SplitOn sep s' of [] \<Rightarrow> [[c]] | k # ks \<Rightarrow> (c # k) # ks)))"
  by pat_completeness auto
termination
  by (relation "measure (\<lambda>(sep, s). length s)") (auto simp: strip_prefix_def split: if_splits)

section \<open>Flags\<close>

text \<open>
  The variables that the flags set are one state; a flag knows how to store its value there.
\<close>

datatype 's flag_value =
    IntVar "int \<Rightarrow> 's \<Rightarrow> 's"
  | StringVar "string \<Rightarrow> 's \<Rightarrow> 's"
  | BoolVar "bool \<Rightarrow> 's \<Rightarrow> 's"

fun flag_Set :: "'s flag_value \<Rightarrow> string \<Rightarrow> 's \<Rightarrow> 's option" where
  "flag_Set (IntVar f) v s = map_option (\<lambda>i. f i s) (ParseInt v)"
| "flag_Set (StringVar f) v s = Some (f v s)"
| "flag_Set (BoolVar f) v s = map_option (\<lambda>b. f b s) (ParseBool v)"

fun is_bool_flag :: "'s flag_value \<Rightarrow> bool" where
  "is_bool_flag (BoolVar f) = True"
| "is_bool_flag _ = False"

text \<open>
  One step of the parser. \<open>Exit\<close> carries the code the process exits with: 0 after a request
  for help, 2 after an error.
\<close>

datatype 's parse_step = Continue 's "string list" | Finished 's | Exit nat

definition split_equals :: "string \<Rightarrow> string \<times> string option" where
  "split_equals s =
     (let name = hd s # takeWhile (\<lambda>c. c \<noteq> CHR ''='') (tl s);
          rest = dropWhile (\<lambda>c. c \<noteq> CHR ''='') (tl s)
      in (name, case rest of [] \<Rightarrow> None | _ # v \<Rightarrow> Some v))"

definition set_flag :: "'s flag_value \<Rightarrow> string \<Rightarrow> string list \<Rightarrow> 's \<Rightarrow> 's parse_step" where
  "set_flag fl v args s =
     (case flag_Set fl v s of None \<Rightarrow> Exit 2 | Some s \<Rightarrow> Continue s args)"

text \<open>A flag with a value takes the next argument if \<open>=\<close> gave it none; a boolean one does not.\<close>

fun take_value :: "'s flag_value \<Rightarrow> string option \<Rightarrow> string list \<Rightarrow> 's \<Rightarrow> 's parse_step" where
  "take_value fl (Some v) args s = set_flag fl v args s"
| "take_value fl None args s =
     (if is_bool_flag fl then set_flag fl ''true'' args s
      else case args of [] \<Rightarrow> Exit 2 | v # args \<Rightarrow> set_flag fl v args s)"

definition parseOne :: "(string \<times> 's flag_value) list \<Rightarrow> string list \<Rightarrow> 's \<Rightarrow> 's parse_step" where
  "parseOne formal args s =
     (case args of
        [] \<Rightarrow> Finished s
      | a # args \<Rightarrow>
          (if length a < 2 \<or> hd a \<noteq> CHR ''-'' then Finished s
           else if a = ''--'' then Finished s
           else
             let body = (if a ! 1 = CHR ''-'' then drop 2 a else drop 1 a) in
             if body = [] \<or> hd body = CHR ''-'' \<or> hd body = CHR ''='' then Exit 2
             else
               let (name, value) = split_equals body in
               (case map_of formal name of
                  None \<Rightarrow> Exit (if name = ''help'' \<or> name = ''h'' then 0 else 2)
                | Some fl \<Rightarrow> take_value fl value args s)))"

lemma set_flag_shorter: "set_flag fl v args s = Continue s' args' \<Longrightarrow> args' = args"
  by (auto simp: set_flag_def split: option.splits)

lemma take_value_shorter:
  "take_value fl v args s = Continue s' args' \<Longrightarrow> length args' \<le> length args"
  by (cases v) (auto dest: set_flag_shorter split: if_splits list.splits)

lemma parseOne_shorter: "parseOne formal args s = Continue s' args' \<Longrightarrow> length args' < length args"
  by (auto simp: parseOne_def Let_def dest!: take_value_shorter
      split: list.splits if_splits prod.splits option.splits)

function flag_Parse :: "(string \<times> 's flag_value) list \<Rightarrow> string list \<Rightarrow> 's \<Rightarrow> nat + 's" where
  "flag_Parse formal args s =
     (case parseOne formal args s of
        Exit n \<Rightarrow> Inl n
      | Finished s \<Rightarrow> Inr s
      | Continue s args \<Rightarrow> flag_Parse formal args s)"
  by pat_completeness auto
termination
  by (relation "measure (\<lambda>(formal, args, s). length args)") (auto dest: parseOne_shorter)

declare flag_Parse.simps [simp del]

text \<open>
  What every flag keeps, parsing keeps: the two cases of a flag that gets its value are one rule.
\<close>

definition flag_keeps :: "('s \<Rightarrow> 's \<Rightarrow> bool) \<Rightarrow> 's flag_value \<Rightarrow> bool" where
  "flag_keeps R fl \<longleftrightarrow> (\<forall>v s s'. flag_Set fl v s = Some s' \<longrightarrow> R s s')"

lemma parseOne_keeps:
  assumes "\<forall>(n, fl) \<in> set formal. flag_keeps R fl" "\<And>s. R s s"
  shows "(parseOne formal args s = Continue s' as \<longrightarrow> R s s') \<and>
    (parseOne formal args s = Finished s' \<longrightarrow> R s s')"
proof -
  have "set_flag fl v bs s = Continue s' as \<Longrightarrow> flag_keeps R fl \<Longrightarrow> R s s'"
    "set_flag fl v bs s \<noteq> Finished s'" for fl v bs
    by (auto simp: set_flag_def flag_keeps_def split: option.splits)
  then have "take_value fl v bs s = Continue s' as \<Longrightarrow> flag_keeps R fl \<Longrightarrow> R s s'"
    "take_value fl v bs s \<noteq> Finished s'" for fl v bs
    by (cases v; auto split: if_splits list.splits)+
  moreover have "map_of formal n = Some fl \<Longrightarrow> flag_keeps R fl" for n fl
    using assms(1) by (auto dest!: map_of_SomeD)
  ultimately show ?thesis
    using assms(2)
    by (auto simp: parseOne_def Let_def split: list.splits if_splits prod.splits option.splits)
qed

lemma flag_Parse_keeps:
  assumes "\<forall>(n, fl) \<in> set formal. flag_keeps R fl" "\<And>s. R s s"
    and "\<And>a b c. R a b \<Longrightarrow> R b c \<Longrightarrow> R a c"
    and "flag_Parse formal args s = Inr s'"
  shows "R s s'"
  using assms
proof (induction formal args s arbitrary: s' rule: flag_Parse.induct)
  case (1 formal args s)
  note keeps = parseOne_keeps [OF "1.prems"(1), of args s]
  show ?case
  proof (cases "parseOne formal args s")
    case (Continue t as)
    with "1.prems"(4) "1.IH" [OF Continue] "1.prems"(1-3) have "R t s'"
      by (simp add: flag_Parse.simps [of formal args s])
    with keeps Continue "1.prems"(2,3) show ?thesis by blast
  qed (use "1.prems" keeps in \<open>auto simp: flag_Parse.simps [of formal args s]\<close>)
qed

end
