(* ===== verification/Broker.thy ===== *)
theory Broker
  imports Broker_Processor Go_Flags
begin

text \<open>
  \<open>broker/broker.go\<close> and the read loop of \<open>broker/clients.go\<close>: the goroutine that serves a client,
  and the publication of the server's counters under \<open>$SYS\<close>.
\<close>

section \<open>Loops\<close>

text \<open>
  A loop that runs until its body says stop. The outer option is that it returns, the inner one
  that it did not panic.
\<close>

partial_function (option) run_loop :: "('s \<Rightarrow> (bool \<times> 's) option) \<Rightarrow> 's \<Rightarrow> 's option option" where
  "run_loop body s =
     (case body s of
        None \<Rightarrow> Some None
      | Some (go, s') \<Rightarrow> if go then run_loop body s' else Some (Some s'))"

section \<open>Reading from a client\<close>

text \<open>
  One round of \<open>ReadLoop\<close>: the test whether the client was closed, and the branch that reads. The
  processor is a parameter, as in the code. On an error the last will is published first, if the
  client left one, and the client is disconnected.
\<close>

type_synonym processor = "cref \<Rightarrow> ControlPacket \<Rightarrow> World \<Rightarrow> World option"

definition disconnect_packet :: ControlPacket where
  "disconnect_packet = DisconnectP (zero_header\<lparr>MessageType := Disconnect\<rparr>)"

definition broker_read_once :: "processor \<Rightarrow> cref \<Rightarrow> World \<Rightarrow> (bool \<times> World) option" where
  "broker_read_once processor c w =
     do {
       (packet, err, w) \<leftarrow> client_ReadPacket c w;
       if err \<noteq> None then
         do {
           cl \<leftarrow> heap w c;
           w \<leftarrow> (case will cl of None \<Rightarrow> Some w | Some p \<Rightarrow> processor c (PublishP p) w);
           w \<leftarrow> processor c disconnect_packet w;
           Some (False, w)
         }
       else do { p \<leftarrow> packet; w \<leftarrow> processor c p w; Some (True, w) }
     }"

definition broker_ReadLoop_body :: "processor \<Rightarrow> cref \<Rightarrow> World \<Rightarrow> (bool \<times> World) option" where
  "broker_ReadLoop_body processor c w =
     do { cl \<leftarrow> heap w c;
          if client_done cl then Some (False, w) else broker_read_once processor c w }"

definition broker_ReadLoop :: "processor \<Rightarrow> cref \<Rightarrow> World \<Rightarrow> World option option" where
  "broker_ReadLoop processor c w = run_loop (broker_ReadLoop_body processor c) w"

section \<open>The handler of a connection\<close>

text \<open>\<open>Handler\<close> up to its read loop, which it enters unless the first packet is not a CONNECT.\<close>

definition Handler_connect :: "cref \<Rightarrow> World \<Rightarrow> (bool \<times> World) option" where
  "Handler_connect client w =
     do {
       (packet, err, w) \<leftarrow> client_ReadPacket client w;
       if err \<noteq> None then do { w \<leftarrow> client_Close client w; Some (False, w) }
       else
         do {
           p \<leftarrow> packet;
           case p of
             ConnectP cp \<Rightarrow> do { w \<leftarrow> ProcessConnect client cp w; Some (True, w) }
           | _ \<Rightarrow> do { w \<leftarrow> client_Close client w; Some (False, w) }
         }
     }"

definition Handler :: "connref \<Rightarrow> conn_type \<Rightarrow> World \<Rightarrow> World option option" where
  "Handler k t w =
     (let (client, w) = NewClient BrokerClient k t w in
      case Handler_connect client w of
        None \<Rightarrow> Some None
      | Some (go, w) \<Rightarrow> if go then broker_ReadLoop ProcessMessage client w else Some (Some w))"

section \<open>The state topics\<close>

definition Itoa64 :: "int64 \<Rightarrow> string" where "Itoa64 x = Itoa (sint x)"

definition state_topics :: "World \<Rightarrow> (string \<times> string) list" where
  "state_topics w =
     (let s = server_state w in
      [(''$SYS/broker/bytes/received'', Itoa64 (BytesRecv s)),
       (''$SYS/broker/bytes/sent'', Itoa64 (BytesSent s)),
       (''$SYS/broker/clients/connected'', Itoa64 (ClientsConnected s)),
       (''$SYS/broker/clients/active'', Itoa64 (ClientsConnected s)),
       (''$SYS/broker/clients/disconnected'', Itoa64 (ClientsDisconnected s)),
       (''$SYS/broker/clients/inactive'', Itoa64 (ClientsDisconnected s)),
       (''$SYS/broker/clients/maximum'', Itoa64 (ClientsMax s)),
       (''$SYS/broker/clients/total'', Itoa64 (ClientsTotal s)),
       (''$SYS/broker/messages/inflight'', Itoa64 (Inflight s)),
       (''$SYS/broker/messages/received'', Itoa64 (MsgRecv s)),
       (''$SYS/broker/messages/sent'', Itoa64 (MsgSent s)),
       (''$SYS/broker/publish/messages/received'', Itoa64 (PubRecv s)),
       (''$SYS/broker/publish/messages/sent'', Itoa64 (PubSent s)),
       (''$SYS/broker/retained_messages/count'', Itoa64 (RetainCount s)),
       (''$SYS/broker/store/messages/count'', Itoa64 (StoreCount s)),
       (''$SYS/broker/store/messages/bytes'', Itoa64 (StoreBytes s)),
       (''$SYS/broker/subscriptions/count'', Itoa64 (SubCount s)),
       (''$SYS/broker/version'', Version s),
       (''$SYS/broker/uptime'', Itoa64 (clock w - Uptime s)),
       (''$SYS/broker/timestamp'', Itoa64 (clock w))])"

definition state_packet :: "string \<Rightarrow> string \<Rightarrow> ControlPacket" where
  "state_packet topic msg = PublishP ((new_PublishPacket (zero_header\<lparr>MessageType := Publish\<rparr>))
     \<lparr>Retain := False, Payload := bytes_of_string msg, TopicName := topic\<rparr>)"

fun publish_state_to :: "cref list \<Rightarrow> string list \<Rightarrow> string \<Rightarrow> string \<Rightarrow> World \<Rightarrow> World option" where
  "publish_state_to [] seen topic msg w = Some w"
| "publish_state_to (client # subs) seen topic msg w =
     do {
       i \<leftarrow> GetId client w;
       if i \<in> set seen then publish_state_to subs seen topic msg w
       else do {
         (_, _, w) \<leftarrow> WritePacket client (state_packet topic msg) w;
         publish_state_to subs (i # seen) topic msg (count (\<lambda>s. s\<lparr>PubSent := PubSent s + 1\<rparr>) w)
       }
     }"

text \<open>The map of the topics is visited in the order it is written in; the code's is random.\<close>

fun publish_states :: "(string \<times> string) list \<Rightarrow> World \<Rightarrow> World option" where
  "publish_states [] w = Some w"
| "publish_states ((topic, msg) # rest) w =
     do { subs \<leftarrow> Trie_Subscribers topic (brokerTopics w);
          w \<leftarrow> publish_state_to subs [] topic msg w;
          publish_states rest w }"

definition publishState :: "World \<Rightarrow> World option" where
  "publishState w = publish_states (state_topics w) w"

end
