(* ===== verification/Cluster_Processor.thy ===== *)
theory Cluster_Processor
  imports Broker_Processor
begin

text \<open>
  \<open>cluster/processor.go\<close>: what a node does with a packet from another node of its cluster.
  A peer's subscriptions go to the storage \<open>clusterTopics\<close>, its messages to the clients in
  \<open>brokerTopics\<close> and never on to other peers. The cluster's processor writes to clients
  directly and counts nothing but the messages it delivers.
\<close>

definition cluster_DoPublish :: "string \<Rightarrow> ControlPacket \<Rightarrow> World \<Rightarrow> (ControlPacket \<times> World) option" where
  "cluster_DoPublish topic packet w =
     do { subs \<leftarrow> Trie_Subscribers topic (brokerTopics w); deliver_loop True subs [] packet w }"

definition cluster_ProcessPublish :: "cref \<Rightarrow> PublishPacket \<Rightarrow> World \<Rightarrow> World option" where
  "cluster_ProcessPublish client packet w =
     (let topic = TopicName packet in
      do { (_, w) \<leftarrow> cluster_DoPublish topic (PublishP packet) w;
           if Retain packet then
             do { (t, _) \<leftarrow> Trie_RemoveRetain topic (brokerTopics w); Some (w\<lparr>brokerTopics := t\<rparr>) }
           else Some w })"

fun cluster_unsubscribe :: "cref \<Rightarrow> string list \<Rightarrow> World \<Rightarrow> World option" where
  "cluster_unsubscribe client [] w = Some w"
| "cluster_unsubscribe client (topic # topics) w =
     do {
       i \<leftarrow> GetId client w;
       (t, _) \<leftarrow> Trie_Unsubscribe topic i (clusterTopics w);
       let w = w\<lparr>clusterTopics := t\<rparr>;
       (w, _) \<leftarrow> RemoveTopic client topic w;
       cluster_unsubscribe client topics w
     }"

definition cluster_ProcessUnSubscribe :: "cref \<Rightarrow> UnsubscribePacket \<Rightarrow> World \<Rightarrow> World option" where
  "cluster_ProcessUnSubscribe client packet w =
     do {
       (_, _, w) \<leftarrow> client_WritePacket client (unsuback_for (unsub_MessageID packet)) w;
       cluster_unsubscribe client (unsub_Topics packet) w
     }"

fun cluster_send_retains :: "cref \<Rightarrow> PublishPacket list \<Rightarrow> World \<Rightarrow> World option" where
  "cluster_send_retains client [] w = Some w"
| "cluster_send_retains client (p # ps) w =
     do { (_, _, w) \<leftarrow> client_WritePacket client (PublishP p) w; cluster_send_retains client ps w }"

text \<open>The retained messages of the node's own clients are sent to the peer that subscribes.\<close>

fun cluster_subscribe :: "cref \<Rightarrow> string list \<Rightarrow> World \<Rightarrow> World option" where
  "cluster_subscribe client [] w = Some w"
| "cluster_subscribe client (topic # topics) w =
     do {
       i \<leftarrow> GetId client w;
       (t, _) \<leftarrow> Trie_Subscribe topic i client (clusterTopics w);
       let w = w\<lparr>clusterTopics := t\<rparr>;
       (w, _) \<leftarrow> AddTopic client topic i w;
       retains \<leftarrow> Trie_SearchRetain topic (brokerTopics w);
       w \<leftarrow> cluster_send_retains client retains w;
       cluster_subscribe client topics w
     }"

definition cluster_ProcessSubscribe :: "cref \<Rightarrow> SubscribePacket \<Rightarrow> World \<Rightarrow> World option" where
  "cluster_ProcessSubscribe client packet w =
     do {
       (_, _, w) \<leftarrow> client_WritePacket client (suback_for (sub_MessageID packet)) w;
       cluster_subscribe client (sub_Topics packet) w
     }"

definition cluster_ProcessPing :: "cref \<Rightarrow> World \<Rightarrow> World option" where
  "cluster_ProcessPing client w =
     do { (_, _, w) \<leftarrow> client_WritePacket client (PingrespP (zero_header\<lparr>MessageType := Pingresp\<rparr>)) w;
          Some w }"

text \<open>The loop over the topics of a peer that is gone.\<close>

fun cluster_forget :: "cref \<Rightarrow> string list \<Rightarrow> World \<Rightarrow> World option" where
  "cluster_forget client [] w = Some w"
| "cluster_forget client (topic # topics) w =
     do {
       (w, _) \<leftarrow> RemoveTopic client topic w;
       i \<leftarrow> GetId client w;
       (t, _) \<leftarrow> Trie_Unsubscribe topic i (clusterTopics w);
       cluster_forget client topics (w\<lparr>clusterTopics := t\<rparr>)
     }"

definition cluster_ProcessDisconnect :: "cref \<Rightarrow> World \<Rightarrow> World option" where
  "cluster_ProcessDisconnect client w =
     do {
       i \<leftarrow> GetId client w;
       let w = w\<lparr>clusters := go_delete i (clusters w)\<rparr>;
       w \<leftarrow> client_Close client w;
       cl \<leftarrow> heap w client;
       cluster_forget client (map fst (client_topics cl)) w
     }"

definition cluster_ProcessConnack :: "cref \<Rightarrow> ConnackPacket \<Rightarrow> World \<Rightarrow> World option" where
  "cluster_ProcessConnack client cp w = Some w"

definition cluster_ProcessConnect :: "cref \<Rightarrow> ConnectPacket \<Rightarrow> World \<Rightarrow> World option" where
  "cluster_ProcessConnect client cp w =
     do { (_, _, w) \<leftarrow> client_WritePacket client (connack_for cp) w; Some w }"

definition cluster_ProcessMessage :: "cref \<Rightarrow> ControlPacket \<Rightarrow> World \<Rightarrow> World option" where
  "cluster_ProcessMessage client cp w =
     (case cp of
        ConnackP packet \<Rightarrow> cluster_ProcessConnack client packet w
      | ConnectP packet \<Rightarrow> cluster_ProcessConnect client packet w
      | PublishP packet \<Rightarrow> cluster_ProcessPublish client packet w
      | SubscribeP packet \<Rightarrow> cluster_ProcessSubscribe client packet w
      | UnsubscribeP packet \<Rightarrow> cluster_ProcessUnSubscribe client packet w
      | PingreqP packet \<Rightarrow> cluster_ProcessPing client w
      | DisconnectP packet \<Rightarrow> cluster_ProcessDisconnect client w
      | PubackP _ \<Rightarrow> Some w
      | PubrecP _ \<Rightarrow> Some w
      | PubrelP _ \<Rightarrow> Some w
      | PubcompP _ \<Rightarrow> Some w
      | SubackP _ \<Rightarrow> Some w
      | UnsubackP _ \<Rightarrow> Some w
      | PingrespP _ \<Rightarrow> Some w)"

end
