(* ===== verification/Config.thy ===== *)
theory Config
  imports Go_Flags
begin

text \<open>
  \<open>config/config.go\<close>: the settings, read from \<open>conf.toml\<close> when the process starts, then changed by
  the command line. The TOML decoder is a third-party package and a parameter: it takes the name of a
  file and the settings and returns the new settings, or nothing if it fails. The functions that only
  return a field are the record's selectors.
\<close>

record ClusterNode =
  Name :: string
  Host :: string

record Config =
  cfg_Debug :: bool
  cfg_TcpHost :: string
  cfg_TcpPort :: int
  cfg_TcpTls :: bool
  cfg_Websocket :: bool
  cfg_WsHost :: string
  cfg_WsPort :: int
  cfg_WsPath :: string
  cfg_WsTls :: bool
  cfg_Ca :: string
  cfg_CertFile :: string
  cfg_KeyFile :: string
  cfg_ClientCertFile :: string
  cfg_ClientKeyFile :: string
  cfg_IsCluster :: bool
  cfg_ClusterName :: string
  cfg_ClusterHost :: string
  cfg_ClusterPort :: int
  cfg_ClusterTls :: bool
  cfg_Clusters :: "ClusterNode list"

definition zero_Config :: Config where
  "zero_Config =
     \<lparr>cfg_Debug = False, cfg_TcpHost = [], cfg_TcpPort = 0, cfg_TcpTls = False,
      cfg_Websocket = False, cfg_WsHost = [], cfg_WsPort = 0, cfg_WsPath = [], cfg_WsTls = False,
      cfg_Ca = [], cfg_CertFile = [], cfg_KeyFile = [], cfg_ClientCertFile = [],
      cfg_ClientKeyFile = [], cfg_IsCluster = False, cfg_ClusterName = [], cfg_ClusterHost = [],
      cfg_ClusterPort = 0, cfg_ClusterTls = False, cfg_Clusters = []\<rparr>"

type_synonym toml_decoder = "string \<Rightarrow> Config \<Rightarrow> Config option"

text \<open>A result \<open>Inl\<close> is the code with which the process exits; \<open>log.Fatalf\<close> exits with 1.\<close>

definition config_init :: "toml_decoder \<Rightarrow> nat + Config" where
  "config_init DecodeFile =
     (case DecodeFile ''conf.toml'' zero_Config of None \<Rightarrow> Inl 1 | Some c \<Rightarrow> Inr c)"

section \<open>The flags\<close>

text \<open>
  The variables the flags write to: the settings, the name of a configuration file, and the string
  that \<open>fs.String\<close> allocates for \<open>-clusters\<close>.
\<close>

record FlagVars =
  cfg :: Config
  configFile :: string
  clusters_flag :: string

abbreviation in_cfg :: "('a \<Rightarrow> Config \<Rightarrow> Config) \<Rightarrow> 'a \<Rightarrow> FlagVars \<Rightarrow> FlagVars" where
  "in_cfg f v s \<equiv> s\<lparr>cfg := f v (cfg s)\<rparr>"

definition flag_set :: "(string \<times> FlagVars flag_value) list" where
  "flag_set =
    [(''c'', StringVar (\<lambda>v s. s\<lparr>configFile := v\<rparr>)),
     (''port'', IntVar (in_cfg (\<lambda>v c. c\<lparr>cfg_TcpPort := v\<rparr>))),
     (''host'', StringVar (in_cfg (\<lambda>v c. c\<lparr>cfg_TcpHost := v\<rparr>))),
     (''tls'', BoolVar (in_cfg (\<lambda>v c. c\<lparr>cfg_TcpTls := v\<rparr>))),
     (''ca'', StringVar (in_cfg (\<lambda>v c. c\<lparr>cfg_Ca := v\<rparr>))),
     (''certfile'', StringVar (in_cfg (\<lambda>v c. c\<lparr>cfg_CertFile := v\<rparr>))),
     (''keyfile'', StringVar (in_cfg (\<lambda>v c. c\<lparr>cfg_KeyFile := v\<rparr>))),
     (''cp'', IntVar (in_cfg (\<lambda>v c. c\<lparr>cfg_ClusterPort := v\<rparr>))),
     (''ch'', StringVar (in_cfg (\<lambda>v c. c\<lparr>cfg_ClusterHost := v\<rparr>))),
     (''cluster-tls'', BoolVar (in_cfg (\<lambda>v c. c\<lparr>cfg_ClusterTls := v\<rparr>))),
     (''client-certfile'', StringVar (in_cfg (\<lambda>v c. c\<lparr>cfg_ClientCertFile := v\<rparr>))),
     (''client-keyfile'', StringVar (in_cfg (\<lambda>v c. c\<lparr>cfg_ClientKeyFile := v\<rparr>))),
     (''cluster'', BoolVar (in_cfg (\<lambda>v c. c\<lparr>cfg_IsCluster := v\<rparr>))),
     (''name'', StringVar (in_cfg (\<lambda>v c. c\<lparr>cfg_ClusterName := v\<rparr>))),
     (''clusters'', StringVar (\<lambda>v s. s\<lparr>clusters_flag := v\<rparr>)),
     (''ws'', BoolVar (in_cfg (\<lambda>v c. c\<lparr>cfg_Websocket := v\<rparr>))),
     (''ws-tls'', BoolVar (in_cfg (\<lambda>v c. c\<lparr>cfg_Websocket := v\<rparr>))),
     (''ws-path'', StringVar (in_cfg (\<lambda>v c. c\<lparr>cfg_WsPath := v\<rparr>))),
     (''ws-port'', IntVar (in_cfg (\<lambda>v c. c\<lparr>cfg_WsPort := v\<rparr>))),
     (''ws-host'', StringVar (in_cfg (\<lambda>v c. c\<lparr>cfg_WsHost := v\<rparr>)))]"

text \<open>
  Declaring a flag stores its default in its variable at once. For most flags that is the variable's
  own value; \<open>tls\<close> takes the value of \<open>ClusterTls\<close>, and \<open>ws-tls\<close>, the second flag on \<open>Websocket\<close>,
  that of \<open>WsTls\<close>.
\<close>

definition declare_flags :: "Config \<Rightarrow> FlagVars" where
  "declare_flags c =
     \<lparr>cfg = c\<lparr>cfg_TcpTls := cfg_ClusterTls c, cfg_Websocket := cfg_WsTls c\<rparr>,
      configFile = [], clusters_flag = []\<rparr>"

section \<open>The list of nodes\<close>

fun parse_nodes :: "string list \<Rightarrow> ClusterNode list \<Rightarrow> nat + ClusterNode list" where
  "parse_nodes [] nodes = Inr nodes"
| "parse_nodes (cluster # items) nodes =
     (let parts = SplitOn ''//'' cluster in
      if length parts \<noteq> 2 then Inl 1
      else parse_nodes items (nodes @ [\<lparr>Name = parts ! 0, Host = parts ! 1\<rparr>]))"

text \<open>
  \<open>Configure\<close>. The string of \<open>-clusters\<close> is read before the arguments are parsed, so \<open>clusters\<close> is
  its default.
\<close>

definition Configure :: "toml_decoder \<Rightarrow> string list \<Rightarrow> Config \<Rightarrow> nat + Config" where
  "Configure DecodeFile args c =
     (let vars = declare_flags c;
          clusters = clusters_flag vars
      in case flag_Parse flag_set args vars of
           Inl n \<Rightarrow> Inl n
         | Inr vars \<Rightarrow>
             (case (if configFile vars \<noteq> [] then DecodeFile (configFile vars) (cfg vars)
                    else Some (cfg vars)) of
                None \<Rightarrow> Inl 1
              | Some c \<Rightarrow>
                  if clusters \<noteq> [] then
                    map_sum id (\<lambda>nodes. c\<lparr>cfg_Clusters := nodes\<rparr>)
                      (parse_nodes (Split CHR '','' clusters) [])
                  else Inr c))"

section \<open>The addresses to listen on\<close>

definition host_port :: "string \<Rightarrow> int \<Rightarrow> string" where
  "host_port h p = h @ CHR '':'' # Itoa p"

definition ClusterHost :: "Config \<Rightarrow> string" where
  "ClusterHost c = (if cfg_ClusterHost c \<noteq> [] then host_port (cfg_ClusterHost c) (cfg_ClusterPort c) else [])"

definition TcpHost :: "Config \<Rightarrow> string" where
  "TcpHost c = host_port (cfg_TcpHost c) (cfg_TcpPort c)"

definition WsHost :: "Config \<Rightarrow> string" where
  "WsHost c = host_port (cfg_WsHost c) (cfg_WsPort c)"

end
