(* ===== verification/Cluster.thy ===== *)
theory Cluster
  imports Broker Cluster_Processor Config
begin

text \<open>
  \<open>cluster/cluster.go\<close> and the read loop of \<open>cluster/clients.go\<close>: the connections to the other
  nodes, accepted or opened, the synchronisation of topics when a node joins, and the health check.
\<close>

section \<open>Reading from a peer\<close>

definition cluster_read_once :: "processor \<Rightarrow> cref \<Rightarrow> World \<Rightarrow> (bool \<times> World) option" where
  "cluster_read_once processor c w =
     do {
       (packet, err, w) \<leftarrow> client_ReadPacket c w;
       if err \<noteq> None then do { w \<leftarrow> processor c disconnect_packet w; Some (False, w) }
       else do { p \<leftarrow> packet; w \<leftarrow> processor c p w; Some (True, w) }
     }"

definition cluster_ReadLoop_body :: "processor \<Rightarrow> cref \<Rightarrow> World \<Rightarrow> (bool \<times> World) option" where
  "cluster_ReadLoop_body processor c w =
     do { cl \<leftarrow> heap w c;
          if client_done cl then Some (False, w) else cluster_read_once processor c w }"

definition cluster_ReadLoop :: "processor \<Rightarrow> cref \<Rightarrow> World \<Rightarrow> World option option" where
  "cluster_ReadLoop processor c w = run_loop (cluster_ReadLoop_body processor c) w"

section \<open>Synchronisation\<close>

definition sync_packet :: "string \<Rightarrow> ControlPacket" where
  "sync_packet topic = SubscribeP ((new_SubscribePacket (zero_header\<lparr>MessageType := Subscribe, Qos := 1\<rparr>))
     \<lparr>sub_Topics := [topic], Qoss := [0]\<rparr>)"

text \<open>
  The callback of \<open>RangeTopics\<close>, on a world or a panic. The assertion \<open>exist.(*Client)\<close> holds for a
  client of the cluster package only.
\<close>

definition sync_topic ::
  "cref \<Rightarrow> string \<Rightarrow> (cref, PublishPacket) Leaf \<Rightarrow> World option \<Rightarrow> bool \<times> World option" where
  "sync_topic c topic leaf w =
     (True, do { w \<leftarrow> w;
                 cl \<leftarrow> heap w c;
                 if kind cl = ClusterClient then
                   do { (_, _, w) \<leftarrow> client_WritePacket c (sync_packet topic) w; Some w }
                 else None })"

definition syncNodeTopics :: "ClusterNode \<Rightarrow> World \<Rightarrow> World option" where
  "syncNodeTopics cluster w =
     (case map_of (clusters w) (TrimSpace (Name cluster)) of
        None \<Rightarrow> Some w
      | Some c \<Rightarrow> RangeTopics (sync_topic c) (brokerTopics w) (Some w))"

text \<open>The goroutines of the nodes of that name, one after the other; the code waits for all of them.\<close>

fun SyncTopics :: "ClusterNode list \<Rightarrow> string \<Rightarrow> World \<Rightarrow> World option" where
  "SyncTopics [] clientId w = Some w"
| "SyncTopics (cluster # nodes) clientId w =
     do { w \<leftarrow> (if clientId = Name cluster then syncNodeTopics cluster w else Some w);
          SyncTopics nodes clientId w }"

section \<open>The two ends of a connection\<close>

definition close_old :: "string \<Rightarrow> World \<Rightarrow> World option" where
  "close_old i w = (case map_of (clusters w) i of None \<Rightarrow> Some w | Some old \<Rightarrow> client_Close old w)"

text \<open>\<open>HandlerServer\<close> up to its read loop: a node has connected to this one.\<close>

definition HandlerServer_connect :: "ClusterNode list \<Rightarrow> cref \<Rightarrow> World \<Rightarrow> (bool \<times> World) option" where
  "HandlerServer_connect nodes client w =
     do {
       (packet, err, w) \<leftarrow> client_ReadPacket client w;
       if err \<noteq> None then Some (False, w)
       else
         do {
           p \<leftarrow> packet;
           case p of
             ConnectP cp \<Rightarrow>
               do {
                 w \<leftarrow> SetId client (ClientIdentifier cp) w;
                 let clientId = ClientIdentifier cp;
                 w \<leftarrow> close_old clientId w;
                 w \<leftarrow> cluster_ProcessConnect client cp w;
                 w \<leftarrow> SetId client clientId w;
                 let w = w\<lparr>clusters := go_store clientId client (clusters w)\<rparr>;
                 w \<leftarrow> SyncTopics nodes clientId w;
                 Some (True, w)
               }
           | _ \<Rightarrow> Some (False, w)
         }
     }"

definition cluster_connect :: "string \<Rightarrow> ControlPacket" where
  "cluster_connect clusterName = ConnectP ((new_ConnectPacket (zero_header\<lparr>MessageType := Connect\<rparr>))
     \<lparr>ProtocolName := ''MQTT'', ProtocolVersion := 4, CleanSession := True,
      ClientIdentifier := clusterName, Keepalive := 60\<rparr>)"

text \<open>\<open>HandlerClient\<close> up to its read loop: this node has connected to another.\<close>

definition HandlerClient_connect ::
  "string \<Rightarrow> ClusterNode list \<Rightarrow> cref \<Rightarrow> ClusterNode \<Rightarrow> World \<Rightarrow> (bool \<times> World) option" where
  "HandlerClient_connect clusterName nodes client cluster w =
     do {
       w \<leftarrow> SetId client (Name cluster) w;
       (err, _, w) \<leftarrow> client_WritePacket client (cluster_connect clusterName) w;
       if err \<noteq> None then Some (False, w)
       else
         do {
           w \<leftarrow> close_old (Name cluster) w;
           w \<leftarrow> SetId client (Name cluster) w;
           let w = w\<lparr>clusters := go_store (Name cluster) client (clusters w)\<rparr>;
           w \<leftarrow> SyncTopics nodes (Name cluster) w;
           Some (True, w)
         }
     }"

definition HandlerServer :: "ClusterNode list \<Rightarrow> connref \<Rightarrow> World \<Rightarrow> World option option" where
  "HandlerServer nodes k w =
     (let (client, w) = NewClient ClusterClient k TypServer w in
      case HandlerServer_connect nodes client w of
        None \<Rightarrow> Some None
      | Some (go, w) \<Rightarrow> if go then cluster_ReadLoop cluster_ProcessMessage client w else Some (Some w))"

definition HandlerClient ::
  "string \<Rightarrow> ClusterNode list \<Rightarrow> connref \<Rightarrow> ClusterNode \<Rightarrow> World \<Rightarrow> World option option" where
  "HandlerClient clusterName nodes k cluster w =
     (let (client, w) = NewClient ClusterClient k TypClient w in
      case HandlerClient_connect clusterName nodes client cluster w of
        None \<Rightarrow> Some None
      | Some (go, w) \<Rightarrow> if go then cluster_ReadLoop cluster_ProcessMessage client w else Some (Some w))"

section \<open>The health check\<close>

text \<open>
  Every configured node that is not connected is dialled (the result's list), the ones this node
  has dialled are pinged.
\<close>

fun CheckHealthy :: "ClusterNode list \<Rightarrow> World \<Rightarrow> (ClusterNode list \<times> World) option" where
  "CheckHealthy [] w = Some ([], w)"
| "CheckHealthy (cluster # nodes) w =
     (case map_of (clusters w) (TrimSpace (Name cluster)) of
        None \<Rightarrow> do { (dial, w) \<leftarrow> CheckHealthy nodes w; Some (cluster # dial, w) }
      | Some c \<Rightarrow>
          do {
            cl \<leftarrow> heap w c;
            if kind cl \<noteq> ClusterClient then None
            else do {
              w \<leftarrow> (if client_typ cl = TypClient then
                      do { (_, _, w) \<leftarrow> client_WritePacket c
                             (PingreqP (zero_header\<lparr>MessageType := Pingreq\<rparr>)) w; Some w }
                    else Some w);
              CheckHealthy nodes w
            }
          })"

end
