(* ===== verification/Actions.thy ===== *)
theory Actions
  imports Topic_Holders Cluster
begin

text \<open>
  The atomic actions that the handlers are made of. Every \<open>Process\<close> function of the two
  processors, and every handler of a connection, is a sequence of these actions, with labels that its packet
  determines; what each action keeps holds after every handler, and would hold at every point in
  between, where another goroutine may run.
\<close>

section \<open>Actions\<close>

datatype label =
    Send cref
  | Tally
  | Subs cref string
  | Unsubs string string
  | PeerSubs cref string
  | PeerUnsubs string string
  | Retains string
  | Unretain string
  | Topics cref
  | SaveId uint16
  | FreeId uint16
  | Shut cref
  | Rename cref string
  | Will cref
  | Register string cref
  | Enroll string cref
  | Expel string
  | Join
  | Leave

text \<open>Counters that no invariant speaks about.\<close>

definition tally :: "(ServerState \<Rightarrow> ServerState) \<Rightarrow> bool" where
  "tally f \<longleftrightarrow> (\<forall>s. ClientsConnected (f s) = ClientsConnected s \<and> ClientsMax (f s) = ClientsMax s \<and>
     ClientsTotal (f s) = ClientsTotal s \<and> ClientsDisconnected (f s) = ClientsDisconnected s \<and>
     RetainCount (f s) = RetainCount s)"

definition count_join :: "World \<Rightarrow> World" where
  "count_join w =
     (let w = count (\<lambda>s. s\<lparr>ClientsTotal := ClientsTotal s + 1, ClientsConnected := ClientsConnected s + 1\<rparr>) w
      in if ClientsMax (server_state w) <s ClientsConnected (server_state w)
         then count (\<lambda>s. s\<lparr>ClientsMax := ClientsMax s + 1\<rparr>) w else w)"

definition count_leave :: "World \<Rightarrow> World" where
  "count_leave w = count (\<lambda>s. s\<lparr>ClientsConnected := ClientsConnected s - 1,
                                ClientsDisconnected := ClientsDisconnected s + 1\<rparr>) w"

inductive act :: "label \<Rightarrow> World \<Rightarrow> World \<Rightarrow> bool" where
  send: "client_WritePacket c p w = Some (e, p', w') \<Longrightarrow> act (Send c) w w'"
| tally: "tally f \<Longrightarrow> act Tally w (count f w)"
| subs: "Trie_Subscribe f i c (brokerTopics w) = Some (t, e) \<Longrightarrow>
    act (Subs c f) w (w\<lparr>brokerTopics := t\<rparr>)"
| unsubs: "Trie_Unsubscribe f i (brokerTopics w) = Some (t, e) \<Longrightarrow>
    act (Unsubs f i) w (w\<lparr>brokerTopics := t\<rparr>)"
| peer_subs: "Trie_Subscribe f i c (clusterTopics w) = Some (t, e) \<Longrightarrow>
    act (PeerSubs c f) w (w\<lparr>clusterTopics := t\<rparr>)"
| peer_unsubs: "Trie_Unsubscribe f i (clusterTopics w) = Some (t, e) \<Longrightarrow>
    act (PeerUnsubs f i) w (w\<lparr>clusterTopics := t\<rparr>)"
| retains: "process_retain f p w = Some w' \<Longrightarrow> act (Retains f) w w'"
| unretain: "Trie_RemoveRetain f (brokerTopics w) = Some (t, e) \<Longrightarrow>
    act (Unretain f) w (w\<lparr>brokerTopics := t\<rparr>)"
| add_topic: "AddTopic c f d w = Some (w', e) \<Longrightarrow> act (Topics c) w w'"
| remove_topic: "RemoveTopic c f w = Some (w', e') \<Longrightarrow> act (Topics c) w w'"
| save_id: "saveQos2Msg n w = (w', e') \<Longrightarrow> act (SaveId n) w w'"
| free_id: "checkQos2Msg n w = (w', e') \<Longrightarrow> act (FreeId n) w w'"
| shut: "client_Close c w = Some w' \<Longrightarrow> act (Shut c) w w'"
| rename: "SetId c i w = Some w' \<Longrightarrow> act (Rename c i) w w'"
| set_will: "SetWill c p w = Some w' \<Longrightarrow> act (Will c) w w'"
| register: "act (Register i c) w (w\<lparr>clients := go_store i c (clients w)\<rparr>)"
| enroll: "act (Enroll i c) w (w\<lparr>clusters := go_store i c (clusters w)\<rparr>)"
| expel: "act (Expel i) w (w\<lparr>clusters := go_delete i (clusters w)\<rparr>)"
| join: "act Join w (count_join w)"
| leave: "act Leave w (count_leave w)"

inductive_cases act_sendE: "act (Send c) w w'"
inductive_cases act_saveE: "act (SaveId n) w w'"
inductive_cases act_freeE: "act (FreeId n) w w'"

definition acts :: "label set \<Rightarrow> World \<Rightarrow> World \<Rightarrow> bool" where
  "acts L = (\<lambda>w w'. \<exists>l \<in> L. act l w w')\<^sup>*\<^sup>*"

lemma acts_refl [simp]: "acts L w w"
  by (simp add: acts_def)

lemma acts_trans: "acts L u v \<Longrightarrow> acts L v w \<Longrightarrow> acts L u w"
  unfolding acts_def by (rule rtranclp_trans)

lemma act_acts: "act l w w' \<Longrightarrow> l \<in> L \<Longrightarrow> acts L w w'"
  unfolding acts_def by blast

lemma acts_mono: "acts L w w' \<Longrightarrow> L \<subseteq> M \<Longrightarrow> acts M w w'"
  unfolding acts_def by (erule rtranclp_mono [THEN predicate2D, rotated]) blast

text \<open>What every action keeps, a sequence of them keeps.\<close>

lemma acts_induct [consumes 1, case_names step]:
  assumes "acts L w w'" and "\<And>l u v. l \<in> L \<Longrightarrow> act l u v \<Longrightarrow> acts L w u \<Longrightarrow> P u \<Longrightarrow> P v"
  shows "P w \<Longrightarrow> P w'"
  using assms unfolding acts_def
  by (induction rule: rtranclp_induct) blast+

section \<open>Running an operation\<close>

text \<open>
  \<open>runs g L w m\<close>: if the operation \<open>m\<close> returns, the world in its result has come from \<open>w\<close> by actions
  with labels in \<open>L\<close>. The rules follow the shape of the code.
\<close>

definition runs :: "('a \<Rightarrow> World) \<Rightarrow> label set \<Rightarrow> World \<Rightarrow> 'a option \<Rightarrow> bool" where
  "runs g L w m \<longleftrightarrow> (\<forall>x. m = Some x \<longrightarrow> acts L w (g x))"

abbreviation third :: "'a \<times> 'b \<times> 'c \<Rightarrow> 'c" where "third x \<equiv> snd (snd x)"

named_theorems runs_rules \<open>one rule for each construct of a handler\<close>

lemma runsD: "runs g L w m \<Longrightarrow> m = Some x \<Longrightarrow> acts L w (g x)"
  by (simp add: runs_def)

lemma runs_Some [runs_rules]: "acts L w (g x) \<Longrightarrow> runs g L w (Some x)"
  by (simp add: runs_def)

lemma runs_None [runs_rules]: "runs g L w None"
  by (simp add: runs_def)

lemma runs_after: "acts L w w' \<Longrightarrow> runs g L w' m \<Longrightarrow> runs g L w m"
  by (auto simp: runs_def intro: acts_trans)

lemma runs_act: "act l w w' \<Longrightarrow> l \<in> L \<Longrightarrow> runs g L w' m \<Longrightarrow> runs g L w m"
  by (rule runs_after [OF act_acts])

lemma runs_bind:
  "runs g L w m \<Longrightarrow> (\<And>x. m = Some x \<Longrightarrow> runs h L (g x) (f x)) \<Longrightarrow> runs h L w (m \<bind> f)"
  by (cases m) (auto simp: runs_def intro: acts_trans)

lemma runs_bind3:
  "runs third L w m \<Longrightarrow> (\<And>a b v. m = Some (a, b, v) \<Longrightarrow> runs h L v (f (a, b, v))) \<Longrightarrow> runs h L w (m \<bind> f)"
  by (rule runs_bind) auto

lemma runs_bind2:
  "runs snd L w m \<Longrightarrow> (\<And>a v. m = Some (a, v) \<Longrightarrow> runs h L v (f (a, v))) \<Longrightarrow> runs h L w (m \<bind> f)"
  by (cases m) (auto simp: runs_def intro: acts_trans)

lemma runs_bind_fst:
  "runs fst L w m \<Longrightarrow> (\<And>v a. m = Some (v, a) \<Longrightarrow> runs h L v (f (v, a))) \<Longrightarrow> runs h L w (m \<bind> f)"
  by (cases m) (auto simp: runs_def intro: acts_trans)

lemma runs_bind1:
  "runs (\<lambda>w. w) L w m \<Longrightarrow> (\<And>v. m = Some v \<Longrightarrow> runs h L v (f v)) \<Longrightarrow> runs h L w (m \<bind> f)"
  by (cases m) (auto simp: runs_def intro: acts_trans)

lemma runs_case_option [runs_rules]:
  "(x = None \<Longrightarrow> runs g L w m) \<Longrightarrow> (\<And>y. x = Some y \<Longrightarrow> runs g L w (n y)) \<Longrightarrow>
     runs g L w (case x of None \<Rightarrow> m | Some y \<Rightarrow> n y)"
  by (cases x) auto

lemma runs_pure: "(\<And>x. m = Some x \<Longrightarrow> runs h L w (f x)) \<Longrightarrow> runs h L w (m \<bind> f)"
  by (cases m) (auto simp: runs_def)

lemma runs_if [runs_rules]:
  "(b \<Longrightarrow> runs g L w m) \<Longrightarrow> (\<not> b \<Longrightarrow> runs g L w n) \<Longrightarrow> runs g L w (if b then m else n)"
  by simp

lemma runs_mono: "runs g L w m \<Longrightarrow> L \<subseteq> M \<Longrightarrow> runs g M w m"
  by (auto simp: runs_def intro: acts_mono)

lemma runs_write: "Send c \<in> L \<Longrightarrow> runs third L w (client_WritePacket c p w)"
  by (auto simp: runs_def intro: act_acts send)

lemma runs_count: "tally f \<Longrightarrow> Tally \<in> L \<Longrightarrow> runs g L (count f w) m \<Longrightarrow> runs g L w m"
  by (rule runs_act [OF act.tally])

lemma acts_count: "tally f \<Longrightarrow> Tally \<in> L \<Longrightarrow> acts L w (count f w)"
  by (rule act_acts [OF act.tally])

abbreviation quiet :: "label set" where "quiet \<equiv> insert Tally (range Send)"

lemma runs_WritePacket: "quiet \<subseteq> L \<Longrightarrow> runs third L w (WritePacket c p w)"
  unfolding WritePacket_def
  by (rule runs_bind [OF runs_write]) (auto intro!: runs_rules acts_count simp: tally_def)

lemma tallies [simp]:
  "tally (\<lambda>s. s\<lparr>PubSent := PubSent s + 1\<rparr>)"
  "tally (\<lambda>s. s\<lparr>PubRecv := PubRecv s + 1\<rparr>)"
  "tally (\<lambda>s. s\<lparr>SubCount := SubCount s + 1\<rparr>)"
  "tally (\<lambda>s. s\<lparr>SubCount := SubCount s - 1\<rparr>)"
  "tally (\<lambda>s. s\<lparr>MsgSent := MsgSent s + 1, BytesSent := BytesSent s + n\<rparr>)"
  "tally (\<lambda>s. s\<lparr>BytesRecv := BytesRecv s + n, MsgRecv := MsgRecv s + 1\<rparr>)"
  by (simp_all add: tally_def)

lemma acts_count_if: "tally f \<Longrightarrow> Tally \<in> L \<Longrightarrow> acts L w (if b then count f w else w)"
  by (simp add: acts_count)

lemmas runs_tally = runs_after [OF acts_count_if]

lemma runs_deliver: "quiet \<subseteq> L \<Longrightarrow> runs snd L w (deliver_loop counted cs seen p w)"
proof (induction cs arbitrary: seen p w)
  case (Cons c cs)
  have wr: "runs third L w (client_WritePacket c p w)" using Cons.prems by (intro runs_write) blast
  show ?case unfolding deliver_loop.simps Let_def
    by (rule runs_pure, rule runs_if, rule Cons.IH [OF Cons.prems], rule runs_bind3 [OF wr],
        simp only: prod.case, rule runs_tally [OF tallies(1) _ Cons.IH [OF Cons.prems]])
      (use Cons.prems in blast)
qed (simp add: runs_rules)

section \<open>The broker's processor\<close>

lemma runs_DoPublish: "quiet \<subseteq> L \<Longrightarrow> runs snd L w (DoPublish topic p w)"
  unfolding DoPublish_def Let_def
  by (rule runs_pure, rule runs_count [OF tallies(2)], blast, rule runs_bind2 [OF runs_deliver], assumption,
      simp only: prod.case, rule runs_pure, rule runs_deliver)

lemma runs_retain: "Retains f \<in> L \<Longrightarrow> runs (\<lambda>w. w) L w (process_retain f p w)"
  by (auto simp: runs_def intro: act_acts retains)

abbreviation publish_labels :: "PublishPacket \<Rightarrow> label set" where
  "publish_labels p \<equiv> quiet \<union> {SaveId (pub_MessageID p), Retains (TopicName p)}"

lemma runs_publish_end:
  "publish_labels packet \<subseteq> L \<Longrightarrow> runs (\<lambda>w. w) L w
     (DoPublish (TopicName packet) (PublishP packet) w \<bind>
        (\<lambda>(p, w). process_retain (TopicName packet) (as_publish p packet) w))"
  by (rule runs_bind2 [OF runs_DoPublish], blast, simp only: prod.case, rule runs_retain) blast

lemma runs_ProcessPublish:
  "publish_labels p \<subseteq> L \<Longrightarrow> runs (\<lambda>w. w) L w (ProcessPublish c p w)"
proof -
  assume L: "publish_labels p \<subseteq> L"
  then have q: "quiet \<subseteq> L" by blast
  note rest = runs_publish_end [OF L]
  have saved: "runs (\<lambda>w. w) L w (case saveQos2Msg (pub_MessageID p) w of
      (w, Some e) \<Rightarrow> Some w | (w, None) \<Rightarrow> f w)" if "\<And>w. runs (\<lambda>w. w) L w (f w)" for f
  proof (cases "saveQos2Msg (pub_MessageID p) w")
    case (Pair v e)
    with L have "acts L w v" by (intro act_acts [OF save_id]) blast+
    then show ?thesis
      unfolding Pair by (cases e) (auto intro: runs_after that runs_rules)
  qed
  have ack: "runs (\<lambda>w. w) L v (WritePacket c q v \<bind> (\<lambda>(err, _, w).
      if err \<noteq> None then Some w
      else DoPublish (TopicName p) (PublishP p) w \<bind>
        (\<lambda>(q, w). process_retain (TopicName p) (as_publish q p) w)))" for q v
    by (rule runs_bind3 [OF runs_WritePacket [OF q]], simp only: prod.case, rule runs_if,
        rule runs_Some, rule acts_refl, rule rest)
  show ?thesis
    unfolding ProcessPublish_def Let_def
    by (rule runs_if, rule rest, rule runs_if, rule ack, rule runs_if, rule saved, rule ack,
        rule runs_Some, rule acts_refl)
qed

fun unsubs_labels :: "cref \<Rightarrow> label set" where
  "unsubs_labels c = insert (Topics c) (insert Tally {Unsubs f i | f i. True})"

lemma runs_RemoveTopic: "Topics c \<in> L \<Longrightarrow> runs fst L w (RemoveTopic c f w)"
  by (auto simp: runs_def intro: act_acts remove_topic)

lemma runs_AddTopic: "Topics c \<in> L \<Longrightarrow> runs fst L w (AddTopic c f d w)"
  by (auto simp: runs_def intro: act_acts add_topic)

lemma runs_unsubscribe_topics:
  "unsubs_labels c \<subseteq> L \<Longrightarrow> runs (\<lambda>w. w) L w (unsubscribe_topics c fs w)"
proof (induction fs arbitrary: w)
  case (Cons f fs)
  then have L: "Topics c \<in> L" "Tally \<in> L" "Unsubs f i \<in> L" for i by auto
  show ?case unfolding unsubscribe_topics.simps Let_def
    by (rule runs_bind_fst [OF runs_RemoveTopic [OF L(1)]], simp only: prod.case, rule runs_pure,
        rule runs_pure, clarify, rule runs_act [OF unsubs L(3)], assumption,
        rule runs_tally [OF tallies(4) L(2) Cons.IH [OF Cons.prems]])
qed (simp add: runs_rules)

lemma runs_to_clusters: "quiet \<subseteq> L \<Longrightarrow> runs (\<lambda>w. w) L w (to_clusters cs p w)"
proof (induction cs arbitrary: p w)
  case (Cons ic cs)
  obtain i c where ic: "ic = (i, c)" by (cases ic)
  have L: "Send c \<in> L" using Cons.prems by blast
  show ?case unfolding ic to_clusters.simps
    by (rule runs_bind3 [OF runs_write [OF L]], simp only: prod.case, rule Cons.IH [OF Cons.prems])
qed (simp add: runs_rules)

lemma runs_ProcessUnSubscribe:
  "quiet \<union> unsubs_labels c \<subseteq> L \<Longrightarrow> runs (\<lambda>w. w) L w (ProcessUnSubscribe c p w)"
  unfolding ProcessUnSubscribe_def
  by (rule runs_bind3 [OF runs_WritePacket], blast, simp only: prod.case,
      rule runs_bind1 [OF runs_unsubscribe_topics], blast, rule runs_to_clusters) blast

lemma runs_send_retains: "quiet \<subseteq> L \<Longrightarrow> runs (\<lambda>w. w) L w (send_retains c ps w)"
  by (induction ps arbitrary: w)
    (auto intro!: runs_rules runs_bind3 [OF runs_WritePacket])

abbreviation subs_labels :: "cref \<Rightarrow> label set" where
  "subs_labels c \<equiv> insert (Topics c) (range (Subs c))"

lemma runs_subscribe_to:
  "quiet \<union> subs_labels c \<subseteq> L \<Longrightarrow> runs (\<lambda>w. w) L w (subscribe_to c fs w)"
proof (induction fs arbitrary: w)
  case (Cons f fs)
  then have L: "Topics c \<in> L" "Tally \<in> L" "Subs c f \<in> L" "quiet \<subseteq> L" by auto
  show ?case unfolding subscribe_to.simps Let_def
    by (rule runs_pure, rule runs_bind_fst [OF runs_AddTopic [OF L(1)]], simp only: prod.case,
        rule runs_pure, clarify, rule runs_act [OF subs L(3)], assumption,
        rule runs_tally [OF tallies(3) L(2)], rule runs_pure,
        rule runs_bind1 [OF runs_send_retains [OF L(4)]], rule Cons.IH [OF Cons.prems])
qed (simp add: runs_rules)

lemma runs_ProcessSubscribe:
  "quiet \<union> subs_labels c \<subseteq> L \<Longrightarrow> runs (\<lambda>w. w) L w (ProcessSubscribe c p w)"
  unfolding ProcessSubscribe_def
  by (rule runs_bind3 [OF runs_WritePacket], blast, simp only: prod.case,
      rule runs_bind1 [OF runs_subscribe_to], blast, rule runs_to_clusters) blast


lemma runs_close: "Shut c \<in> L \<Longrightarrow> runs (\<lambda>w. w) L w (client_Close c w)"
  by (auto simp: runs_def intro: act_acts shut)

lemma runs_ProcessPing: "quiet \<subseteq> L \<Longrightarrow> runs (\<lambda>w. w) L w (ProcessPing c w)"
  unfolding ProcessPing_def
  by (rule runs_bind3 [OF runs_WritePacket], assumption, simp only: prod.case, rule runs_Some) simp

lemma runs_ProcessDisconnect:
  "insert (Shut c) (insert Leave (unsubs_labels c)) \<subseteq> L \<Longrightarrow> runs (\<lambda>w. w) L w (ProcessDisconnect c w)"
  unfolding ProcessDisconnect_def count_leave_def [symmetric]
  by (rule runs_bind1 [OF runs_close], blast, rule runs_pure, rule runs_bind1 [OF runs_unsubscribe_topics],
      blast, rule runs_Some, rule act_acts [OF leave]) blast

lemma runs_ProcessPubrel:
  "insert (FreeId (pubrel_MessageID p)) quiet \<subseteq> L \<Longrightarrow> runs (\<lambda>w. w) L w (ProcessPubrel c p w)"
proof -
  assume L: "insert (FreeId (pubrel_MessageID p)) quiet \<subseteq> L"
  then have q: "quiet \<subseteq> L" by blast
  obtain v e where v: "checkQos2Msg (pubrel_MessageID p) w = (v, e)" by fastforce
  from L have "act (FreeId (pubrel_MessageID p)) w v" "FreeId (pubrel_MessageID p) \<in> L"
    by (blast intro: free_id [OF v])+
  then show ?thesis
    unfolding ProcessPubrel_def v Let_def prod.case
    by (rule runs_act) (rule runs_bind3 [OF runs_WritePacket [OF q]], simp only: prod.case, rule runs_Some, simp)
qed

definition connect_labels :: "cref \<Rightarrow> string \<Rightarrow> label set" where
  "connect_labels c i = quiet \<union> range Shut \<union> {Rename c i, Will c, Register i c, Join}"

lemma runs_rename: "Rename c i \<in> L \<Longrightarrow> runs (\<lambda>w. w) L w (SetId c i w)"
  by (auto simp: runs_def intro: act_acts rename)

lemma runs_ProcessConnect:
  "connect_labels c (ClientIdentifier p) \<subseteq> L \<Longrightarrow> runs (\<lambda>w. w) L w (ProcessConnect c p w)"
proof -
  let ?i = "ClientIdentifier p"
  assume L: "connect_labels c ?i \<subseteq> L"
  then have q: "quiet \<subseteq> L" and l: "Shut d \<in> L" "Rename c ?i \<in> L" "Will c \<in> L" "Register ?i c \<in> L" "Join \<in> L" for d
    by (auto simp: connect_labels_def)
  have will: "runs (\<lambda>w. w) L v (if WillFlag p then SetWill c (will_of p) v else Some v)" for v
    using l(3) by (auto simp: runs_def intro: act_acts set_will)
  have old: "runs (\<lambda>w. w) L w (case map_of (clients w) ?i of None \<Rightarrow> Some w | Some d \<Rightarrow> client_Close d w)"
    by (rule runs_case_option) (simp_all add: runs_Some runs_close [OF l(1)])
  have last: "runs (\<lambda>w. w) L v (let w = count (\<lambda>s. s\<lparr>ClientsTotal := ClientsTotal s + 1,
        ClientsConnected := ClientsConnected s + 1\<rparr>) v
      in Some (if ClientsMax (server_state w) <s ClientsConnected (server_state w)
               then count (\<lambda>s. s\<lparr>ClientsMax := ClientsMax s + 1\<rparr>) w else w))" for v
  proof -
    have "acts L v (count_join v)" using l(5) by (intro act_acts [OF join])
    then show ?thesis by (simp add: runs_def count_join_def Let_def)
  qed
  show ?thesis
    unfolding ProcessConnect_def Let_def [of ?i]
    by (rule runs_bind1 [OF old], rule runs_bind3 [OF runs_WritePacket [OF q]], simp only: prod.case,
        rule runs_if, rule runs_Some, rule acts_refl, rule runs_bind1 [OF runs_rename [OF l(2)]],
        subst Let_def, rule runs_act [OF register l(4)], rule runs_bind1 [OF will], rule last)
qed

fun broker_labels :: "cref \<Rightarrow> ControlPacket \<Rightarrow> label set" where
  "broker_labels c (PublishP p) = publish_labels p"
| "broker_labels c (PubrelP p) = insert (FreeId (pubrel_MessageID p)) quiet"
| "broker_labels c (SubscribeP p) = quiet \<union> subs_labels c"
| "broker_labels c (UnsubscribeP p) = quiet \<union> unsubs_labels c"
| "broker_labels c (DisconnectP p) = quiet \<union> {Shut c, Leave} \<union> unsubs_labels c"
| "broker_labels c (ConnectP p) = connect_labels c (ClientIdentifier p)"
| "broker_labels c p = quiet"

theorem ProcessMessage_acts:
  assumes "ProcessMessage c p w = Some w'"
  shows "acts (broker_labels c p) w w'"
proof -
  have t: "Tally \<in> broker_labels c p" by (cases p) (auto simp: connect_labels_def)
  have "runs (\<lambda>w. w) (broker_labels c p) w (ProcessMessage c p w)"
    unfolding ProcessMessage_def Let_def
    by (rule runs_count [OF tallies(6) [of "word_of_int (Size p)"] t], cases p)
      (auto intro!: runs_ProcessPublish runs_ProcessPubrel runs_ProcessSubscribe runs_ProcessUnSubscribe
        runs_ProcessPing runs_ProcessDisconnect runs_ProcessConnect runs_Some)
  from runsD [OF this assms] show ?thesis .
qed


section \<open>The state topics\<close>

lemma runs_publish_state_to: "quiet \<subseteq> L \<Longrightarrow> runs (\<lambda>w. w) L w (publish_state_to cs seen topic msg w)"
proof (induction cs arbitrary: seen w)
  case (Cons c cs)
  show ?case unfolding publish_state_to.simps
    by (rule runs_pure, rule runs_if, rule Cons.IH [OF Cons.prems],
        rule runs_bind3 [OF runs_WritePacket [OF Cons.prems]], simp only: prod.case,
        rule runs_count [OF tallies(1) _ Cons.IH [OF Cons.prems]])
      (use Cons.prems in blast)
qed (simp add: runs_rules)

lemma runs_publish_states: "quiet \<subseteq> L \<Longrightarrow> runs (\<lambda>w. w) L w (publish_states ts w)"
proof (induction ts arbitrary: w)
  case (Cons tm ts)
  obtain topic msg where tm: "tm = (topic, msg)" by (cases tm)
  show ?case unfolding tm publish_states.simps
    by (rule runs_pure, rule runs_bind1 [OF runs_publish_state_to [OF Cons.prems]], rule Cons.IH [OF Cons.prems])
qed (simp add: runs_rules)

theorem publishState_acts: "publishState w = Some w' \<Longrightarrow> acts quiet w w'"
  by (rule runsD [OF runs_publish_states]) (auto simp: publishState_def)

section \<open>The cluster's processor\<close>

lemma runs_cluster_ProcessPublish:
  "insert (Unretain (TopicName p)) quiet \<subseteq> L \<Longrightarrow> runs (\<lambda>w. w) L w (cluster_ProcessPublish c p w)"
proof -
  assume L: "insert (Unretain (TopicName p)) quiet \<subseteq> L"
  then have q: "quiet \<subseteq> L" and u: "Unretain (TopicName p) \<in> L" by auto
  have pub: "runs snd L w (cluster_DoPublish (TopicName p) (PublishP p) w)"
    unfolding cluster_DoPublish_def by (rule runs_pure, rule runs_deliver [OF q])
  show ?thesis
    unfolding cluster_ProcessPublish_def Let_def
    by (rule runs_bind2 [OF pub], simp only: prod.case, rule runs_if, rule runs_pure, clarify,
        rule runs_Some, rule act_acts [OF unretain u], assumption, rule runs_Some, rule acts_refl)
qed

abbreviation peer_unsubs_labels :: "cref \<Rightarrow> label set" where
  "peer_unsubs_labels c \<equiv> insert (Topics c) {PeerUnsubs f i | f i. True}"

abbreviation peer_subs_labels :: "cref \<Rightarrow> label set" where
  "peer_subs_labels c \<equiv> insert (Topics c) (range (PeerSubs c))"

lemma runs_cluster_unsubscribe:
  "peer_unsubs_labels c \<subseteq> L \<Longrightarrow> runs (\<lambda>w. w) L w (cluster_unsubscribe c fs w)"
proof (induction fs arbitrary: w)
  case (Cons f fs)
  then have L: "Topics c \<in> L" "PeerUnsubs f i \<in> L" for i by auto
  show ?case unfolding cluster_unsubscribe.simps Let_def
    by (rule runs_pure, rule runs_pure, clarify, rule runs_act [OF peer_unsubs L(2)], assumption,
        rule runs_bind_fst [OF runs_RemoveTopic [OF L(1)]], simp only: prod.case, rule Cons.IH [OF Cons.prems])
qed (simp add: runs_rules)

lemma runs_cluster_forget:
  "peer_unsubs_labels c \<subseteq> L \<Longrightarrow> runs (\<lambda>w. w) L w (cluster_forget c fs w)"
proof (induction fs arbitrary: w)
  case (Cons f fs)
  then have L: "Topics c \<in> L" "PeerUnsubs f i \<in> L" for i by auto
  show ?case unfolding cluster_forget.simps
    by (rule runs_bind_fst [OF runs_RemoveTopic [OF L(1)]], simp only: prod.case, rule runs_pure,
        rule runs_pure, clarify, rule runs_act [OF peer_unsubs L(2)], assumption, rule Cons.IH [OF Cons.prems])
qed (simp add: runs_rules)

lemma runs_cluster_send_retains: "quiet \<subseteq> L \<Longrightarrow> runs (\<lambda>w. w) L w (cluster_send_retains c ps w)"
  by (induction ps arbitrary: w)
    (auto intro!: runs_rules runs_bind3 [OF runs_write])

lemma runs_cluster_subscribe:
  "quiet \<union> peer_subs_labels c \<subseteq> L \<Longrightarrow> runs (\<lambda>w. w) L w (cluster_subscribe c fs w)"
proof (induction fs arbitrary: w)
  case (Cons f fs)
  then have L: "Topics c \<in> L" "PeerSubs c f \<in> L" "quiet \<subseteq> L" by auto
  show ?case unfolding cluster_subscribe.simps Let_def
    by (rule runs_pure, rule runs_pure, clarify, rule runs_act [OF peer_subs L(2)], assumption,
        rule runs_bind_fst [OF runs_AddTopic [OF L(1)]], simp only: prod.case, rule runs_pure,
        rule runs_bind1 [OF runs_cluster_send_retains [OF L(3)]], rule Cons.IH [OF Cons.prems])
qed (simp add: runs_rules)

fun cluster_labels :: "cref \<Rightarrow> ControlPacket \<Rightarrow> label set" where
  "cluster_labels c (PublishP p) = insert (Unretain (TopicName p)) quiet"
| "cluster_labels c (SubscribeP p) = quiet \<union> peer_subs_labels c"
| "cluster_labels c (UnsubscribeP p) = quiet \<union> peer_unsubs_labels c"
| "cluster_labels c (DisconnectP p) = {Shut c} \<union> range Expel \<union> peer_unsubs_labels c"
| "cluster_labels c p = quiet"

lemma runs_cluster_reply: "quiet \<subseteq> L \<Longrightarrow> runs (\<lambda>w. w) L w (client_WritePacket c p w \<bind> (\<lambda>(_, _, w). Some w))"
  by (rule runs_bind3 [OF runs_write], blast, simp only: prod.case, rule runs_Some) simp

theorem cluster_ProcessMessage_acts:
  assumes "cluster_ProcessMessage c p w = Some w'"
  shows "acts (cluster_labels c p) w w'"
proof -
  have sub: "runs (\<lambda>w. w) (quiet \<union> peer_subs_labels c) w (cluster_ProcessSubscribe c q w)" for q
    unfolding cluster_ProcessSubscribe_def
    by (rule runs_bind3 [OF runs_write], blast, simp only: prod.case, rule runs_cluster_subscribe) blast
  have unsub: "runs (\<lambda>w. w) (quiet \<union> peer_unsubs_labels c) w (cluster_ProcessUnSubscribe c q w)" for q
    unfolding cluster_ProcessUnSubscribe_def
    by (rule runs_bind3 [OF runs_write], blast, simp only: prod.case, rule runs_cluster_unsubscribe) blast
  have disc: "runs (\<lambda>w. w) ({Shut c} \<union> range Expel \<union> peer_unsubs_labels c) w (cluster_ProcessDisconnect c w)"
    unfolding cluster_ProcessDisconnect_def
    by (rule runs_pure, subst Let_def, rule runs_act [OF expel], blast, rule runs_bind1 [OF runs_close], blast,
        rule runs_pure, rule runs_cluster_forget) blast
  have "runs (\<lambda>w. w) (cluster_labels c p) w (cluster_ProcessMessage c p w)"
    unfolding cluster_ProcessMessage_def
    by (cases p) (use sub unsub disc in \<open>auto intro!: runs_cluster_ProcessPublish runs_cluster_reply runs_Some
        simp: cluster_ProcessConnack_def cluster_ProcessConnect_def cluster_ProcessPing_def\<close>)
  from runsD [OF this assms] show ?thesis .
qed

section \<open>Handlers of connections\<close>

lemma runs_sync_range:
  assumes "quiet \<subseteq> L"
  shows "runs (\<lambda>w. w) L w m \<Longrightarrow> runs (\<lambda>w. w) L w (range_loop (sync_topic c) ls m)"
proof (induction ls arbitrary: m)
  case (Cons tl ls)
  obtain topic leaf where tl: "tl = (topic, leaf)" by (cases tl)
  have "runs (\<lambda>w. w) L w (snd (sync_topic c topic leaf m))"
    unfolding sync_topic_def snd_conv
    by (rule runs_bind1 [OF Cons.prems], rule runs_pure, rule runs_if,
        rule runs_cluster_reply [OF assms], rule runs_None)
  from Cons.IH [OF this] show ?case by (simp add: tl sync_topic_def)
qed simp

lemma runs_SyncTopics: "quiet \<subseteq> L \<Longrightarrow> runs (\<lambda>w. w) L w (SyncTopics nodes i w)"
proof (induction nodes arbitrary: w)
  case (Cons n nodes)
  have "runs (\<lambda>w. w) L w (if i = Name n then syncNodeTopics n w else Some w)"
    unfolding syncNodeTopics_def RangeTopics_def
    by (rule runs_if, rule runs_case_option, rule runs_Some, rule acts_refl,
        rule runs_sync_range [OF Cons.prems], rule runs_Some, rule acts_refl, rule runs_Some, rule acts_refl)
  then show ?case unfolding SyncTopics.simps
    by (rule runs_bind1) (rule Cons.IH [OF Cons.prems])
qed (simp add: runs_rules)


text \<open>A handler reads a packet, then acts. \<open>reads\<close> is the reading.\<close>

definition reads :: "cref \<Rightarrow> World \<Rightarrow> World \<Rightarrow> bool" where
  "reads c w v \<longleftrightarrow> (\<exists>p e. client_ReadPacket c w = Some (p, e, v))"

definition read_then :: "label set \<Rightarrow> cref \<Rightarrow> World \<Rightarrow> World \<Rightarrow> bool" where
  "read_then L c w w' \<longleftrightarrow> (\<exists>v. reads c w v \<and> acts L v w')"

lemma read_thenI:
  assumes "client_ReadPacket c w \<bind> f = Some x" "\<And>p e v. runs g L v (f (p, e, v))"
  shows "read_then L c w (g x)"
proof -
  from assms(1) obtain p e v where r: "client_ReadPacket c w = Some (p, e, v)" "f (p, e, v) = Some x"
    by (cases "client_ReadPacket c w") auto
  with runsD [OF assms(2) r(2)] show ?thesis unfolding read_then_def reads_def by blast
qed

text \<open>The labels a client of either package may act with.\<close>

fun broker_allowed :: "cref \<Rightarrow> label \<Rightarrow> bool" where
  "broker_allowed c (Subs d f) \<longleftrightarrow> d = c"
| "broker_allowed c (Register i d) \<longleftrightarrow> d = c"
| "broker_allowed c (PeerSubs d f) \<longleftrightarrow> False"
| "broker_allowed c (PeerUnsubs f i) \<longleftrightarrow> False"
| "broker_allowed c (Unretain f) \<longleftrightarrow> False"
| "broker_allowed c (Enroll i d) \<longleftrightarrow> False"
| "broker_allowed c (Expel i) \<longleftrightarrow> False"
| "broker_allowed c l \<longleftrightarrow> True"

fun cluster_allowed :: "cref \<Rightarrow> label \<Rightarrow> bool" where
  "cluster_allowed c (PeerSubs d f) \<longleftrightarrow> d = c"
| "cluster_allowed c (Enroll i d) \<longleftrightarrow> d = c"
| "cluster_allowed c (Send d) \<longleftrightarrow> True"
| "cluster_allowed c (Shut d) \<longleftrightarrow> True"
| "cluster_allowed c (Topics d) \<longleftrightarrow> True"
| "cluster_allowed c (Rename d i) \<longleftrightarrow> True"
| "cluster_allowed c (PeerUnsubs f i) \<longleftrightarrow> True"
| "cluster_allowed c (Unretain f) \<longleftrightarrow> True"
| "cluster_allowed c (Expel i) \<longleftrightarrow> True"
| "cluster_allowed c Tally \<longleftrightarrow> True"
| "cluster_allowed c l \<longleftrightarrow> False"

lemma quiet_allowed: "quiet \<subseteq> Collect (broker_allowed c)" "quiet \<subseteq> Collect (cluster_allowed c)"
  by auto

lemma broker_labels_allowed: "broker_labels c p \<subseteq> Collect (broker_allowed c)"
  by (cases p) (auto simp: connect_labels_def)

lemma cluster_labels_allowed: "cluster_labels c p \<subseteq> Collect (cluster_allowed c)"
  by (cases p) auto

lemma broker_runs: "runs (\<lambda>w. w) (Collect (broker_allowed c)) w (ProcessMessage c p w)"
  using acts_mono [OF ProcessMessage_acts broker_labels_allowed] by (simp add: runs_def)

lemma cluster_runs: "runs (\<lambda>w. w) (Collect (cluster_allowed c)) w (cluster_ProcessMessage c p w)"
  using acts_mono [OF cluster_ProcessMessage_acts cluster_labels_allowed] by (simp add: runs_def)

theorem broker_read_once_acts:
  assumes "broker_read_once ProcessMessage c w = Some (go, w')"
  shows "read_then (Collect (broker_allowed c)) c w w'"
proof -
  have w: "runs (\<lambda>w. w) (Collect (broker_allowed c)) v
      (case x of None \<Rightarrow> Some v | Some p \<Rightarrow> ProcessMessage c (PublishP p) v)" for x v
    by (rule runs_case_option) (simp_all add: runs_Some broker_runs)
  have "read_then (Collect (broker_allowed c)) c w (snd (go, w'))"
    using assms unfolding broker_read_once_def
    by (rule read_thenI)
      (simp only: prod.case, rule runs_if, rule runs_pure, rule runs_bind1 [OF w],
       rule runs_bind1 [OF broker_runs], rule runs_Some, simp,
       rule runs_pure, rule runs_bind1 [OF broker_runs], rule runs_Some, simp)
  then show ?thesis by simp
qed

theorem Handler_connect_acts:
  assumes "Handler_connect c w = Some (go, w')"
  shows "read_then (Collect (broker_allowed c)) c w w'"
proof -
  let ?L = "Collect (broker_allowed c)"
  have c: "runs snd ?L v (client_Close c v \<bind> (\<lambda>w. Some (b, w)))" for v b
    by (rule runs_bind1 [OF runs_close], simp, rule runs_Some, simp)
  have k: "runs (\<lambda>w. w) ?L v (ProcessConnect c cp v)" for v cp
    by (rule runs_ProcessConnect) (auto simp: connect_labels_def)
  have p: "runs snd ?L v (case q of ConnectP cp \<Rightarrow> ProcessConnect c cp v \<bind> (\<lambda>w. Some (True, w))
      | _ \<Rightarrow> client_Close c v \<bind> (\<lambda>w. Some (False, w)))" for q v
    by (cases q) (auto intro: c intro!: runs_bind1 [OF k] runs_Some)
  have "read_then ?L c w (snd (go, w'))"
    using assms unfolding Handler_connect_def
    by (rule read_thenI) (simp only: prod.case, rule runs_if, rule c, rule runs_pure, rule p)
  then show ?thesis by simp
qed

theorem cluster_read_once_acts:
  assumes "cluster_read_once cluster_ProcessMessage c w = Some (go, w')"
  shows "read_then (Collect (cluster_allowed c)) c w w'"
proof -
  have "read_then (Collect (cluster_allowed c)) c w (snd (go, w'))"
    using assms unfolding cluster_read_once_def
    by (rule read_thenI)
      (simp only: prod.case, rule runs_if, rule runs_bind1 [OF cluster_runs], rule runs_Some, simp,
       rule runs_pure, rule runs_bind1 [OF cluster_runs], rule runs_Some, simp)
  then show ?thesis by simp
qed

lemma runs_close_old: "range Shut \<subseteq> L \<Longrightarrow> runs (\<lambda>w. w) L w (close_old i w)"
  unfolding close_old_def by (rule runs_case_option) (auto intro: runs_Some runs_close)

theorem HandlerServer_connect_acts:
  assumes "HandlerServer_connect nodes c w = Some (go, w')"
  shows "read_then (Collect (cluster_allowed c)) c w w'"
proof -
  let ?L = "Collect (cluster_allowed c)"
  have L: "Rename c i \<in> ?L" "Enroll i c \<in> ?L" "range Shut \<subseteq> ?L" for i by auto
  have k: "runs (\<lambda>w. w) ?L v (cluster_ProcessConnect c cp v)" for v cp
    unfolding cluster_ProcessConnect_def by (rule runs_cluster_reply [OF quiet_allowed(2)])
  have m: "runs snd ?L v (do { w \<leftarrow> SetId c i v; w \<leftarrow> close_old i w; w \<leftarrow> cluster_ProcessConnect c cp w;
      w \<leftarrow> SetId c i w; w \<leftarrow> SyncTopics nodes i (w\<lparr>clusters := go_store i c (clusters w)\<rparr>); Some (True, w) })"
    for v i cp
    by (rule runs_bind1 [OF runs_rename [OF L(1)]], rule runs_bind1 [OF runs_close_old [OF L(3)]],
        rule runs_bind1 [OF k], rule runs_bind1 [OF runs_rename [OF L(1)]],
        rule runs_act [OF enroll L(2)], rule runs_bind1 [OF runs_SyncTopics [OF quiet_allowed(2)]],
        rule runs_Some, simp)
  have p: "runs snd ?L v (case q of ConnectP cp \<Rightarrow> f cp | _ \<Rightarrow> Some (False, v))"
    if "\<And>cp. runs snd ?L v (f cp)" for q v f
    using that by (cases q) (auto intro: runs_Some)
  have "read_then ?L c w (snd (go, w'))"
    using assms unfolding HandlerServer_connect_def Let_def
    by (rule read_thenI) (simp only: prod.case, rule runs_if, rule runs_Some, simp, rule runs_pure, rule p, rule m)
  then show ?thesis by simp
qed

theorem HandlerClient_connect_acts:
  assumes "HandlerClient_connect me nodes c node w = Some (go, w')"
  shows "acts (Collect (cluster_allowed c)) w w'"
proof -
  let ?L = "Collect (cluster_allowed c)"
  have L: "Rename c i \<in> ?L" "Enroll i c \<in> ?L" "range Shut \<subseteq> ?L" "Send c \<in> ?L" for i by auto
  have "runs snd ?L w (HandlerClient_connect me nodes c node w)"
    unfolding HandlerClient_connect_def Let_def
    by (rule runs_bind1 [OF runs_rename [OF L(1)]], rule runs_bind3 [OF runs_write [OF L(4)]],
        simp only: prod.case, rule runs_if, rule runs_Some, simp,
        rule runs_bind1 [OF runs_close_old [OF L(3)]], rule runs_bind1 [OF runs_rename [OF L(1)]],
        rule runs_act [OF enroll L(2)], rule runs_bind1 [OF runs_SyncTopics [OF quiet_allowed(2)]],
        rule runs_Some, simp)
  from runsD [OF this assms] show ?thesis by simp
qed

theorem CheckHealthy_acts: "CheckHealthy nodes w = Some (dial, w') \<Longrightarrow> acts quiet w w'"
proof -
  have "runs snd quiet w (CheckHealthy nodes w)" for w
  proof (induction nodes arbitrary: w)
    case (Cons n nodes)
    have ping: "runs (\<lambda>w. w) quiet w (if b then client_WritePacket c q w \<bind> (\<lambda>(_, _, w). Some w) else Some w)"
      for b c q by (rule runs_if, rule runs_cluster_reply, simp, rule runs_Some, simp)
    show ?case unfolding CheckHealthy.simps
      by (rule runs_case_option, rule runs_bind2 [OF Cons.IH], simp only: prod.case, rule runs_Some, simp,
          rule runs_pure, rule runs_if, rule runs_None, rule runs_bind1 [OF ping], rule Cons.IH)
  qed (simp add: runs_rules)
  from runsD [OF this] show "CheckHealthy nodes w = Some (dial, w') \<Longrightarrow> acts quiet w w'" by fastforce
qed

end
