(* ===== verification/World_Invariant.thy ===== *)
theory World_Invariant
  imports Actions
begin

text \<open>
  What the actions keep: how clients and connections may change at all, and the invariant of the
  server's state, with which every type assertion and every use of a shared client is safe.
\<close>

section \<open>How clients and connections change\<close>

definition client_kept :: "Client \<Rightarrow> Client \<Rightarrow> bool" where
  "client_kept a b \<longleftrightarrow> kind b = kind a \<and> client_typ b = client_typ a \<and>
     (conn b = conn a \<or> conn b = None) \<and> (client_done a \<longrightarrow> client_done b)"

definition conn_kept :: "Conn \<Rightarrow> Conn \<Rightarrow> bool" where
  "conn_kept a b \<longleftrightarrow> incoming b = incoming a \<and> (\<exists>s. sent b = sent a @ s) \<and> (up b \<longrightarrow> up a)"

definition evolve :: "World \<Rightarrow> World \<Rightarrow> bool" where
  "evolve w w' \<longleftrightarrow> (\<forall>c. rel_option client_kept (heap w c) (heap w' c)) \<and>
     (\<forall>k. rel_option conn_kept (conns w k) (conns w' k)) \<and>
     next_cref w' = next_cref w \<and> clock w' = clock w \<and> maxQos2Msgs w' = maxQos2Msgs w"

lemma client_kept_refl [simp]: "client_kept a a"
  by (simp add: client_kept_def)

lemma conn_kept_refl [simp]: "conn_kept a a"
  by (simp add: conn_kept_def)

lemma client_kept_trans: "client_kept a b \<Longrightarrow> client_kept b c \<Longrightarrow> client_kept a c"
  by (auto simp: client_kept_def)

lemma conn_kept_trans: "conn_kept a b \<Longrightarrow> conn_kept b c \<Longrightarrow> conn_kept a c"
  by (auto simp: conn_kept_def)

lemma rel_option_refl' [simp]: "rel_option client_kept x x" "rel_option conn_kept y y"
  by (cases x; simp) (cases y; simp)

lemma evolve_refl [simp]: "evolve w w"
  by (simp add: evolve_def)

lemma evolve_trans: "evolve u v \<Longrightarrow> evolve v w \<Longrightarrow> evolve u w"
proof -
  have "rel_option client_kept a b \<Longrightarrow> rel_option client_kept b c \<Longrightarrow> rel_option client_kept a c" for a b c
    by (cases a; cases b; cases c) (auto intro: client_kept_trans)
  moreover have "rel_option conn_kept a b \<Longrightarrow> rel_option conn_kept b c \<Longrightarrow> rel_option conn_kept a c" for a b c
    by (cases a; cases b; cases c) (auto intro: conn_kept_trans)
  ultimately show "evolve u v \<Longrightarrow> evolve v w \<Longrightarrow> evolve u w"
    unfolding evolve_def by metis
qed

lemma evolve_heap: "evolve w w' \<Longrightarrow> heap w c = Some a \<Longrightarrow> \<exists>b. heap w' c = Some b \<and> client_kept a b"
  unfolding evolve_def by (metis option_rel_Some1)

lemma evolve_heap_back: "evolve w w' \<Longrightarrow> heap w' c = Some b \<Longrightarrow> \<exists>a. heap w c = Some a \<and> client_kept a b"
  unfolding evolve_def by (metis option_rel_Some2)

lemma evolve_conns: "evolve w w' \<Longrightarrow> conns w k = Some a \<Longrightarrow> \<exists>b. conns w' k = Some b \<and> conn_kept a b"
  unfolding evolve_def by (metis option_rel_Some1)

lemma evolve_None: "evolve w w' \<Longrightarrow> heap w' c = None \<longleftrightarrow> heap w c = None"
    "evolve w w' \<Longrightarrow> conns w' k = None \<longleftrightarrow> conns w k = None"
  unfolding evolve_def by (metis rel_option_None1 rel_option_None2)+

lemma evolve_update:
  "heap w c = Some a \<Longrightarrow> client_kept a b \<Longrightarrow> evolve w (set_client c b w)"
  by (simp add: evolve_def set_client_def)

lemma evolve_conn_update:
  "conns w k = Some a \<Longrightarrow> conn_kept a b \<Longrightarrow> evolve w (w\<lparr>conns := (conns w)(k \<mapsto> b)\<rparr>)"
  by (simp add: evolve_def)

lemma evolve_same:
  "heap w' = heap w \<Longrightarrow> conns w' = conns w \<Longrightarrow> next_cref w' = next_cref w \<Longrightarrow> clock w' = clock w \<Longrightarrow>
     maxQos2Msgs w' = maxQos2Msgs w \<Longrightarrow> evolve w w'"
  by (simp add: evolve_def)

lemma conn_Write_evolve: "conn_Write k bs w = (e, w') \<Longrightarrow> evolve w w'"
  by (auto simp: conn_Write_def conn_kept_def intro!: evolve_conn_update split: option.splits if_splits)

lemma conn_Close_evolve: "evolve w (conn_Close k w)"
  by (auto simp: conn_Close_def conn_kept_def intro!: evolve_conn_update split: option.splits)

lemma conn_ops_fields:
  "conn_Write k bs w = (e, w') \<Longrightarrow> w' = w\<lparr>conns := conns w'\<rparr>"
  "conn_Close k w = w\<lparr>conns := conns (conn_Close k w)\<rparr>"
  by (auto simp: conn_Write_def conn_Close_def split: option.splits if_splits)

lemma client_Write_shape:
  "client_WritePacket c p w = Some (e, p', w') \<Longrightarrow> evolve w w' \<and> w' = w\<lparr>conns := conns w'\<rparr>"
  by (auto simp: client_WritePacket_eq conn_Write_evolve dest!: conn_ops_fields(1)
      split: Option.bind_splits option.splits client_kind.splits prod.splits)

lemma client_Close_shape:
  assumes "client_Close c w = Some w'"
  shows "evolve w w'" "w' = w\<lparr>heap := heap w', conns := conns w'\<rparr>"
proof -
  from assms obtain cl where cl: "heap w c = Some cl" and
    w': "w' = set_client c (cl\<lparr>client_done := True, conn := None\<rparr>)
      (case conn cl of None \<Rightarrow> w | Some k \<Rightarrow> conn_Close k w)"
    by (auto simp: client_Close_eq Let_def split: Option.bind_splits)
  have "evolve w (case conn cl of None \<Rightarrow> w | Some k \<Rightarrow> conn_Close k w)"
    by (simp add: conn_Close_evolve split: option.split)
  moreover have "heap (case conn cl of None \<Rightarrow> w | Some k \<Rightarrow> conn_Close k w) c = Some cl"
    using cl by (simp add: conn_Close_def split: option.split)
  ultimately show "evolve w w'"
    unfolding w' by (rule evolve_trans [OF _ evolve_update]) (simp add: client_kept_def)
  show "w' = w\<lparr>heap := heap w', conns := conns w'\<rparr>"
    unfolding w' by (auto simp: set_client_def conn_Close_def split: option.split)
qed


lemma process_retain_shape:
  "process_retain f p w = Some w' \<Longrightarrow> w' = w\<lparr>brokerTopics := brokerTopics w', server_state := server_state w'\<rparr>"
  by (auto simp: process_retain_def Let_def count_def split: if_splits Option.bind_splits)

lemma saveQos2Msg_shape:
  "saveQos2Msg n w = (w', e) \<Longrightarrow> w' = w\<lparr>qos2Msgs := qos2Msgs w', timers := timers w'\<rparr>"
  by (auto simp: saveQos2Msg_def split: if_splits)

lemma checkQos2Msg_shape: "checkQos2Msg n w = (w', e) \<Longrightarrow> w' = w\<lparr>qos2Msgs := qos2Msgs w'\<rparr>"
  by (auto simp: checkQos2Msg_def split: if_splits)

lemma count_join_shape: "count_join w = w\<lparr>server_state := server_state (count_join w)\<rparr>"
  by (simp add: count_join_def count_def Let_def)

text \<open>The operations on one client write that client only, and keep its kind and connection.\<close>

definition touches :: "cref \<Rightarrow> World \<Rightarrow> World \<Rightarrow> bool" where
  "touches c w w' \<longleftrightarrow> (\<exists>a b. heap w c = Some a \<and> client_kept a b \<and> w' = set_client c b w)"

lemma touchesI: "heap w c = Some a \<Longrightarrow> client_kept a b \<Longrightarrow> touches c w (set_client c b w)"
  by (auto simp: touches_def)

lemma touches_evolve: "touches c w w' \<Longrightarrow> evolve w w'"
  by (auto simp: touches_def evolve_update)

lemma touches_shape: "touches c w w' \<Longrightarrow> w' = w\<lparr>heap := heap w'\<rparr>"
  by (auto simp: touches_def set_client_def)

lemma client_ops_touch:
  "AddTopic c f d w = Some (w', x) \<Longrightarrow> touches c w w'"
  "SetId c i w = Some w' \<Longrightarrow> touches c w w'"
  "SetWill c p w = Some w' \<Longrightarrow> touches c w w'"
  by (auto simp: AddTopic_eq SetId_eq SetWill_def client_kept_def Let_def intro!: touchesI
      split: Option.bind_splits if_splits)

lemma RemoveTopic_touch: "RemoveTopic c f w = Some (w', x) \<Longrightarrow> w' = w \<or> touches c w w'"
  by (auto simp: RemoveTopic_eq client_kept_def intro!: touchesI split: Option.bind_splits if_splits)

lemma evolve_fields [simp]:
  "evolve w (w\<lparr>brokerTopics := t\<rparr>)" "evolve w (w\<lparr>clusterTopics := u\<rparr>)"
  "evolve w (w\<lparr>clients := m\<rparr>)" "evolve w (w\<lparr>clusters := m\<rparr>)" "evolve w (w\<lparr>server_state := st\<rparr>)"
  "evolve w (w\<lparr>brokerTopics := t, server_state := st\<rparr>)"
  "evolve w (w\<lparr>qos2Msgs := q\<rparr>)" "evolve w (w\<lparr>qos2Msgs := q, timers := ts\<rparr>)"
  by (simp_all add: evolve_same)

theorem act_evolve: "act l w w' \<Longrightarrow> evolve w w'"
proof (induction rule: act.induct)
  case (send c p w e p' w')
  then show ?case using client_Write_shape by blast
next
  case (retains f p w w')
  from process_retain_shape [OF this] show ?case by (metis evolve_fields(6))
next
  case (save_id n w w' e')
  from saveQos2Msg_shape [OF this] show ?case by (metis evolve_fields(8))
next
  case (free_id n w w' e')
  from checkQos2Msg_shape [OF this] show ?case by (metis evolve_fields(7))
next
  case (join w)
  show ?case by (subst count_join_shape) simp
next
  case (remove_topic c f w w' e')
  then show ?case using RemoveTopic_touch touches_evolve evolve_refl by blast
next
  case (shut c w w')
  then show ?case by (rule client_Close_shape)
qed (simp_all add: count_def count_leave_def touches_evolve [OF client_ops_touch(1)]
  touches_evolve [OF client_ops_touch(2)] touches_evolve [OF client_ops_touch(3)])

theorem acts_evolve: "acts L w w' \<Longrightarrow> evolve w w'"
  by (erule acts_induct) (auto intro: evolve_trans act_evolve)

section \<open>The invariant\<close>

definition is_client :: "client_kind \<Rightarrow> World \<Rightarrow> cref \<Rightarrow> bool" where
  "is_client K w c \<longleftrightarrow> (\<exists>cl. heap w c = Some cl \<and> kind cl = K)"

lemma is_client_update [simp]:
  "is_client K (w\<lparr>brokerTopics := t\<rparr>) = is_client K w"
  "is_client K (w\<lparr>clusterTopics := t\<rparr>) = is_client K w"
  "is_client K (w\<lparr>brokerTopics := t, server_state := s\<rparr>) = is_client K w"
  "is_client K (w\<lparr>clients := m\<rparr>) = is_client K w"
  "is_client K (w\<lparr>clusters := m\<rparr>) = is_client K w"
  by (simp_all add: is_client_def fun_eq_iff)

text \<open>Every client is allocated once, on a connection of its own.\<close>

definition heap_ok :: "World \<Rightarrow> bool" where
  "heap_ok w \<longleftrightarrow> (\<forall>c. next_cref w \<le> c \<longrightarrow> heap w c = None) \<and>
     (\<forall>c cl k. heap w c = Some cl \<longrightarrow> conn cl = Some k \<longrightarrow> conns w k \<noteq> None) \<and>
     (\<forall>c d cl dl k. heap w c = Some cl \<longrightarrow> heap w d = Some dl \<longrightarrow> conn cl = Some k \<longrightarrow>
        conn dl = Some k \<longrightarrow> c = d)"

text \<open>
  The storages and maps hold clients of the right package only, so the assertions \<open>sub.(ifs.Client)\<close>,
  \<open>old.(ifs.Client)\<close> and \<open>exist.(*Client)\<close> succeed.
\<close>

definition typed :: "World \<Rightarrow> bool" where
  "typed w \<longleftrightarrow> held_by (is_client BrokerClient w) (brokerTopics w) \<and>
     held_by (is_client ClusterClient w) (clusterTopics w) \<and>
     (\<forall>(i, c) \<in> set (clients w). is_client BrokerClient w c) \<and>
     (\<forall>(i, c) \<in> set (clusters w). is_client ClusterClient w c)"

definition good_world :: "World \<Rightarrow> bool" where
  "good_world w \<longleftrightarrow> heap_ok w \<and> typed w"

lemma is_client_evolve: "evolve w w' \<Longrightarrow> is_client K w' c \<longleftrightarrow> is_client K w c"
  using evolve_heap [of w w' c] evolve_heap_back [of w w' c] by (fastforce simp: is_client_def client_kept_def)

lemma heap_ok_evolve: "evolve w w' \<Longrightarrow> heap_ok w \<Longrightarrow> heap_ok w'"
proof -
  assume e: "evolve w w'" and ok: "heap_ok w"
  have n: "next_cref w' = next_cref w" using e by (simp add: evolve_def)
  have old: "\<exists>a. heap w c = Some a \<and> conn a = Some k" if "heap w' c = Some b" "conn b = Some k" for c b k
    using evolve_heap_back [OF e that(1)] that(2) by (auto simp: client_kept_def)
  show ?thesis
    unfolding heap_ok_def n
  proof (intro conjI allI impI)
    show "heap w' c = None" if "next_cref w \<le> c" for c
      using ok that evolve_None(1) [OF e] by (auto simp: heap_ok_def)
    show "conns w' k \<noteq> None" if "heap w' c = Some cl" "conn cl = Some k" for c cl k
      using old [OF that] ok evolve_None(2) [OF e] by (auto simp: heap_ok_def)
    show "c = d" if "heap w' c = Some cl" "heap w' d = Some dl" "conn cl = Some k" "conn dl = Some k"
      for c d cl dl k
      using old [OF that(1,3)] old [OF that(2,4)] ok unfolding heap_ok_def by blast
  qed
qed

text \<open>A change that leaves the storages and maps alone keeps the types.\<close>

definition same_tables :: "World \<Rightarrow> World \<Rightarrow> bool" where
  "same_tables w w' \<longleftrightarrow> brokerTopics w' = brokerTopics w \<and> clusterTopics w' = clusterTopics w \<and>
     clients w' = clients w \<and> clusters w' = clusters w"

lemma typed_same:
  assumes "evolve w w'" "typed w" "same_tables w w'"
  shows "typed w'"
proof -
  have "is_client K w' = is_client K w" for K using is_client_evolve [OF assms(1)] by blast
  with assms(2,3) show ?thesis by (simp add: typed_def same_tables_def)
qed

fun table_label :: "label \<Rightarrow> bool" where
  "table_label (Subs c f) = True"
| "table_label (Unsubs f i) = True"
| "table_label (PeerSubs c f) = True"
| "table_label (PeerUnsubs f i) = True"
| "table_label (Retains f) = True"
| "table_label (Unretain f) = True"
| "table_label (Register i c) = True"
| "table_label (Enroll i c) = True"
| "table_label (Expel i) = True"
| "table_label l = False"

lemma same_tables_simps [simp]:
  "same_tables w w" "same_tables w (w\<lparr>conns := a\<rparr>)" "same_tables w (w\<lparr>heap := b\<rparr>)"
  "same_tables w (w\<lparr>heap := b, conns := a\<rparr>)" "same_tables w (w\<lparr>qos2Msgs := q, timers := t\<rparr>)"
  "same_tables w (w\<lparr>qos2Msgs := q\<rparr>)" "same_tables w (w\<lparr>server_state := st\<rparr>)"
  by (simp_all add: same_tables_def)

lemma act_same_tables: "act l w w' \<Longrightarrow> \<not> table_label l \<Longrightarrow> same_tables w w'"
proof (induction rule: act.induct)
  case (send c p w e p' w')
  from client_Write_shape [OF send(1)] show ?case by (metis same_tables_simps(2))
next
  case (remove_topic c f w w' e')
  from RemoveTopic_touch [OF remove_topic(1)] touches_shape show ?case by (metis same_tables_simps(1,3))
next
  case (add_topic c f d w w' e)
  from touches_shape [OF client_ops_touch(1) [OF add_topic(1)]] show ?case by (metis same_tables_simps(3))
next
  case (rename c i w w')
  from touches_shape [OF client_ops_touch(2) [OF rename(1)]] show ?case by (metis same_tables_simps(3))
next
  case (set_will c p w w')
  from touches_shape [OF client_ops_touch(3) [OF set_will(1)]] show ?case by (metis same_tables_simps(3))
next
  case (save_id n w w' e')
  from saveQos2Msg_shape [OF save_id(1)] show ?case by (metis same_tables_simps(5))
next
  case (free_id n w w' e')
  from checkQos2Msg_shape [OF free_id(1)] show ?case by (metis same_tables_simps(6))
next
  case (shut c w w')
  from client_Close_shape(2) [OF shut(1)] show ?case by (metis same_tables_simps(4))
next
  case (join w)
  show ?case by (subst count_join_shape) simp
qed (simp_all add: count_def count_leave_def)

fun label_ok :: "World \<Rightarrow> label \<Rightarrow> bool" where
  "label_ok w (Subs c f) \<longleftrightarrow> is_client BrokerClient w c"
| "label_ok w (Register i c) \<longleftrightarrow> is_client BrokerClient w c"
| "label_ok w (PeerSubs c f) \<longleftrightarrow> is_client ClusterClient w c"
| "label_ok w (Enroll i c) \<longleftrightarrow> is_client ClusterClient w c"
| "label_ok w l \<longleftrightarrow> True"

lemma label_ok_evolve: "evolve w w' \<Longrightarrow> label_ok w' l \<longleftrightarrow> label_ok w l"
  by (cases l) (simp_all add: is_client_evolve)

lemma set_store: "e \<in> set (go_store k v m) \<Longrightarrow> e = (k, v) \<or> e \<in> set m"
  by (induction m) (auto split: if_splits)

lemma set_delete: "e \<in> set (go_delete k m) \<Longrightarrow> e \<in> set m"
  by (simp add: set_go_delete)

lemma typed_storage:
  assumes "typed w"
  shows "held_by (is_client BrokerClient w) t \<Longrightarrow> typed (w\<lparr>brokerTopics := t\<rparr>)"
    "held_by (is_client ClusterClient w) t \<Longrightarrow> typed (w\<lparr>clusterTopics := t\<rparr>)"
    "held_by (is_client BrokerClient w) t \<Longrightarrow> typed (w\<lparr>brokerTopics := t, server_state := s\<rparr>)"
  using assms by (simp_all add: typed_def)

lemma act_typed_table:
  "act l w w' \<Longrightarrow> table_label l \<Longrightarrow> label_ok w l \<Longrightarrow> typed w \<Longrightarrow> typed w'"
proof (induction rule: act.induct)
  case (subs f i c w t e)
  then show ?case by (intro typed_storage(1)) (auto simp: typed_def intro: held_by_Subscribe)
next
  case (unsubs f i w t e)
  then show ?case by (intro typed_storage(1)) (auto simp: typed_def intro: held_by_Unsubscribe)
next
  case (peer_subs f i c w t e)
  then show ?case by (intro typed_storage(2)) (auto simp: typed_def intro: held_by_Subscribe)
next
  case (peer_unsubs f i w t e)
  then show ?case by (intro typed_storage(2)) (auto simp: typed_def intro: held_by_Unsubscribe)
next
  case (unretain f w t e)
  then show ?case by (intro typed_storage(1)) (auto simp: typed_def intro: held_by_RemoveRetain)
next
  case (retains f p w w')
  then have "held_by (is_client BrokerClient w) (brokerTopics w')"
    by (auto simp: process_retain_def typed_def count_def Let_def intro: held_by_AddRetain held_by_RemoveRetain
        split: if_splits Option.bind_splits)
  with retains show ?case by (subst process_retain_shape [OF retains(1)]) (simp add: typed_storage(3))
next
  case (register i c w)
  then show ?case by (auto simp: typed_def dest!: set_store)
next
  case (enroll i c w)
  then show ?case by (auto simp: typed_def dest!: set_store)
next
  case (expel i w)
  then show ?case by (auto simp: typed_def dest!: set_delete)
qed simp_all

theorem act_good:
  assumes "act l w w'" "label_ok w l" "good_world w"
  shows "good_world w'"
proof -
  note e = act_evolve [OF assms(1)]
  have "typed w'"
    using act_typed_table [OF assms(1) _ assms(2)] typed_same [OF e] act_same_tables [OF assms(1)] assms(3)
    by (cases "table_label l") (auto simp: good_world_def)
  with heap_ok_evolve [OF e] assms(3) show ?thesis by (simp add: good_world_def)
qed

theorem acts_good:
  assumes "acts L w w'" "\<And>l. l \<in> L \<Longrightarrow> label_ok w l" "good_world w"
  shows "good_world w'"
  using assms(1,3)
proof (induction rule: acts_induct)
  case (step l u v)
  then have "label_ok u l" using assms(2) label_ok_evolve acts_evolve by blast
  with step show ?case by (blast intro: act_good)
qed

lemma broker_label_ok: "is_client BrokerClient w c \<Longrightarrow> broker_allowed c l \<Longrightarrow> label_ok w l"
  by (cases l) auto

lemma cluster_label_ok: "is_client ClusterClient w c \<Longrightarrow> cluster_allowed c l \<Longrightarrow> label_ok w l"
  by (cases l) auto

lemma broker_acts_good:
  "acts (Collect (broker_allowed c)) w w' \<Longrightarrow> is_client BrokerClient w c \<Longrightarrow> good_world w \<Longrightarrow> good_world w'"
  by (erule acts_good) (auto intro: broker_label_ok)

lemma cluster_acts_good:
  "acts (Collect (cluster_allowed c)) w w' \<Longrightarrow> is_client ClusterClient w c \<Longrightarrow> good_world w \<Longrightarrow> good_world w'"
  by (erule acts_good) (auto intro: cluster_label_ok)

lemma quiet_good: "acts quiet w w' \<Longrightarrow> good_world w \<Longrightarrow> good_world w'"
  by (erule acts_good) auto

end
