(* ===== verification/System.thy ===== *)
theory System
  imports World_Invariant
begin

text \<open>
  The running server as a transition system: the goroutines of \<open>server.Start\<close>, one per connection
  and one each for the state topics, the health check and the QoS 2 timers, take turns. Between
  two turns of a goroutine any other may run, a connection may break and time may pass.
\<close>

section \<open>The system\<close>

text \<open>
  Where the goroutine of a client stands: waiting for the first packet, at the \<open>select\<close> of its read
  loop, blocked in the read, or gone.
\<close>

datatype stage = Stopped | Connecting | Selecting | Reading

record System =
  world :: World
  stages :: "cref \<Rightarrow> stage"

definition goes_on :: "bool \<Rightarrow> stage" where
  "goes_on go = (if go then Selecting else Stopped)"

definition open_conn :: "connref \<Rightarrow> byte list \<Rightarrow> World \<Rightarrow> World" where
  "open_conn k bs w = w\<lparr>conns := (conns w)(k \<mapsto> \<lparr>incoming = bs, sent = [], up = True\<rparr>)\<rparr>"

text \<open>
  The \<open>n\<close>-th second of Unix time for \<open>n < 2\<^sup>6\<^sup>2\<close>: the clock moves forward and does not reach the end of
  its range. The timers of \<open>time.AfterFunc\<close> fire once they are due.
\<close>

inductive step :: "Config \<Rightarrow> System \<Rightarrow> System \<Rightarrow> bool" for C :: Config where
  accept: "conns (world s) k = None \<Longrightarrow> t = TypTcp \<or> t = TypWs \<and> cfg_Websocket C \<Longrightarrow>
    NewClient BrokerClient k t (open_conn k bs (world s)) = (c, w) \<Longrightarrow>
    step C s \<lparr>world = w, stages = (stages s)(c := Connecting)\<rparr>"
| peer_accept: "cfg_IsCluster C \<Longrightarrow> conns (world s) k = None \<Longrightarrow>
    NewClient ClusterClient k TypServer (open_conn k bs (world s)) = (c, w) \<Longrightarrow>
    step C s \<lparr>world = w, stages = (stages s)(c := Connecting)\<rparr>"
| peer_dial: "cfg_IsCluster C \<Longrightarrow> node \<in> set (cfg_Clusters C) \<Longrightarrow> conns (world s) k = None \<Longrightarrow>
    NewClient ClusterClient k TypClient (open_conn k bs (world s)) = (c, w) \<Longrightarrow>
    HandlerClient_connect (cfg_ClusterName C) (cfg_Clusters C) c node w = Some (go, w') \<Longrightarrow>
    step C s \<lparr>world = w', stages = (stages s)(c := goes_on go)\<rparr>"
| connect: "stages s c = Connecting \<Longrightarrow> is_client BrokerClient (world s) c \<Longrightarrow>
    Handler_connect c (world s) = Some (go, w) \<Longrightarrow>
    step C s \<lparr>world = w, stages = (stages s)(c := goes_on go)\<rparr>"
| peer_connect: "stages s c = Connecting \<Longrightarrow> is_client ClusterClient (world s) c \<Longrightarrow>
    HandlerServer_connect (cfg_Clusters C) c (world s) = Some (go, w) \<Longrightarrow>
    step C s \<lparr>world = w, stages = (stages s)(c := goes_on go)\<rparr>"
| select: "stages s c = Selecting \<Longrightarrow> heap (world s) c = Some cl \<Longrightarrow>
    step C s (s\<lparr>stages := (stages s)(c := if client_done cl then Stopped else Reading)\<rparr>)"
| read: "stages s c = Reading \<Longrightarrow> is_client BrokerClient (world s) c \<Longrightarrow>
    broker_read_once ProcessMessage c (world s) = Some (go, w) \<Longrightarrow>
    step C s \<lparr>world = w, stages = (stages s)(c := goes_on go)\<rparr>"
| peer_read: "stages s c = Reading \<Longrightarrow> is_client ClusterClient (world s) c \<Longrightarrow>
    cluster_read_once cluster_ProcessMessage c (world s) = Some (go, w) \<Longrightarrow>
    step C s \<lparr>world = w, stages = (stages s)(c := goes_on go)\<rparr>"
| break: "step C s (s\<lparr>world := conn_Close k (world s)\<rparr>)"
| state: "publishState (world s) = Some w \<Longrightarrow> step C s (s\<lparr>world := w\<rparr>)"
| health: "cfg_IsCluster C \<Longrightarrow> CheckHealthy (cfg_Clusters C) (world s) = Some (dial, w) \<Longrightarrow>
    step C s (s\<lparr>world := w\<rparr>)"
| tick: "clock (world s) \<le>s now \<Longrightarrow> now <s 2 ^ 62 \<Longrightarrow> step C s (s\<lparr>world := (world s)\<lparr>clock := now\<rparr>\<rparr>)"
| fire: "t \<in> set (timers (world s)) \<Longrightarrow> t \<le>s clock (world s) \<Longrightarrow>
    step C s (s\<lparr>world := expireQos2Msg ((world s)\<lparr>timers := remove1 t (timers (world s))\<rparr>)\<rparr>)"

inductive_cases step_E: "step C s s'"

definition started :: "int64 \<Rightarrow> System" where
  "started now = \<lparr>world = NewServer now, stages = (\<lambda>_. Stopped)\<rparr>"

inductive reachable :: "Config \<Rightarrow> System \<Rightarrow> bool" for C :: Config where
  start: "0 \<le>s now \<Longrightarrow> now <s 2 ^ 62 \<Longrightarrow> reachable C (started now)"
| step: "reachable C s \<Longrightarrow> step C s s' \<Longrightarrow> reachable C s'"

section \<open>The invariant of the running server\<close>

definition good_system :: "System \<Rightarrow> bool" where
  "good_system s \<longleftrightarrow> good_world (world s) \<and> (\<forall>c. stages s c \<noteq> Stopped \<longrightarrow> heap (world s) c \<noteq> None)"

text \<open>A read takes bytes off one connection and changes nothing else.\<close>

lemma reads_shape:
  assumes "reads c w v"
  shows "v = w\<lparr>conns := conns v\<rparr>" "conns v k = None \<longleftrightarrow> conns w k = None"
  using assms
  by (auto simp: reads_def client_ReadPacket_eq split: Option.bind_splits option.splits if_splits prod.splits)

lemma heap_ok_conns:
  "heap_ok w \<Longrightarrow> (\<And>k. m k = None \<longleftrightarrow> conns w k = None) \<Longrightarrow> heap_ok (w\<lparr>conns := m\<rparr>)"
  by (auto simp: heap_ok_def)

lemma typed_conns [simp]: "typed (w\<lparr>conns := m\<rparr>) = typed w"
  by (simp add: typed_def is_client_def [abs_def])

lemma reads_good: "reads c w v \<Longrightarrow> good_world w \<Longrightarrow> good_world v"
  using reads_shape [of c w v] heap_ok_conns [of w "conns v"]
  by (metis good_world_def typed_conns)

lemma reads_heap: "reads c w v \<Longrightarrow> heap v = heap w"
  using reads_shape(1) by (metis World.select_convs(6) World.surjective World.update_convs(8))

lemma reads_is_client: "reads c w v \<Longrightarrow> is_client K v d \<longleftrightarrow> is_client K w d"
  by (simp add: is_client_def reads_heap)

lemma read_then_heap: "read_then L c w w' \<Longrightarrow> heap w' d = None \<longleftrightarrow> heap w d = None"
  unfolding read_then_def using reads_heap evolve_None(1) [OF acts_evolve] by metis

lemma read_then_good:
  "read_then (Collect (broker_allowed c)) c w w' \<Longrightarrow> is_client BrokerClient w c \<Longrightarrow> good_world w \<Longrightarrow> good_world w'"
  "read_then (Collect (cluster_allowed c)) c w w' \<Longrightarrow> is_client ClusterClient w c \<Longrightarrow> good_world w \<Longrightarrow> good_world w'"
  unfolding read_then_def
  by (meson reads_good reads_is_client broker_acts_good cluster_acts_good)+

text \<open>A new client sits at a fresh address, on a connection that no other client has.\<close>

lemma NewClient_good:
  assumes "NewClient K k t (open_conn k bs w) = (c, w')" "conns w k = None" "good_world w"
  shows "good_world w'" "is_client K w' c" "heap w c = None" "\<And>d. d \<noteq> c \<Longrightarrow> heap w' d = heap w d"
    "conns w' = (conns w)(k \<mapsto> \<lparr>incoming = bs, sent = [], up = True\<rparr>)"
proof -
  let ?cl = "\<lparr>kind = K, client_id = [], conn = Some k, client_done = False,
    client_topics = [], client_typ = t, will = None\<rparr>"
  from assms(1) have c: "c = next_cref w" and w': "w' = w\<lparr>heap := (heap w)(c \<mapsto> ?cl), next_cref := c + 1,
      conns := (conns w)(k \<mapsto> \<lparr>incoming = bs, sent = [], up = True\<rparr>)\<rparr>"
    by (auto simp: NewClient_eq open_conn_def set_client_def Let_def)
  from assms(3) have ok: "heap_ok w" and ty: "typed w" by (auto simp: good_world_def)
  show fresh: "heap w c = None" using ok by (simp add: c heap_ok_def)
  show "is_client K w' c" by (simp add: w' is_client_def)
  show "heap w' d = heap w d" if "d \<noteq> c" for d using that by (simp add: w')
  show "conns w' = (conns w)(k \<mapsto> \<lparr>incoming = bs, sent = [], up = True\<rparr>)" by (simp add: w')
  have old: "conn cl \<noteq> Some k" if "heap w d = Some cl" for d cl
    using that ok assms(2) by (metis heap_ok_def)
  have "heap_ok w'"
    unfolding heap_ok_def
  proof (intro conjI allI impI)
    show "heap w' d = None" if "next_cref w' \<le> d" for d
      using that ok by (auto simp: w' c heap_ok_def)
    show "conns w' j \<noteq> None" if "heap w' d = Some cl" "conn cl = Some j" for d cl j
      using that ok by (auto simp: w' heap_ok_def split: if_splits)
    show "a = b" if "heap w' a = Some cl" "heap w' b = Some dl" "conn cl = Some j" "conn dl = Some j"
      for a b cl dl j
      using that ok old by (auto simp: w' heap_ok_def split: if_splits)
  qed
  moreover have "is_client J w d \<Longrightarrow> is_client J w' d" for J d
    using fresh by (auto simp: is_client_def w')
  then have "typed w'"
    using ty by (auto simp: typed_def w' intro: held_by_mono)
  ultimately show "good_world w'" by (simp add: good_world_def)
qed

lemma conn_Close_good: "good_world w \<Longrightarrow> good_world (conn_Close k w)"
  using heap_ok_evolve [OF conn_Close_evolve] typed_conns conn_ops_fields(2) by (metis good_world_def)

lemma good_other [simp]:
  "good_world (w\<lparr>clock := t\<rparr>) = good_world w"
  "good_world (w\<lparr>qos2Msgs := q\<rparr>) = good_world w"
  "good_world (w\<lparr>timers := ts\<rparr>) = good_world w"
  by (simp_all add: good_world_def heap_ok_def typed_def is_client_def [abs_def])


lemma good_system_update:
  assumes "good_system s" "good_world w" "\<And>d. heap w d = None \<Longrightarrow> heap (world s) d = None"
    "g = Stopped \<or> heap w c \<noteq> None"
  shows "good_system \<lparr>world = w, stages = (stages s)(c := g)\<rparr>"
  using assms unfolding good_system_def by (auto simp del: not_None_eq)

lemma good_system_world:
  assumes "good_system s" "good_world w" "\<And>d. heap w d = None \<longleftrightarrow> heap (world s) d = None"
  shows "good_system (s\<lparr>world := w\<rparr>)"
  using assms unfolding good_system_def by (auto simp del: not_None_eq)

lemma acts_heap: "acts L w w' \<Longrightarrow> heap w' d = None \<longleftrightarrow> heap w d = None"
  by (rule evolve_None(1) [OF acts_evolve])

theorem step_good: "step C s s' \<Longrightarrow> good_system s \<Longrightarrow> good_system s'"
proof (induction rule: step.induct)
  case (accept s k t bs c w)
  from accept(4) have "good_world (world s)" by (simp add: good_system_def)
  from NewClient_good [OF accept(3,1) this] accept(4) show ?case
    by (intro good_system_update) (auto simp: is_client_def split: if_splits, metis+)
next
  case (peer_accept s k bs c w)
  from peer_accept(4) have "good_world (world s)" by (simp add: good_system_def)
  from NewClient_good [OF peer_accept(3,2) this] peer_accept(4) show ?case
    by (intro good_system_update) (auto simp: is_client_def split: if_splits, metis+)
next
  case (peer_dial node s k bs c w go w')
  from peer_dial(6) have "good_world (world s)" by (simp add: good_system_def)
  note new = NewClient_good [OF peer_dial(4,3) this]
  note a = HandlerClient_connect_acts [OF peer_dial(5)]
  have "good_world w'" using a new(2,1) by (rule cluster_acts_good)
  moreover have "heap w' c \<noteq> None" using new(2) acts_heap [OF a] by (auto simp: is_client_def)
  moreover have "heap w' d = None \<Longrightarrow> heap (world s) d = None" for d
    using new(3,4) acts_heap [OF a] by metis
  ultimately show ?case using peer_dial(6) by (intro good_system_update) auto
next
  case (connect s c go w)
  note a = Handler_connect_acts [OF connect(3)]
  from connect(4) have "good_world w" by (intro read_then_good(1) [OF a connect(2)]) (simp add: good_system_def)
  then show ?case using connect(1,4) read_then_heap [OF a]
    by (intro good_system_update) (auto simp: good_system_def)
next
  case (peer_connect s c go w)
  note a = HandlerServer_connect_acts [OF peer_connect(3)]
  from peer_connect(4) have "good_world w"
    by (intro read_then_good(2) [OF a peer_connect(2)]) (simp add: good_system_def)
  then show ?case using peer_connect(1,4) read_then_heap [OF a]
    by (intro good_system_update) (auto simp: good_system_def)
next
  case (read s c go w)
  note a = broker_read_once_acts [OF read(3)]
  from read(4) have "good_world w" by (intro read_then_good(1) [OF a read(2)]) (simp add: good_system_def)
  then show ?case using read(1,4) read_then_heap [OF a]
    by (intro good_system_update) (auto simp: good_system_def)
next
  case (peer_read s c go w)
  note a = cluster_read_once_acts [OF peer_read(3)]
  from peer_read(4) have "good_world w"
    by (intro read_then_good(2) [OF a peer_read(2)]) (simp add: good_system_def)
  then show ?case using peer_read(1,4) read_then_heap [OF a]
    by (intro good_system_update) (auto simp: good_system_def)
next
  case (state s w)
  from publishState_acts [OF state(1)] state(2) show ?case
    by (intro good_system_world) (auto simp: good_system_def acts_heap intro: quiet_good)
next
  case (health s dial w)
  from CheckHealthy_acts [OF health(2)] health(3) show ?case
    by (intro good_system_world) (auto simp: good_system_def acts_heap intro: quiet_good)
next
  case (break s k)
  then show ?case
    by (intro good_system_world) (auto simp: good_system_def conn_Close_good evolve_None(1) [OF conn_Close_evolve])
next
  case (tick s now)
  then show ?case by (intro good_system_world) (auto simp: good_system_def)
next
  case (fire t s)
  then show ?case by (intro good_system_world) (auto simp: good_system_def expireQos2Msg_def)
next
  case (select s c cl)
  then show ?case by (auto simp: good_system_def)
qed

lemma good_started: "good_system (started now)"
  by (simp add: good_system_def started_def NewServer_def good_world_def heap_ok_def typed_def held_by_New)

theorem reachable_good: "reachable C s \<Longrightarrow> good_system s"
  by (induction rule: reachable.induct) (auto intro: good_started step_good)

end
