(* ===== verification/Broker_Totality.thy ===== *)
theory Broker_Totality
  imports System
begin

text \<open>
  When the handlers return: in a good world no operation of the broker's processor panics on a packet
  whose topics have a level.
\<close>

lemma bind_defined: "m \<noteq> None \<Longrightarrow> (\<And>x. m = Some x \<Longrightarrow> f x \<noteq> None) \<Longrightarrow> m \<bind> f \<noteq> None"
  by (cases m) auto

lemma bind3_defined: "m \<noteq> None \<Longrightarrow> (\<And>a b v. m = Some (a, b, v) \<Longrightarrow> f (a, b, v) \<noteq> None) \<Longrightarrow> m \<bind> f \<noteq> None"
  by (cases m) auto

lemma bind2_defined: "m \<noteq> None \<Longrightarrow> (\<And>a v. m = Some (a, v) \<Longrightarrow> f (a, v) \<noteq> None) \<Longrightarrow> m \<bind> f \<noteq> None"
  by (cases m) auto

lemma if_defined: "(b \<Longrightarrow> m \<noteq> None) \<Longrightarrow> (\<not> b \<Longrightarrow> n \<noteq> None) \<Longrightarrow> (if b then m else n) \<noteq> None"
  by simp

lemma Some_defined: "Some x \<noteq> None"
  by simp

section \<open>Writing\<close>

lemma Write_total': "(\<And>s. p \<noteq> SubscribeP s) \<Longrightarrow> Write p \<noteq> None"
  by (cases p) (auto simp: Write_eqs Let_def)

lemma write_defined: "heap w c \<noteq> None \<Longrightarrow> Write p \<noteq> None \<Longrightarrow> client_WritePacket c p w \<noteq> None"
  by (auto simp: client_WritePacket_eq split: option.splits client_kind.splits prod.splits)

lemma write_again: "client_WritePacket c p w = Some (e, q, v) \<Longrightarrow> Write p \<noteq> None \<Longrightarrow> Write q \<noteq> None"
  by (auto simp: client_WritePacket_eq Write_again split: option.splits client_kind.splits prod.splits
      Option.bind_splits)

lemma write_heap: "client_WritePacket c p w = Some (e, q, v) \<Longrightarrow> heap v d = None \<longleftrightarrow> heap w d = None"
  using client_Write_shape evolve_None(1) by blast

lemma write_good: "client_WritePacket c p w = Some (e, q, v) \<Longrightarrow> good_world w \<Longrightarrow> good_world v"
  by (rule quiet_good [OF act_acts [OF send]]) auto

lemma count_heap [simp]: "heap (count f w) = heap w"
  by (simp add: count_def)

lemma WritePacket_defined: "heap w c \<noteq> None \<Longrightarrow> Write p \<noteq> None \<Longrightarrow> WritePacket c p w \<noteq> None"
  unfolding WritePacket_def
  by (rule bind3_defined [OF write_defined]) simp_all

lemma GetId_defined: "heap w c \<noteq> None \<Longrightarrow> GetId c w \<noteq> None"
  by (simp add: GetId_eq)

lemma deliver_defined:
  "(\<And>c. c \<in> set cs \<Longrightarrow> heap w c \<noteq> None) \<Longrightarrow> Write p \<noteq> None \<Longrightarrow>
     deliver_loop counted cs seen p w \<noteq> None \<and>
     (\<forall>q v. deliver_loop counted cs seen p w = Some (q, v) \<longrightarrow> Write q \<noteq> None)"
proof (induction cs arbitrary: seen p w)
  case (Cons c cs)
  from Cons.prems(1) obtain cl where cl: "heap w c = Some cl" by force
  show ?case
  proof (cases "client_id cl \<in> set seen")
    case True
    with Cons.IH [of w p seen] Cons.prems show ?thesis by (simp add: GetId_eq cl del: not_None_eq)
  next
    case False
    from write_defined [of w c p] Cons.prems cl obtain e q v where
      w: "client_WritePacket c p w = Some (e, q, v)" by auto
    let ?v = "if counted then count (\<lambda>s. s\<lparr>PubSent := PubSent s + 1\<rparr>) v else v"
    have "heap ?v d \<noteq> None" if "d \<in> set cs" for d
      using that Cons.prems(1) [of d] write_heap [OF w, of d] by auto
    from Cons.IH [OF this write_again [OF w Cons.prems(2)]] False show ?thesis
      by (simp add: GetId_eq cl w Let_def)
  qed
qed simp

section \<open>Publishing\<close>

lemma Subscribers_defined:
  "held_by C t \<Longrightarrow> levels topic \<noteq> [] \<Longrightarrow> Trie_Subscribers topic t \<noteq> None"
  using Subscribers_law [OF held_byD(1), of C t topic]
  by (cases "wildcard topic") (auto simp: Trie_Subscribers_def)

lemma good_worldD:
  assumes "good_world w"
  shows "held_by (is_client BrokerClient w) (brokerTopics w)"
    "held_by (is_client ClusterClient w) (clusterTopics w)"
    "map_of (clients w) i = Some c \<Longrightarrow> is_client BrokerClient w c"
    "map_of (clusters w) i = Some c \<Longrightarrow> is_client ClusterClient w c"
  using assms by (auto simp: good_world_def typed_def dest!: map_of_SomeD)

lemma subscribers_in_heap:
  assumes "good_world w"
  shows "Trie_Subscribers topic (brokerTopics w) = Some cs \<Longrightarrow> c \<in> set cs \<Longrightarrow> heap w c \<noteq> None"
    "Trie_Subscribers topic (clusterTopics w) = Some cs \<Longrightarrow> c \<in> set cs \<Longrightarrow> heap w c \<noteq> None"
  using held_by_Subscribers good_worldD(1,2) [OF assms] by (fastforce simp: is_client_def)+

lemma good_count [simp]: "good_world (count f w) = good_world w"
  by (simp add: count_def good_world_def heap_ok_def typed_def is_client_def [abs_def])

lemma tables_count [simp]: "brokerTopics (count f w) = brokerTopics w" "clusterTopics (count f w) = clusterTopics w"
  "clients (count f w) = clients w" "clusters (count f w) = clusters w" "qos2Msgs (count f w) = qos2Msgs w"
  "conns (count f w) = conns w"
  by (simp_all add: count_def)

lemma DoPublish_defined:
  assumes "good_world w" "levels topic \<noteq> []" "Write p \<noteq> None"
  shows "DoPublish topic p w \<noteq> None"
proof -
  from Subscribers_defined [OF good_worldD(1) [OF assms(1)] assms(2)] obtain cs where
    cs: "Trie_Subscribers topic (brokerTopics w) = Some cs" by auto
  let ?w = "count (\<lambda>s. s\<lparr>PubRecv := PubRecv s + 1\<rparr>) w"
  from deliver_defined [of cs ?w p True] subscribers_in_heap(1) [OF assms(1) cs] assms(3) obtain q v where
    q: "deliver_loop True cs [] p ?w = Some (q, v)" "Write q \<noteq> None" by fastforce
  have "acts quiet ?w v" using runsD [OF runs_deliver [OF subset_refl] q(1)] by simp
  then have v: "good_world v" using assms(1) by (simp add: quiet_good)
  from Subscribers_defined [OF good_worldD(2) [OF v] assms(2)] obtain ds where
    ds: "Trie_Subscribers topic (clusterTopics v) = Some ds" by auto
  from deliver_defined [of ds v q False] subscribers_in_heap(2) [OF v ds] q(2)
  have "deliver_loop False ds [] q v \<noteq> None" by blast
  then show ?thesis by (simp add: DoPublish_def cs q(1) ds)
qed

lemma process_retain_defined:
  assumes "good_world w" "levels topic \<noteq> []"
  shows "process_retain topic p w \<noteq> None"
proof -
  note wf = held_byD(1) [OF good_worldD(1) [OF assms(1)]]
  have "Trie_AddRetain topic p (brokerTopics w) \<noteq> None"
    using AddRetain_law [OF wf assms(2), of p] by (elim exE conjE) simp
  moreover have "Trie_RemoveRetain topic (brokerTopics w) \<noteq> None"
    using RemoveRetain_law [OF wf assms(2)] by (elim exE conjE) simp
  ultimately show ?thesis
    by (auto simp: process_retain_def Let_def)
qed

lemma WritePacket_good:
  "WritePacket c p w = Some (e, q, v) \<Longrightarrow> good_world w \<Longrightarrow> good_world v"
  using runsD [OF runs_WritePacket [OF subset_refl]] quiet_good by fastforce

lemma WritePacket_heap:
  "WritePacket c p w = Some (e, q, v) \<Longrightarrow> heap v d = None \<longleftrightarrow> heap w d = None"
  using runsD [OF runs_WritePacket [OF subset_refl]] acts_heap by fastforce

lemma ProcessPublish_defined:
  assumes "good_world w" "heap w c \<noteq> None" "levels (TopicName p) \<noteq> []"
  shows "ProcessPublish c p w \<noteq> None"
proof -
  have end_defined: "DoPublish (TopicName p) (PublishP p) v \<bind>
      (\<lambda>(q, w). process_retain (TopicName p) (as_publish q p) w) \<noteq> None" if v: "good_world v" for v
  proof (rule bind2_defined [OF DoPublish_defined [OF v assms(3)]])
    show "Write (PublishP p) \<noteq> None" by (rule Write_total') simp
    fix q u assume "DoPublish (TopicName p) (PublishP p) v = Some (q, u)"
    then have "acts quiet v u" using runsD [OF runs_DoPublish [OF subset_refl]] by fastforce
    then show "(case (q, u) of (q, w) \<Rightarrow> process_retain (TopicName p) (as_publish q p) w) \<noteq> None"
      using v assms(3) by (simp add: quiet_good process_retain_defined)
  qed
  have ack: "WritePacket c r v \<bind> (\<lambda>(err, _, w).
      if err \<noteq> None then Some w
      else DoPublish (TopicName p) (PublishP p) w \<bind>
        (\<lambda>(q, w). process_retain (TopicName p) (as_publish q p) w)) \<noteq> None"
    if "good_world v" "heap v c \<noteq> None" "Write r \<noteq> None" for v r
    by (rule bind3_defined [OF WritePacket_defined [OF that(2,3)]], simp only: prod.case,
        rule if_defined, rule Some_defined, rule end_defined, erule WritePacket_good, rule that(1))
  obtain v e where v: "saveQos2Msg (pub_MessageID p) w = (v, e)" by fastforce
  have "good_world v" "heap v = heap w" using v assms(1) by (auto simp: saveQos2Msg_def good_world_def heap_ok_def
     typed_def is_client_def [abs_def] split: if_splits)
  moreover have "Write (puback_for i) \<noteq> None" "Write (pubrec_for i) \<noteq> None" for i
    by (rule Write_total'; simp add: puback_for_def pubrec_for_def)+
  ultimately show ?thesis
    unfolding ProcessPublish_def Let_def v prod.case
    using end_defined [OF assms(1)] ack [OF assms(1,2)] ack [of v] assms(2)
    by (auto split: option.split simp del: not_None_eq)
qed


section \<open>Subscribing\<close>

lemma unsubscribe_topics_defined:
  "good_world w \<Longrightarrow> heap w c \<noteq> None \<Longrightarrow> unsubscribe_topics c fs w \<noteq> None"
proof (induction fs arbitrary: w)
  case (Cons f fs)
  have "RemoveTopic c f w \<noteq> None" using Cons.prems(2) by (auto simp: RemoveTopic_eq)
  then obtain v e where v: "RemoveTopic c f w = Some (v, e)" by auto
  have gv: "good_world v" using act_good [OF remove_topic [OF v]] Cons.prems(1) by simp
  have "heap v c \<noteq> None" using evolve_None(1) [OF act_evolve [OF remove_topic [OF v]]] Cons.prems(2) by simp
  then obtain i where i: "GetId c v = Some i" using GetId_defined by blast
  from Unsubscribe_law [OF held_byD(1) [OF good_worldD(1) [OF gv]], of f i] obtain t e where
    t: "Trie_Unsubscribe f i (brokerTopics v) = Some (t, e)" by blast
  have g: "good_world (v\<lparr>brokerTopics := t\<rparr>)" using act_good [OF unsubs [OF t]] gv by simp
  let ?u = "if e then count (\<lambda>s. s\<lparr>SubCount := SubCount s - 1\<rparr>) (v\<lparr>brokerTopics := t\<rparr>) else v\<lparr>brokerTopics := t\<rparr>"
  have "unsubscribe_topics c fs ?u \<noteq> None"
    using g \<open>heap v c \<noteq> None\<close> by (intro Cons.IH) auto
  then show ?case by (simp add: v i t Let_def del: not_None_eq)
qed simp

lemma to_clusters_defined:
  "(\<And>i c. (i, c) \<in> set cs \<Longrightarrow> heap w c \<noteq> None) \<Longrightarrow> Write p \<noteq> None \<Longrightarrow> to_clusters cs p w \<noteq> None"
proof (induction cs arbitrary: p w)
  case (Cons ic cs)
  obtain i c where ic: "ic = (i, c)" by (cases ic)
  have "heap w c \<noteq> None" using Cons.prems(1) [of i c] ic by simp
  then show ?case
    unfolding ic to_clusters.simps
  proof (rule bind3_defined [OF write_defined [OF _ Cons.prems(2)]])
    fix e q v assume w: "client_WritePacket c p w = Some (e, q, v)"
    have "to_clusters cs q v \<noteq> None"
      using Cons.prems(1) write_heap [OF w]
      by (intro Cons.IH write_again [OF w Cons.prems(2)]) (metis list.set_intros(2))
    then show "(case (e, q, v) of (_, packet, w) \<Rightarrow> to_clusters cs packet w) \<noteq> None" by simp
  qed
qed simp

lemma peers_in_heap: "good_world w \<Longrightarrow> (i, c) \<in> set (clusters w) \<Longrightarrow> heap w c \<noteq> None"
  by (auto simp: good_world_def typed_def is_client_def)

lemma runs_good:
  assumes "runs (\<lambda>w. w) L w m" "m = Some v" "\<And>l. l \<in> L \<Longrightarrow> label_ok w l" "good_world w"
  shows "good_world v" "heap v c = None \<longleftrightarrow> heap w c = None" "is_client K v c = is_client K w c"
  using acts_good [OF runsD [OF assms(1,2)] assms(3,4)] acts_heap [OF runsD [OF assms(1,2)]]
    is_client_evolve [OF acts_evolve [OF runsD [OF assms(1,2)]]] by blast+

lemma runs_quiet_good:
  assumes "runs (\<lambda>w. w) quiet w m" "m = Some v" "good_world w"
  shows "good_world v" "heap v c = None \<longleftrightarrow> heap w c = None" "is_client K v c = is_client K w c"
proof -
  have ok: "l \<in> quiet \<Longrightarrow> label_ok w l" for l by auto
  show "good_world v" "heap v c = None \<longleftrightarrow> heap w c = None" "is_client K v c = is_client K w c"
    using runs_good [OF assms(1,2) _ assms(3)] ok by blast+
qed

lemma to_peers_defined:
  "good_world w \<Longrightarrow> Write p \<noteq> None \<Longrightarrow> to_clusters (clusters w) p w \<noteq> None"
  using to_clusters_defined [of "clusters w" w p] peers_in_heap by blast

lemma ProcessUnSubscribe_defined:
  assumes "good_world w" "heap w c \<noteq> None"
  shows "ProcessUnSubscribe c p w \<noteq> None"
  unfolding ProcessUnSubscribe_def
proof (rule bind3_defined [OF WritePacket_defined [OF assms(2)]])
  show "Write (unsuback_for (unsub_MessageID p)) \<noteq> None" by (rule Write_total') (simp add: unsuback_for_def)
  fix e q v assume v: "WritePacket c (unsuback_for (unsub_MessageID p)) w = Some (e, q, v)"
  note gv = WritePacket_good [OF v assms(1)] and hv = WritePacket_heap [OF v, of c]
  have "unsubscribe_topics c (unsub_Topics p) v \<bind> (\<lambda>w. to_clusters (clusters w) (UnsubscribeP p) w) \<noteq> None"
  proof (rule bind_defined)
    show "unsubscribe_topics c (unsub_Topics p) v \<noteq> None"
      using unsubscribe_topics_defined [OF gv] hv assms(2) by blast
    fix u assume u: "unsubscribe_topics c (unsub_Topics p) v = Some u"
    have "good_world u" by (rule runs_good(1) [OF runs_unsubscribe_topics [OF subset_refl] u _ gv]) auto
    then show "to_clusters (clusters u) (UnsubscribeP p) u \<noteq> None"
      by (rule to_peers_defined) (rule Write_total', simp)
  qed
  then show "(case (e, q, v) of (_, _, w) \<Rightarrow> unsubscribe_topics c (unsub_Topics p) w \<bind>
      (\<lambda>w. to_clusters (clusters w) (UnsubscribeP p) w)) \<noteq> None" by simp
qed

lemma send_retains_defined: "heap w c \<noteq> None \<Longrightarrow> send_retains c ps w \<noteq> None"
proof (induction ps arbitrary: w)
  case (Cons p ps)
  then show ?case unfolding send_retains.simps
    by (intro bind3_defined [OF WritePacket_defined])
      (simp_all add: WritePacket_heap Write_total' del: not_None_eq)
qed simp

lemma subscribe_to_defined:
  "good_world w \<Longrightarrow> is_client BrokerClient w c \<Longrightarrow> \<forall>f \<in> set fs. levels f \<noteq> [] \<Longrightarrow> subscribe_to c fs w \<noteq> None"
proof (induction fs arbitrary: w)
  case (Cons f fs)
  then obtain cl where cl: "heap w c = Some cl" by (auto simp: is_client_def)
  have i: "GetId c w = Some (client_id cl)" by (simp add: GetId_eq cl)
  have "AddTopic c f (client_id cl) w \<noteq> None" by (simp add: AddTopic_eq cl Let_def)
  then obtain v e where v: "AddTopic c f (client_id cl) w = Some (v, e)" by auto
  have gv: "good_world v" using act_good [OF add_topic [OF v]] Cons.prems(1) by simp
  have cv: "is_client BrokerClient v c"
    using is_client_evolve [OF act_evolve [OF add_topic [OF v]]] Cons.prems(2) by simp
  from Subscribe_law [OF held_byD(1) [OF good_worldD(1) [OF gv]], of f "client_id cl" c] obtain t x where
    t: "Trie_Subscribe f (client_id cl) c (brokerTopics v) = Some (t, x)" by blast
  have g: "good_world (v\<lparr>brokerTopics := t\<rparr>)" using act_good [OF subs [OF t]] gv cv by simp
  let ?u = "if \<not> x then count (\<lambda>s. s\<lparr>SubCount := SubCount s + 1\<rparr>) (v\<lparr>brokerTopics := t\<rparr>) else v\<lparr>brokerTopics := t\<rparr>"
  have u: "good_world ?u" "is_client BrokerClient ?u c" "heap ?u c \<noteq> None" "brokerTopics ?u = t"
    using g cv by (auto simp: is_client_def)
  have "\<exists>rs. Trie_SearchRetain f (brokerTopics ?u) = Some rs"
    using SearchRetain_law [OF held_byD(1) [OF good_worldD(1) [OF u(1)]], of f] Cons.prems(3) by auto
  then obtain rs where rs: "Trie_SearchRetain f (brokerTopics ?u) = Some rs" by blast
  have "send_retains c rs ?u \<bind> subscribe_to c fs \<noteq> None"
  proof (rule bind_defined [OF send_retains_defined [OF u(3)]])
    fix y assume y: "send_retains c rs ?u = Some y"
    note r = runs_quiet_good [OF runs_send_retains [OF subset_refl] y u(1)]
    show "subscribe_to c fs y \<noteq> None"
      using u(2) Cons.prems(3) by (intro Cons.IH r(1)) (auto simp: r(3))
  qed
  with rs show ?case by (simp add: i v t Let_def del: not_None_eq)
qed simp

lemma ProcessSubscribe_defined:
  assumes "good_world w" "is_client BrokerClient w c" "\<forall>f \<in> set (sub_Topics p). levels f \<noteq> []"
    "Write (SubscribeP p) \<noteq> None"
  shows "ProcessSubscribe c p w \<noteq> None"
  unfolding ProcessSubscribe_def
proof (rule bind3_defined [OF WritePacket_defined])
  show "heap w c \<noteq> None" using assms(2) by (auto simp: is_client_def)
  show "Write (suback_for (sub_MessageID p)) \<noteq> None" by (rule Write_total') (simp add: suback_for_def)
  fix e q v assume v: "WritePacket c (suback_for (sub_MessageID p)) w = Some (e, q, v)"
  note gv = WritePacket_good [OF v assms(1)]
  have cv: "is_client BrokerClient v c"
    using is_client_evolve [OF acts_evolve [OF runsD [OF runs_WritePacket [OF subset_refl] v]]] assms(2) by simp
  have "subscribe_to c (sub_Topics p) v \<bind> (\<lambda>w. to_clusters (clusters w) (SubscribeP p) w) \<noteq> None"
  proof (rule bind_defined [OF subscribe_to_defined [OF gv cv assms(3)]])
    fix u assume u: "subscribe_to c (sub_Topics p) v = Some u"
    have "good_world u" using cv by (intro runs_good(1) [OF runs_subscribe_to [OF subset_refl] u _ gv]) auto
    then show "to_clusters (clusters u) (SubscribeP p) u \<noteq> None"
      using assms(4) by (rule to_peers_defined)
  qed
  then show "(case (e, q, v) of (_, _, w) \<Rightarrow> subscribe_to c (sub_Topics p) w \<bind>
      (\<lambda>w. to_clusters (clusters w) (SubscribeP p) w)) \<noteq> None" by simp
qed


section \<open>The other messages\<close>

lemma reply_defined:
  "heap w c \<noteq> None \<Longrightarrow> Write p \<noteq> None \<Longrightarrow> WritePacket c p w \<bind> (\<lambda>(_, _, w). Some w) \<noteq> None"
  by (rule bind3_defined [OF WritePacket_defined]) simp_all

lemma client_Close_defined: "heap w c \<noteq> None \<Longrightarrow> client_Close c w \<noteq> None"
  by (auto simp: client_Close_eq Let_def)

lemma close_good:
  assumes "client_Close c w = Some v" "good_world w"
  shows "good_world v" "heap v d = None \<longleftrightarrow> heap w d = None"
  using act_good [OF shut [OF assms(1)]] assms(2) evolve_None(1) [OF client_Close_shape(1) [OF assms(1)]] by auto

lemma ProcessDisconnect_defined:
  assumes "good_world w" "heap w c \<noteq> None"
  shows "ProcessDisconnect c w \<noteq> None"
  unfolding ProcessDisconnect_def
proof (rule bind_defined [OF client_Close_defined [OF assms(2)]])
  fix v assume v: "client_Close c w = Some v"
  note g = close_good [OF v assms(1)]
  from g(2) [of c] assms(2) obtain cl where cl: "heap v c = Some cl" by (cases "heap v c") auto
  have "unsubscribe_topics c (map fst (client_topics cl)) v \<noteq> None"
    using unsubscribe_topics_defined [OF g(1)] cl by simp
  then show "heap v c \<bind> (\<lambda>cl. unsubscribe_topics c (map fst (client_topics cl)) v \<bind>
      (\<lambda>w. Some (count (\<lambda>s. s\<lparr>ClientsConnected := ClientsConnected s - 1,
        ClientsDisconnected := ClientsDisconnected s + 1\<rparr>) w))) \<noteq> None"
    by (auto simp: cl)
qed

lemma ProcessPubrel_defined: "heap w c \<noteq> None \<Longrightarrow> ProcessPubrel c p w \<noteq> None"
proof -
  assume h: "heap w c \<noteq> None"
  obtain v e where v: "checkQos2Msg (pubrel_MessageID p) w = (v, e)" by fastforce
  then have "heap v c \<noteq> None" using h checkQos2Msg_shape [OF v] by (metis World.select_convs(6) World.surjective World.update_convs(9))
  then show ?thesis unfolding ProcessPubrel_def v Let_def prod.case
    by (rule reply_defined) (rule Write_total', simp add: pubcomp_for_def)
qed

lemma ProcessConnect_defined:
  assumes "good_world w" "is_client BrokerClient w c"
  shows "ProcessConnect c cp w \<noteq> None"
proof -
  let ?old = "case map_of (clients w) (ClientIdentifier cp) of None \<Rightarrow> Some w | Some d \<Rightarrow> client_Close d w"
  have "?old \<noteq> None"
  proof (cases "map_of (clients w) (ClientIdentifier cp)")
    case (Some d)
    from good_worldD(3) [OF assms(1) Some] have "heap w d \<noteq> None" by (auto simp: is_client_def)
    from client_Close_defined [OF this] show ?thesis by (simp add: Some)
  qed simp
  then obtain v where v: "?old = Some v" by auto
  have r: "runs (\<lambda>w. w) (range Shut) w ?old"
    by (rule runs_case_option) (auto intro: runs_Some runs_close)
  have cv: "is_client BrokerClient v c" using is_client_evolve [OF acts_evolve [OF runsD [OF r v]]] assms(2) by simp
  then have hv: "heap v c \<noteq> None" by (auto simp: is_client_def)
  have "Write (connack_for cp) \<noteq> None" by (rule Write_total') (simp add: connack_for_def)
  from WritePacket_defined [OF hv this] obtain e q u where u: "WritePacket c (connack_for cp) v = Some (e, q, u)"
    by auto
  have "is_client BrokerClient u c"
    using is_client_evolve [OF acts_evolve [OF runsD [OF runs_WritePacket [OF subset_refl] u]]] cv by simp
  then show ?thesis
    unfolding ProcessConnect_def v Let_def
    by (auto simp: v u is_client_def SetId_eq SetWill_def set_client_def)
qed

text \<open>The topics of a packet all have a level.\<close>

fun named_packet :: "ControlPacket \<Rightarrow> bool" where
  "named_packet (PublishP p) \<longleftrightarrow> levels (TopicName p) \<noteq> []"
| "named_packet (SubscribeP s) \<longleftrightarrow> list_all (\<lambda>f. levels f \<noteq> []) (sub_Topics s)"
| "named_packet p \<longleftrightarrow> True"

theorem ProcessMessage_defined:
  assumes "good_world w" "is_client BrokerClient w c" "named_packet p" "Write p \<noteq> None"
  shows "ProcessMessage c p w \<noteq> None"
proof -
  let ?w = "count (\<lambda>s. s\<lparr>BytesRecv := BytesRecv s + word_of_int (Size p), MsgRecv := MsgRecv s + 1\<rparr>) w"
  have g: "good_world ?w" "heap ?w c \<noteq> None" "is_client BrokerClient ?w c"
    using assms(1,2) by (auto simp: is_client_def)
  show ?thesis
  proof (cases p)
    case (ConnectP cp)
    then show ?thesis using ProcessConnect_defined [OF g(1,3)] by (simp add: ProcessMessage_def)
  next
    case (PublishP q)
    then show ?thesis using ProcessPublish_defined [OF g(1,2)] assms(3) by (simp add: ProcessMessage_def)
  next
    case (SubscribeP q)
    then show ?thesis using ProcessSubscribe_defined [OF g(1,3)] assms(3,4)
      by (simp add: ProcessMessage_def list_all_iff)
  next
    case (UnsubscribeP q)
    then show ?thesis using ProcessUnSubscribe_defined [OF g(1,2)] by (simp add: ProcessMessage_def)
  next
    case (PubrelP q)
    then show ?thesis using ProcessPubrel_defined [OF g(2)] by (simp add: ProcessMessage_def)
  next
    case (PingreqP q)
    then show ?thesis using reply_defined [OF g(2)] Write_total'
      by (simp add: ProcessMessage_def ProcessPing_def)
  next
    case (DisconnectP q)
    then show ?thesis using ProcessDisconnect_defined [OF g(1,2)] by (simp add: ProcessMessage_def)
  qed (simp_all add: ProcessMessage_def)
qed

theorem read_once_defined:
  assumes "good_world w" "is_client BrokerClient w c"
    and "\<And>p v. client_ReadPacket c w = Some (Some p, None, v) \<Longrightarrow> named_packet p"
    and "\<And>cl p. heap w c = Some cl \<Longrightarrow> will cl = Some p \<Longrightarrow> levels (TopicName p) \<noteq> []"
  shows "broker_read_once ProcessMessage c w \<noteq> None"
proof -
  obtain cl where cl: "heap w c = Some cl" using assms(2) by (auto simp: is_client_def)
  then have "client_ReadPacket c w \<noteq> None"
    by (auto simp: client_ReadPacket_eq split: option.split prod.split)
  then obtain p err v where r: "client_ReadPacket c w = Some (p, err, v)" by auto
  then have rd: "reads c w v" by (auto simp: reads_def)
  note gv = reads_good [OF rd assms(1)] and cv = reads_is_client [OF rd, of BrokerClient c, THEN iffD2, OF assms(2)]
  show ?thesis
  proof (cases err)
    case None
    have "p \<noteq> None"
    proof
      assume "p = None"
      with r None obtain i rest where "ReadPacket i = (None, None, rest)"
        by (auto simp: client_ReadPacket_eq cl split: option.splits if_splits prod.splits)
      from ReadPacket_None [OF this] show False by simp
    qed
    then obtain q where q: "p = Some q" by auto
    have "Write q \<noteq> None"
    proof (cases q)
      case (SubscribeP s)
      from r None q SubscribeP obtain i rest where "ReadPacket i = (Some (SubscribeP s), None, rest)"
        by (auto simp: client_ReadPacket_eq cl split: option.splits if_splits prod.splits)
      from ReadPacket_Subscribe [OF this] show ?thesis
        using subscribe_topics_total [of "sub_Topics s" "Qoss s"] by (auto simp: SubscribeP Write_eqs Let_def)
    qed (auto simp: Write_total' simp del: not_None_eq)
    with ProcessMessage_defined [OF gv cv] assms(3) [of q v] r None q have "ProcessMessage c q v \<noteq> None"
      by simp
    then show ?thesis by (auto simp: broker_read_once_def r None q)
  next
    case (Some e)
    have clv: "heap v c = Some cl" using cl by (simp add: reads_heap [OF rd])
    let ?w = "case will cl of None \<Rightarrow> Some v | Some p \<Rightarrow> ProcessMessage c (PublishP p) v"
    have "?w \<noteq> None"
      using ProcessMessage_defined [OF gv cv] assms(4) [OF cl] Write_total'
      by (auto split: option.split simp del: not_None_eq)
    then obtain u where u: "?w = Some u" by auto
    have "runs (\<lambda>w. w) (Collect (broker_allowed c)) v ?w"
      by (rule runs_case_option) (simp_all add: runs_Some broker_runs)
    note a = runsD [OF this u]
    have "good_world u" "is_client BrokerClient u c"
      using broker_acts_good [OF a cv gv] is_client_evolve [OF acts_evolve [OF a]] cv by auto
    then have "ProcessMessage c disconnect_packet u \<noteq> None"
      by (rule ProcessMessage_defined) (simp_all add: disconnect_packet_def Write_eqs)
    with u show ?thesis by (auto simp: broker_read_once_def r Some clv)
  qed
qed

end
