(* ===== verification/Delivery.thy ===== *)
theory Delivery
  imports Broker_Totality Topic_Receivers
begin

text \<open>
  What is written to whom. A client with an open connection that no other client shares receives what
  an operation writes to it, in order, and nothing else.
\<close>

section \<open>One write\<close>

definition attached :: "World \<Rightarrow> cref \<Rightarrow> connref \<Rightarrow> Conn \<Rightarrow> bool" where
  "attached w c k cn \<longleftrightarrow>
     (\<exists>cl. heap w c = Some cl \<and> conn cl = Some k) \<and> conns w k = Some cn \<and> up cn"

definition wrote :: "byte list \<Rightarrow> Conn \<Rightarrow> Conn" where
  "wrote bs cn = cn\<lparr>sent := sent cn @ bs\<rparr>"

lemma wrote_simps [simp]:
  "sent (wrote bs cn) = sent cn @ bs" "up (wrote bs cn) = up cn" "incoming (wrote bs cn) = incoming cn"
  "wrote [] cn = cn" "wrote bs (wrote as cn) = wrote (as @ bs) cn"
  by (simp_all add: wrote_def)

lemma write_own:
  assumes "client_WritePacket c p w = Some (e, q, v)" "attached w c k cn" "Write p = Some (bs, p')"
  shows "e = None" "q = p'" "attached v c k (wrote bs cn)" "heap v = heap w"
    "v = w\<lparr>conns := (conns w)(k \<mapsto> wrote bs cn)\<rparr>"
  using assms by (auto simp: attached_def client_WritePacket_eq conn_Write_def wrote_def)

lemma write_other:
  assumes "client_WritePacket d p w = Some (e, q, v)" "heap_ok w" "attached w c k cn" "d \<noteq> c"
  shows "attached v c k cn" "heap v = heap w"
proof -
  obtain cl where cl: "heap w c = Some cl" "conn cl = Some k" using assms(3) by (auto simp: attached_def)
  then have "conn dl \<noteq> Some k" if "heap w d = Some dl" for dl
    using assms(2,4) that unfolding heap_ok_def by blast
  then show "attached v c k cn" "heap v = heap w"
    using assms(1,3) by (auto simp: attached_def client_WritePacket_eq conn_Write_def
        split: Option.bind_splits option.splits client_kind.splits if_splits prod.splits)
qed

lemma write_writes:
  "client_WritePacket c p w = Some (e, q, v) \<Longrightarrow> Write p = Some (bs, p') \<Longrightarrow> \<exists>q'. Write q = Some (bs, q')"
  by (auto simp: client_WritePacket_eq Write_again split: option.splits client_kind.splits prod.splits
      Option.bind_splits)

lemma count_attached [simp]: "attached (count f w) c k cn = attached w c k cn"
  by (simp add: attached_def)

lemma count_heap_ok [simp]: "heap_ok (count f w) = heap_ok w"
  by (simp add: heap_ok_def count_def)


section \<open>The loop over the subscribers\<close>

lemma deliver_effect:
  assumes "deliver_loop counted cs seen p w = Some (q, v)" "heap_ok w" "attached w c k cn"
    "Write p = Some (bs, p')" "\<And>d. d \<in> set cs \<Longrightarrow> GetId d w = GetId c w \<Longrightarrow> d = c"
    "GetId c w = Some i"
  shows "attached v c k (wrote (if c \<in> set cs \<and> i \<notin> set seen then bs else []) cn) \<and> heap v = heap w \<and>
    (\<exists>q'. Write q = Some (bs, q')) \<and> heap_ok v"
  using assms
proof (induction cs arbitrary: seen p p' w cn)
  case (Cons d cs)
  then obtain j where j: "GetId d w = Some j"
    by (auto split: Option.bind_splits)
  show ?case
  proof (cases "j \<in> set seen")
    case True
    have "d = c \<Longrightarrow> i \<in> set seen" using j Cons.prems(6) True by simp
    moreover have "deliver_loop counted cs seen p w = Some (q, v)"
      using Cons.prems(1) j True by simp
    note Cons.IH [OF this Cons.prems(2-4) _ Cons.prems(6)]
    ultimately show ?thesis using Cons.prems(5) by auto
  next
    case False
    then obtain e r u where u: "client_WritePacket d p w = Some (e, r, u)"
      "deliver_loop counted cs (j # seen) r (if counted then count (\<lambda>s. s\<lparr>PubSent := PubSent s + 1\<rparr>) u else u) = Some (q, v)"
      using Cons.prems(1) j by (auto simp: Let_def split: Option.bind_splits)
    let ?u = "if counted then count (\<lambda>s. s\<lparr>PubSent := PubSent s + 1\<rparr>) u else u"
    from write_writes [OF u(1) Cons.prems(4)] obtain r' where r: "Write r = Some (bs, r')" by blast
    have ok: "heap_ok ?u"
      using heap_ok_evolve [OF _ Cons.prems(2)] client_Write_shape [OF u(1)] by auto
    show ?thesis
    proof (cases "d = c")
      case True
      note own = write_own [OF u(1) [unfolded True] Cons.prems(3,4)]
      have "i = j" using True j Cons.prems(6) by simp
      have at: "attached ?u c k (wrote bs cn)" and h: "heap ?u = heap w" using own by simp_all
      then have "GetId x ?u = GetId x w" for x by (simp add: GetId_eq)
      with Cons.IH [OF u(2) ok at r] Cons.prems(5,6) h \<open>i = j\<close> True False show ?thesis by auto
    next
      case nd: False
      note other = write_other [OF u(1) Cons.prems(2,3) nd]
      have at: "attached ?u c k cn" and h: "heap ?u = heap w" using other by simp_all
      then have g: "GetId x ?u = GetId x w" for x by (simp add: GetId_eq)
      have "i \<noteq> j" using Cons.prems(5) [of d] j Cons.prems(6) nd by auto
      with Cons.IH [OF u(2) ok at r] Cons.prems(5,6) g h nd show ?thesis by auto
    qed
  qed
qed auto

lemma deliver_none:
  assumes "deliver_loop counted cs seen p w = Some (q, v)" "heap_ok w" "attached w c k cn" "c \<notin> set cs"
  shows "attached v c k cn \<and> heap v = heap w \<and> heap_ok v"
  using assms
proof (induction cs arbitrary: seen p w)
  case (Cons d cs)
  then obtain j where j: "GetId d w = Some j"
    by (auto split: Option.bind_splits)
  show ?case
  proof (cases "j \<in> set seen")
    case True
    with Cons j show ?thesis by auto
  next
    case False
    then obtain e r u where u: "client_WritePacket d p w = Some (e, r, u)"
      "deliver_loop counted cs (j # seen) r (if counted then count (\<lambda>s. s\<lparr>PubSent := PubSent s + 1\<rparr>) u else u) = Some (q, v)"
      using Cons.prems(1) j by (auto simp: Let_def split: Option.bind_splits)
    let ?u = "if counted then count (\<lambda>s. s\<lparr>PubSent := PubSent s + 1\<rparr>) u else u"
    have "heap_ok ?u" using heap_ok_evolve [OF _ Cons.prems(2)] client_Write_shape [OF u(1)] by auto
    moreover have "attached ?u c k cn" "heap ?u = heap w"
      using write_other [OF u(1) Cons.prems(2,3)] Cons.prems(4) by auto
    ultimately show ?thesis using Cons.IH [OF u(2)] Cons.prems(4) by auto
  qed
qed auto

lemma deliver_writes:
  "deliver_loop counted cs seen p w = Some (q, v) \<Longrightarrow> Write p = Some (bs, p') \<Longrightarrow>
     \<exists>q'. Write q = Some (bs, q')"
proof (induction cs arbitrary: seen p p' w)
  case (Cons d cs)
  then obtain j where j: "GetId d w = Some j"
    by (auto split: Option.bind_splits)
  show ?case
  proof (cases "j \<in> set seen")
    case True
    with Cons j show ?thesis by simp
  next
    case False
    then obtain e r u where u: "client_WritePacket d p w = Some (e, r, u)"
      "deliver_loop counted cs (j # seen) r (if counted then count (\<lambda>s. s\<lparr>PubSent := PubSent s + 1\<rparr>) u else u) = Some (q, v)"
      using Cons.prems(1) j by (auto simp: Let_def split: Option.bind_splits)
    from write_writes [OF u(1) Cons.prems(2)] Cons.IH [OF u(2)] show ?thesis by blast
  qed
qed auto

text \<open>The clients the loop writes to: of those with the same identity the first.\<close>

fun selected :: "('a \<Rightarrow> 'i) \<Rightarrow> 'i list \<Rightarrow> 'a list \<Rightarrow> 'a list" where
  "selected get seen [] = []"
| "selected get seen (d # cs) =
     (if get d \<in> set seen then selected get seen cs else d # selected get (get d # seen) cs)"

lemma selected_unseen: "d \<in> set (selected get seen cs) \<Longrightarrow> get d \<notin> set seen"
proof (induction cs arbitrary: seen)
  case (Cons a cs)
  then show ?case using Cons.IH [of "get a # seen"] by (auto split: if_splits)
qed simp

lemma selected_subset: "set (selected get seen cs) \<subseteq> set cs"
  by (induction cs arbitrary: seen) auto

lemma selected_inj: "inj_on get (set (selected get seen cs))"
  by (induction cs arbitrary: seen) (auto dest: selected_unseen)

lemma selected_ids: "get ` set (selected get seen cs) = get ` set cs - set seen"
  by (induction cs arbitrary: seen) auto

lemma write_keeps:
  assumes "client_WritePacket d p w = Some (e, q, v)" "heap_ok w" "attached w c k cn" "Write p = Some (bs, p')"
  shows "attached v c k (wrote (if d = c then bs else []) cn)" "heap v = heap w"
  using write_own(3,4) [OF assms(1) _ assms(4)] write_other [OF assms(1-3)] assms(3) by (cases "d = c"; simp)+

lemma deliver_selected:
  assumes "deliver_loop counted cs seen p w = Some (q, v)" "heap_ok w" "attached w c k cn" "Write p = Some (bs, p')"
  shows "attached v c k (wrote (if c \<in> set (selected (\<lambda>d. GetId d w) (map Some seen) cs) then bs else []) cn) \<and>
    heap v = heap w \<and> (\<exists>q'. Write q = Some (bs, q')) \<and> heap_ok v"
  using assms
proof (induction cs arbitrary: seen p p' w cn)
  case (Cons d cs)
  then obtain j where j: "GetId d w = Some j"
    by (auto split: Option.bind_splits)
  show ?case
  proof (cases "j \<in> set seen")
    case True
    then have "deliver_loop counted cs seen p w = Some (q, v)"
      using Cons.prems(1) j by simp
    from Cons.IH [OF this Cons.prems(2-4)] True j show ?thesis by auto
  next
    case False
    then obtain e r u where u: "client_WritePacket d p w = Some (e, r, u)"
      "deliver_loop counted cs (j # seen) r (if counted then count (\<lambda>s. s\<lparr>PubSent := PubSent s + 1\<rparr>) u else u) = Some (q, v)"
      using Cons.prems(1) j by (auto simp: Let_def split: Option.bind_splits)
    let ?u = "if counted then count (\<lambda>s. s\<lparr>PubSent := PubSent s + 1\<rparr>) u else u"
    from write_writes [OF u(1) Cons.prems(4)] obtain r' where r: "Write r = Some (bs, r')" by blast
    have ok: "heap_ok ?u"
      using heap_ok_evolve [OF _ Cons.prems(2)] client_Write_shape [OF u(1)] by auto
    note own = write_keeps [OF u(1) Cons.prems(2-4)]
    have at: "attached ?u c k (wrote (if d = c then bs else []) cn)" and h: "heap ?u = heap w"
      using own by simp_all
    from h have g: "(\<lambda>x. GetId x ?u) = (\<lambda>x. GetId x w)" by (simp add: GetId_eq)
    have "c \<notin> set (selected (\<lambda>d. GetId d w) (Some j # map Some seen) cs)" if "d = c"
      using selected_unseen [of c "\<lambda>d. GetId d w" "Some j # map Some seen" cs] j that by auto
    with Cons.IH [OF u(2) ok at r, unfolded g] h False j show ?thesis by (cases "d = c") auto
  qed
qed auto

section \<open>Publishing\<close>

definition topics_of :: "client_kind \<Rightarrow> World \<Rightarrow> (cref, PublishPacket) Trie" where
  "topics_of K w = (case K of BrokerClient \<Rightarrow> brokerTopics w | ClusterClient \<Rightarrow> clusterTopics w)"

lemma deliver_tables:
  assumes "deliver_loop counted cs seen p w = Some (q, v)"
  shows "clusterTopics v = clusterTopics w" "brokerTopics v = brokerTopics w"
proof -
  have "acts quiet w v" using runsD [OF runs_deliver [OF subset_refl] assms] by simp
  then have "same_tables w v"
    by (rule acts_induct [where P = "same_tables w"])
      (auto dest!: act_same_tables simp: same_tables_def)
  then show "clusterTopics v = clusterTopics w" "brokerTopics v = brokerTopics w"
    by (simp_all add: same_tables_def)
qed

lemma DoPublish_effect:
  assumes "good_world w" "DoPublish topic p w = Some (q, v)" "Write p = Some (bs, p')"
    "heap w c = Some cl" "attached w c k cn" "Trie_Subscribers topic (topics_of (kind cl) w) = Some subs"
    "\<And>d. d \<in> set subs \<Longrightarrow> GetId d w = GetId c w \<Longrightarrow> d = c"
  shows "attached v c k (wrote (if c \<in> set subs then bs else []) cn)"
proof -
  let ?w = "count (\<lambda>s. s\<lparr>PubRecv := PubRecv s + 1\<rparr>) w"
  from assms(2) obtain bsubs r u csubs where
    b: "Trie_Subscribers topic (brokerTopics w) = Some bsubs" "deliver_loop True bsubs [] p ?w = Some (r, u)" and
    cs: "Trie_Subscribers topic (clusterTopics u) = Some csubs" "deliver_loop False csubs [] r u = Some (q, v)"
    by (auto simp: DoPublish_def Let_def split: Option.bind_splits)
  have cs': "Trie_Subscribers topic (clusterTopics w) = Some csubs"
    using cs(1) deliver_tables(1) [OF b(2)] by simp
  have ok: "heap_ok ?w" using assms(1) by (simp add: good_world_def)
  have at: "attached ?w c k cn" using assms(5) by simp
  have id: "GetId c ?w = Some (client_id cl)" using assms(4) by (simp add: GetId_eq)
  have only: "d \<in> set bsubs \<Longrightarrow> is_client BrokerClient w d" "d \<in> set csubs \<Longrightarrow> is_client ClusterClient w d" for d
    by (erule held_by_Subscribers [OF good_worldD(1) [OF assms(1)] b(1)],
        erule held_by_Subscribers [OF good_worldD(2) [OF assms(1)] cs'])
  show ?thesis
  proof (cases "kind cl")
    case BrokerClient
    then have s: "bsubs = subs" using assms(6) b(1) by (simp add: topics_of_def)
    have "c \<notin> set csubs" using only(2) [of c] BrokerClient assms(4) by (auto simp: is_client_def)
    from deliver_effect [OF b(2) ok at assms(3) _ id] assms(7) have
      "attached u c k (wrote (if c \<in> set subs then bs else []) cn)" "heap_ok u"
      by (auto simp: s GetId_eq)
    from deliver_none [OF cs(2) this(2,1) \<open>c \<notin> set csubs\<close>] show ?thesis by simp
  next
    case ClusterClient
    then have s: "csubs = subs" using assms(6) cs' by (simp add: topics_of_def)
    have "c \<notin> set bsubs" using only(1) [of c] ClusterClient assms(4) by (auto simp: is_client_def)
    from deliver_none [OF b(2) ok at this] have u: "attached u c k cn" "heap u = heap w" "heap_ok u" by auto
    have g: "GetId x u = GetId x w" for x by (simp add: GetId_eq u(2))
    from deliver_writes [OF b(2) assms(3)]
    obtain r' where r: "Write r = Some (bs, r')" by blast
    from deliver_effect [OF cs(2) u(3,1) r] assms(4,7) show ?thesis by (auto simp: s g GetId_eq u(2))
  qed
qed

lemma DoPublish_selected:
  assumes "good_world w" "DoPublish topic p w = Some (q, v)" "Write p = Some (bs, p')" "publishable topic"
  shows "\<exists>sel. \<forall>K. sel K \<subseteq> receivers (topics_of K w) topic \<and> inj_on (\<lambda>d. GetId d w) (sel K) \<and>
    (\<lambda>d. GetId d w) ` sel K = (\<lambda>d. GetId d w) ` receivers (topics_of K w) topic \<and>
    (\<forall>c cl k cn. heap w c = Some cl \<longrightarrow> kind cl = K \<longrightarrow> attached w c k cn \<longrightarrow>
       attached v c k (wrote (if c \<in> sel K then bs else []) cn))"
proof -
  let ?w = "count (\<lambda>s. s\<lparr>PubRecv := PubRecv s + 1\<rparr>) w" and ?get = "\<lambda>d. GetId d w"
  from assms(2) obtain bsubs r u csubs where
    b: "Trie_Subscribers topic (brokerTopics w) = Some bsubs" "deliver_loop True bsubs [] p ?w = Some (r, u)" and
    cs: "Trie_Subscribers topic (clusterTopics u) = Some csubs" "deliver_loop False csubs [] r u = Some (q, v)"
    by (auto simp: DoPublish_def Let_def split: Option.bind_splits)
  have cs': "Trie_Subscribers topic (clusterTopics w) = Some csubs"
    using cs(1) deliver_tables(1) [OF b(2)] by simp
  have wf: "wf_trie (topics_of K w)" for K using held_byD(1) good_worldD(1,2) [OF assms(1)] by (cases K) (auto simp: topics_of_def)
  let ?subs = "\<lambda>K. case K of BrokerClient \<Rightarrow> bsubs | ClusterClient \<Rightarrow> csubs"
  have r: "receivers (topics_of K w) topic = set (?subs K)" for K
    using Subscribers_receivers [OF wf assms(4), of K] b(1) cs' by (cases K) (auto simp: topics_of_def)
  let ?sel = "\<lambda>K. set (selected ?get [] (?subs K))"
  have ok: "heap_ok ?w" using assms(1) by (simp add: good_world_def)
  have g: "(\<lambda>d. GetId d ?w) = ?get" by (simp add: GetId_eq)
  have only: "d \<in> set bsubs \<Longrightarrow> is_client BrokerClient w d" "d \<in> set csubs \<Longrightarrow> is_client ClusterClient w d" for d
    by (erule held_by_Subscribers [OF good_worldD(1) [OF assms(1)] b(1)],
        erule held_by_Subscribers [OF good_worldD(2) [OF assms(1)] cs'])
  have "attached v c k (wrote (if c \<in> ?sel (kind cl) then bs else []) cn)"
    if c: "heap w c = Some cl" "attached w c k cn" for c cl k cn
  proof -
    have at: "attached ?w c k cn" using c(2) by simp
    from deliver_selected [OF b(2) ok at assms(3), unfolded g] obtain r' where
      u: "attached u c k (wrote (if c \<in> set (selected ?get [] bsubs) then bs else []) cn)" "heap u = heap w"
        "Write r = Some (bs, r')" "heap_ok u" by auto
    have gu: "(\<lambda>d. GetId d u) = ?get" by (simp add: GetId_eq u(2))
    from deliver_selected [OF cs(2) u(4,1,3), unfolded gu] have
      "attached v c k (wrote (if c \<in> set (selected ?get [] csubs) then bs else [])
        (wrote (if c \<in> set (selected ?get [] bsubs) then bs else []) cn))" by simp
    moreover have "c \<notin> set (selected ?get [] csubs)" if "kind cl = BrokerClient"
      using only(2) [of c] that c(1) selected_subset [of ?get "[]" csubs] by (auto simp: is_client_def)
    moreover have "c \<notin> set (selected ?get [] bsubs)" if "kind cl = ClusterClient"
      using only(1) [of c] that c(1) selected_subset [of ?get "[]" bsubs] by (auto simp: is_client_def)
    ultimately show ?thesis by (cases "kind cl") auto
  qed
  note written = this
  show ?thesis
  proof (rule exI [of _ ?sel], intro allI conjI impI)
    show "?sel K \<subseteq> receivers (topics_of K w) topic" for K
      unfolding r by (rule selected_subset)
    show "inj_on ?get (?sel K)" for K by (rule selected_inj)
    show "?get ` ?sel K = ?get ` receivers (topics_of K w) topic" for K
      unfolding r by (simp add: selected_ids)
    show "attached v c k (wrote (if c \<in> ?sel K then bs else []) cn)"
      if "heap w c = Some cl" "kind cl = K" "attached w c k cn" for K c cl k cn
      using written [OF that(1,3)] unfolding that(2) .
  qed
qed

end
