(* ===== verification/Counters.thy ===== *)
theory Counters
  imports System
begin

text \<open>
  What the counters of the server mean: the clients connected are those that ever connected less those that
  left, and the count of retained messages is the number of topics that hold one, as long as no peer
  interferes.
\<close>

section \<open>Retained packets\<close>

definition retained_topics :: "(cref, PublishPacket) Trie \<Rightarrow> string set" where
  "retained_topics t = {f. retained_packet t f \<noteq> None}"

definition retain_counted :: "World \<Rightarrow> bool" where
  "retain_counted w \<longleftrightarrow> finite (retained_topics (brokerTopics w)) \<and>
     RetainCount (server_state w) = word_of_nat (card (retained_topics (brokerTopics w)))"

lemma retained_topics_ret:
  "(\<And>p g. ret_at (leaf_at p g (root t')) = ret_at (leaf_at p g (root t))) \<Longrightarrow>
     retained_topics t' = retained_topics t"
  by (simp add: retained_topics_def retained_packet_def)

lemma Subscribe_retained:
  "wf_trie t \<Longrightarrow> Trie_Subscribe f i c t = Some (t', e) \<Longrightarrow> retained_topics t' = retained_topics t"
  using Subscribe_law [of t f i c] by (intro retained_topics_ret) auto

lemma Unsubscribe_retained:
  "wf_trie t \<Longrightarrow> Trie_Unsubscribe f i t = Some (t', e) \<Longrightarrow> retained_topics t' = retained_topics t"
  using Unsubscribe_law [of t f i] by (intro retained_topics_ret) auto

lemma AddRetain_retained:
  assumes "wf_trie t" "Trie_AddRetain f r t = Some (t', e)"
  shows "retained_topics t' = insert f (retained_topics t)" "e \<longleftrightarrow> f \<in> retained_topics t"
proof -
  have "levels f \<noteq> []" using assms(2) by (auto simp: Trie_AddRetain_def)
  from AddRetain_law [OF assms(1) this, of r] assms(2) show
    "retained_topics t' = insert f (retained_topics t)" "e \<longleftrightarrow> f \<in> retained_topics t"
    by (auto simp: retained_topics_def)
qed

lemma RemoveRetain_retained:
  assumes "wf_trie t" "Trie_RemoveRetain f t = Some (t', e)"
  shows "if e then \<exists>h \<in> retained_topics t. retained_topics t' = retained_topics t - {h}
    else retained_topics t' = retained_topics t"
proof (cases "levels f = []")
  case True
  with assms(2) remove_retain_no_keys show ?thesis
    by (auto simp: Trie_RemoveRetain_def split: option.splits)
next
  case False
  show ?thesis
  proof (cases e)
    case True
    with RemoveRetain_law [OF assms(1) False] assms(2) obtain h l where
      h: "leaf_at (levels f) h (root t) = Some l" "retain l \<noteq> None" and
      at: "\<forall>p g. ret_at (leaf_at p g (root t')) =
        (if g = h \<and> p = levels f then None else ret_at (leaf_at p g (root t)))" by auto
    have p: "levels f = map TrimSpace (levels h)"
    proof (rule ccontr)
      assume "levels f \<noteq> map TrimSpace (levels h)"
      with wf_trie_ret [OF assms(1)] have "ret_at (leaf_at (levels f) h (root t)) = None" by blast
      with h show False by simp
    qed
    have "retained_packet t' g = (if g = h then None else retained_packet t g)" for g
      using p by (auto simp: retained_packet_def at)
    moreover have "h \<in> retained_topics t" using h p by (simp add: retained_topics_def retained_packet_def)
    ultimately show ?thesis using True by (auto simp: retained_topics_def)
  next
    case False
    with RemoveRetain_law [OF assms(1) \<open>levels f \<noteq> []\<close>] assms(2) show ?thesis by auto
  qed
qed

lemma process_retain_counted:
  assumes "process_retain f p w = Some w'" "wf_trie (brokerTopics w)" "retain_counted w"
  shows "retain_counted w'"
proof -
  let ?R = "retained_topics (brokerTopics w)"
  from assms(3) have fin: "finite ?R" and n: "RetainCount (server_state w) = word_of_nat (card ?R)"
    by (auto simp: retain_counted_def)
  consider "\<not> Retain p" | t e where "Trie_AddRetain f p (brokerTopics w) = Some (t, e)" "Retain p" "Payload p \<noteq> []"
    | t e where "Trie_RemoveRetain f (brokerTopics w) = Some (t, e)" "Retain p" "Payload p = []"
    using assms(1) by (auto simp: process_retain_def split: Option.bind_splits if_splits)
  then show ?thesis
  proof cases
    case 1
    with assms show ?thesis by (simp add: process_retain_def)
  next
    case 2
    note r = AddRetain_retained [OF assms(2) 2(1)]
    from assms(1) 2 have w': "w' = (if e then w\<lparr>brokerTopics := t\<rparr>
        else count (\<lambda>s. s\<lparr>RetainCount := RetainCount s + 1\<rparr>) (w\<lparr>brokerTopics := t\<rparr>))"
      by (auto simp: process_retain_def Let_def)
    show ?thesis
    proof (cases e)
      case True
      with r have "retained_topics t = ?R" by (simp add: insert_absorb)
      with True fin n show ?thesis by (simp add: w' retain_counted_def)
    next
      case False
      with r fin have "finite (retained_topics t)" "card (retained_topics t) = Suc (card ?R)" by auto
      with False n show ?thesis by (simp add: w' retain_counted_def count_def)
    qed
  next
    case 3
    note r = RemoveRetain_retained [OF assms(2) 3(1)]
    from assms(1) 3 have w': "w' = (if e then count (\<lambda>s. s\<lparr>RetainCount := RetainCount s - 1\<rparr>) (w\<lparr>brokerTopics := t\<rparr>)
        else w\<lparr>brokerTopics := t\<rparr>)"
      by (auto simp: process_retain_def Let_def)
    show ?thesis
    proof (cases e)
      case True
      with r obtain h where "h \<in> ?R" "retained_topics t = ?R - {h}" by auto
      with fin have "finite (retained_topics t)" "card ?R = Suc (card (retained_topics t))"
        using card.remove [OF fin, of h] by simp_all
      with True n show ?thesis by (simp add: w' retain_counted_def count_def)
    next
      case False
      with r fin n show ?thesis by (simp add: w' retain_counted_def)
    qed
  qed
qed

section \<open>Connected clients\<close>

definition clients_counted :: "World \<Rightarrow> bool" where
  "clients_counted w \<longleftrightarrow>
     ClientsConnected (server_state w) = ClientsTotal (server_state w) - ClientsDisconnected (server_state w)"

text \<open>The labels that touch a counter under an invariant.\<close>

fun counting_label :: "label \<Rightarrow> bool" where
  "counting_label (Retains f) = True"
| "counting_label Join = True"
| "counting_label Leave = True"
| "counting_label Tally = True"
| "counting_label l = False"

lemma act_server_state: "act l w w' \<Longrightarrow> \<not> counting_label l \<Longrightarrow> server_state w' = server_state w"
proof (induction rule: act.induct)
  case (send c p w e p' w')
  from client_Write_shape [OF send(1)] show ?case by (metis World.select_convs(5) World.surjective World.update_convs(8))
next
  case (remove_topic c f w w' e')
  from RemoveTopic_touch [OF remove_topic(1)] show ?case by (auto simp: touches_def set_client_def)
next
  case (add_topic c f d w w' e)
  from client_ops_touch(1) [OF add_topic(1)] show ?case by (auto simp: touches_def set_client_def)
next
  case (rename c i w w')
  from client_ops_touch(2) [OF rename(1)] show ?case by (auto simp: touches_def set_client_def)
next
  case (set_will c p w w')
  from client_ops_touch(3) [OF set_will(1)] show ?case by (auto simp: touches_def set_client_def)
next
  case (shut c w w')
  from client_Close_shape(2) [OF shut(1)] show ?case by (metis World.select_convs(5) World.surjective World.update_convs(6,8))
qed (auto simp: saveQos2Msg_def checkQos2Msg_def split: if_splits)

lemma act_clients_counted: "act l w w' \<Longrightarrow> clients_counted w \<Longrightarrow> clients_counted w'"
proof (cases "counting_label l")
  case True
  assume a: "act l w w'" "clients_counted w"
  from a(1) True a(2) show ?thesis
    by (cases rule: act.cases)
      (auto simp: clients_counted_def count_def tally_def count_join_def count_leave_def process_retain_def Let_def
        split: if_splits Option.bind_splits)
next
  case False
  assume "act l w w'" "clients_counted w"
  with act_server_state False show ?thesis by (simp add: clients_counted_def)
qed

lemma act_retain_counted:
  assumes "act l w w'" "\<And>f. l \<noteq> Unretain f" "good_world w" "retain_counted w"
  shows "retain_counted w'"
proof (cases "counting_label l")
  case True
  have wf: "wf_trie (brokerTopics w)" using held_byD(1) assms(3) by (auto simp: good_world_def typed_def)
  show ?thesis
  proof (cases "\<exists>f. l = Retains f")
    case True
    with assms(1) wf assms(4) process_retain_counted show ?thesis by (auto elim: act.cases)
  next
    case False
    from assms(1) True False have "brokerTopics w' = brokerTopics w"
      "RetainCount (server_state w') = RetainCount (server_state w)"
      by (cases rule: act.cases; simp add: count_def tally_def count_join_def count_leave_def Let_def)+
    with assms(4) show ?thesis by (simp add: retain_counted_def)
  qed
next
  case False
  have wf: "wf_trie (brokerTopics w)" using held_byD(1) assms(3) by (auto simp: good_world_def typed_def)
  note st = act_server_state [OF assms(1) False]
  have "retained_topics (brokerTopics w') = retained_topics (brokerTopics w)"
  proof (cases "table_label l")
    case True
    from assms(1) True assms(2) False wf show ?thesis
      by (cases rule: act.cases) (auto dest: Subscribe_retained Unsubscribe_retained)
  next
    case False
    from act_same_tables [OF assms(1) this] show ?thesis by (simp add: same_tables_def)
  qed
  with st assms(4) show ?thesis by (simp add: retain_counted_def)
qed

section \<open>Lifting to the running server\<close>

lemma acts_lift:
  assumes "acts L w w'" "\<And>l. l \<in> L \<Longrightarrow> allowed l \<and> label_ok w l" "good_world w" "P w"
    and "\<And>l u v. act l u v \<Longrightarrow> allowed l \<Longrightarrow> good_world u \<Longrightarrow> P u \<Longrightarrow> P v"
  shows "P w'"
proof -
  have "good_world w' \<and> P w'"
    using assms(1)
  proof (induction rule: acts_induct)
    case (step l u v)
    then have "label_ok u l" using assms(2) label_ok_evolve acts_evolve by blast
    with step assms(2,5) act_good show ?case by blast
  qed (use assms(3,4) in simp)
  then show ?thesis ..
qed

text \<open>
  A property of the storages, the counters and the QoS 2 table that every allowed action, the clock and
  the timers keep holds after a step. The actions of peers count only where there is a cluster.
\<close>

definition same_store :: "World \<Rightarrow> World \<Rightarrow> bool" where
  "same_store u v \<longleftrightarrow> brokerTopics v = brokerTopics u \<and> clusterTopics v = clusterTopics u \<and>
     server_state v = server_state u \<and> qos2Msgs v = qos2Msgs u \<and> timers v = timers u \<and>
     maxQos2Msgs v = maxQos2Msgs u \<and> clock v = clock u"

lemma step_lift:
  assumes "step C s s'" "good_system s" "P (world s)"
    and act: "\<And>l u v. act l u v \<Longrightarrow> allowed l \<Longrightarrow> good_world u \<Longrightarrow> P u \<Longrightarrow> P v"
    and frame: "\<And>u v. same_store u v \<Longrightarrow> P u \<Longrightarrow> P v"
    and ticks: "\<And>u now. clock u \<le>s now \<Longrightarrow> now <s 2 ^ 62 \<Longrightarrow> P u \<Longrightarrow> P (u\<lparr>clock := now\<rparr>)"
    and fires: "\<And>u t. t \<in> set (timers u) \<Longrightarrow> t \<le>s clock u \<Longrightarrow> P u \<Longrightarrow>
      P (expireQos2Msg (u\<lparr>timers := remove1 t (timers u)\<rparr>))"
    and allowed: "\<And>c l. broker_allowed c l \<Longrightarrow> allowed l"
      "\<And>c l. cfg_IsCluster C \<Longrightarrow> cluster_allowed c l \<Longrightarrow> allowed l"
    and cluster: "cfg_IsCluster C \<or> (\<forall>c. \<not> is_client ClusterClient (world s) c)"
  shows "P (world s')"
proof -
  have good: "good_world (world s)" using assms(2) by (simp add: good_system_def)
  have new: "P w" if "NewClient K k t (open_conn k bs (world s)) = (c, w)" for K k t bs c w
    using that by (intro frame [OF _ assms(3)])
      (auto simp: NewClient_eq open_conn_def set_client_def Let_def same_store_def)
  have rd: "P v" if "reads c (world s) v" for c v
    by (rule frame [OF _ assms(3)]) (subst reads_shape(1) [OF that], simp add: same_store_def)
  have broker: "P w" if "read_then (Collect (broker_allowed c)) c (world s) w" "is_client BrokerClient (world s) c" for c w
  proof -
    from that(1) obtain v where v: "reads c (world s) v" "acts (Collect (broker_allowed c)) v w"
      by (auto simp: read_then_def)
    have "is_client BrokerClient v c" using reads_is_client [OF v(1)] that(2) by simp
    from broker_label_ok [OF this] allowed(1) show ?thesis
      by (intro acts_lift [where P = P and allowed = allowed, OF v(2) _ reads_good [OF v(1) good] rd [OF v(1)] act]) blast+
  qed
  have peer: "P w" if "read_then (Collect (cluster_allowed c)) c (world s) w" "is_client ClusterClient (world s) c" for c w
  proof -
    have on: "cfg_IsCluster C" using cluster that(2) by blast
    from that(1) obtain v where v: "reads c (world s) v" "acts (Collect (cluster_allowed c)) v w"
      by (auto simp: read_then_def)
    have "is_client ClusterClient v c" using reads_is_client [OF v(1)] that(2) by simp
    from cluster_label_ok [OF this] allowed(2) [OF on] show ?thesis
      by (intro acts_lift [where P = P and allowed = allowed, OF v(2) _ reads_good [OF v(1) good] rd [OF v(1)] act]) blast+
  qed
  have quiet: "P w" if "acts quiet (world s) w" for w
    using allowed(1) quiet_allowed(1)
    by (intro acts_lift [where P = P and allowed = allowed, OF that _ good assms(3) act]) auto
  from assms(1) show ?thesis
  proof (cases rule: step.cases)
    case (peer_dial node k bs c w go w')
    from NewClient_good [OF peer_dial(5,4) good] have w: "good_world w" "is_client ClusterClient w c" by auto
    from cluster_label_ok [OF w(2)] allowed(2) [OF peer_dial(2)] have "P w'"
      by (intro acts_lift [where P = P and allowed = allowed, OF HandlerClient_connect_acts [OF peer_dial(6)] _ w(1) new [OF peer_dial(5)] act]) blast+
    then show ?thesis by (simp add: peer_dial(1))
  next
    case (break k)
    show ?thesis unfolding break
      by (rule frame [OF _ assms(3)]) (simp add: conn_Close_def same_store_def split: option.split)
  next
    case (tick now)
    from ticks [OF tick(2,3) assms(3)] show ?thesis by (simp add: tick(1))
  next
    case (fire t)
    from fires [OF fire(2,3) assms(3)] show ?thesis by (simp add: fire(1))
  next
    case (accept k t bs c w)
    from new [OF accept(4)] show ?thesis by (simp add: accept(1))
  next
    case (peer_accept k bs c w)
    from new [OF peer_accept(4)] show ?thesis by (simp add: peer_accept(1))
  next
    case (connect c go w)
    from broker [OF Handler_connect_acts [OF connect(4)] connect(3)] show ?thesis by (simp add: connect(1))
  next
    case (peer_connect c go w)
    from peer [OF HandlerServer_connect_acts [OF peer_connect(4)] peer_connect(3)] show ?thesis
      by (simp add: peer_connect(1))
  next
    case (read c go w)
    from broker [OF broker_read_once_acts [OF read(4)] read(3)] show ?thesis by (simp add: read(1))
  next
    case (peer_read c go w)
    from peer [OF cluster_read_once_acts [OF peer_read(4)] peer_read(3)] show ?thesis by (simp add: peer_read(1))
  next
    case (state w)
    from quiet [OF publishState_acts [OF state(2)]] show ?thesis by (simp add: state(1))
  next
    case (health dial w)
    from quiet [OF CheckHealthy_acts [OF health(3)]] show ?thesis by (simp add: health(1))
  next
    case (select c cl)
    with assms(3) show ?thesis by simp
  qed
qed

text \<open>Without a cluster there are no peers.\<close>

definition no_peers :: "World \<Rightarrow> bool" where
  "no_peers w \<longleftrightarrow> (\<forall>c. \<not> is_client ClusterClient w c)"

lemma no_peers_evolve: "evolve w w' \<Longrightarrow> no_peers w \<Longrightarrow> no_peers w'"
  by (simp add: no_peers_def is_client_evolve)

lemma no_peers_read_then: "read_then L c w w' \<Longrightarrow> no_peers w \<Longrightarrow> no_peers w'"
  unfolding read_then_def using reads_is_client no_peers_evolve [OF acts_evolve] by (metis no_peers_def)

lemma step_no_peers:
  assumes "step C s s'" "\<not> cfg_IsCluster C" "no_peers (world s)"
  shows "no_peers (world s')"
  using assms(1)
proof (cases rule: step.cases)
  case (accept k t bs c w)
  then have "is_client ClusterClient w d \<Longrightarrow> is_client ClusterClient (world s) d" for d
    by (auto simp: NewClient_eq open_conn_def set_client_def Let_def is_client_def split: if_splits)
  with assms(3) show ?thesis by (auto simp: accept(1) no_peers_def)
next
  case (connect c go w)
  from no_peers_read_then [OF Handler_connect_acts [OF connect(4)] assms(3)] show ?thesis by (simp add: connect(1))
next
  case (read c go w)
  from no_peers_read_then [OF broker_read_once_acts [OF read(4)] assms(3)] show ?thesis by (simp add: read(1))
next
  case (state w)
  from no_peers_evolve [OF acts_evolve [OF publishState_acts [OF state(2)]] assms(3)] show ?thesis
    by (simp add: state(1))
next
  case (break k)
  from no_peers_evolve [OF conn_Close_evolve assms(3)] show ?thesis by (simp add: break)
next
  case (fire t)
  with assms(3) show ?thesis by (simp add: no_peers_def is_client_def expireQos2Msg_def)
next
  case (tick now)
  with assms(3) show ?thesis by (simp add: no_peers_def is_client_def)
qed (use assms(2,3) in \<open>auto simp: no_peers_def\<close>)

lemma reachable_no_peers: "reachable C s \<Longrightarrow> \<not> cfg_IsCluster C \<Longrightarrow> no_peers (world s)"
proof (induction rule: reachable.induct)
  case (start now)
  then show ?case by (simp add: started_def NewServer_def no_peers_def is_client_def)
qed (rule step_no_peers)

lemma reachable_peers: "reachable C s \<Longrightarrow> cfg_IsCluster C \<or> (\<forall>c. \<not> is_client ClusterClient (world s) c)"
  using reachable_no_peers by (auto simp: no_peers_def)

lemma reachable_clients_counted: "reachable C s \<Longrightarrow> clients_counted (world s)"
proof (induction rule: reachable.induct)
  case (start now)
  then show ?case by (simp add: started_def NewServer_def clients_counted_def NewState_def)
next
  case (step s s')
  show ?case
  proof (rule step_lift [where P = clients_counted and allowed = "\<lambda>_. True", OF step(2) reachable_good [OF step(1)] step(3)])
    show "clients_counted v" if "act l u v" "clients_counted u" for l u v
      using that by (rule act_clients_counted)
  qed (use reachable_peers [OF step(1)] in \<open>auto simp: clients_counted_def same_store_def expireQos2Msg_def\<close>)
qed

lemma reachable_retain_counted:
  assumes "reachable C s" "\<not> cfg_IsCluster C"
  shows "retain_counted (world s)"
  using assms(1)
proof (induction rule: reachable.induct)
  case (start now)
  have "retained_topics NewTrie = {}"
    by (simp add: retained_topics_def retained_packet_def NewTrie_def tree_simps)
  then show ?case by (simp add: started_def NewServer_def retain_counted_def NewState_def)
next
  case (step s s')
  show ?case
  proof (rule step_lift [where P = retain_counted and allowed = "\<lambda>l. \<forall>f. l \<noteq> Unretain f", OF step(2) reachable_good [OF step(1)] step(3)])
    show "retain_counted v" if "act l u v" "\<forall>f. l \<noteq> Unretain f" "good_world u" "retain_counted u" for l u v
      using act_retain_counted [OF that(1) _ that(3,4)] that(2) by blast
  qed (use reachable_peers [OF step(1)] assms(2) in \<open>auto simp: retain_counted_def same_store_def expireQos2Msg_def\<close>)
qed

end
