(* ===== verification/Qos2_Table.thy ===== *)
theory Qos2_Table
  imports Counters
begin

text \<open>
  The table of QoS 2 messages: an identifier is recorded by the first PUBLISH that carries it, stays until
  the PUBREL or the timer that was set with it, and while it is recorded no other PUBLISH with it is
  forwarded.
\<close>

section \<open>Seconds\<close>

lemma sint_plus_small:
  fixes x :: int64
  assumes "0 \<le> sint x" "sint x < 2 ^ 62"
  shows "sint (x + Qos2Timeout) = sint x + 20"
proof -
  have "sint (Qos2Timeout :: int64) = 20" by (simp add: Qos2Timeout_def)
  with assms show ?thesis
    by (simp add: sint_word_ariths signed_take_bit_int_eq_self)
qed

lemma sint_minus_small:
  fixes x y :: int64
  assumes "0 \<le> sint y" "sint y \<le> sint x" "sint x < 2 ^ 62"
  shows "sint (x - y) = sint x - sint y"
  using assms by (simp add: sint_word_ariths signed_take_bit_int_eq_self)

section \<open>The invariant of the table\<close>

text \<open>
  Every entry was made in the past, and the timer that will remove it is still set. \<open>maxQos2Msgs\<close> is never
  set, so the table is never full.
\<close>

definition table_ok :: "World \<Rightarrow> bool" where
  "table_ok w \<longleftrightarrow> go_map (qos2Msgs w) \<and> maxQos2Msgs w = 0 \<and> 0 \<le> sint (clock w) \<and> sint (clock w) < 2 ^ 62 \<and>
     (\<forall>(i, ts) \<in> set (qos2Msgs w). 0 \<le> sint ts \<and> sint ts \<le> sint (clock w) \<and>
        ts + Qos2Timeout \<in> set (timers w))"

lemma table_ok_entry:
  assumes "table_ok w" "map_of (qos2Msgs w) i = Some ts"
  shows "0 \<le> sint ts" "sint ts \<le> sint (clock w)" "ts + Qos2Timeout \<in> set (timers w)"
    "sint (ts + Qos2Timeout) = sint ts + 20" "sint (clock w - ts) = sint (clock w) - sint ts"
proof -
  from assms show e: "0 \<le> sint ts" "sint ts \<le> sint (clock w)" "ts + Qos2Timeout \<in> set (timers w)"
    by (auto simp: table_ok_def dest!: map_of_SomeD)
  from assms(1) have "sint (clock w) < 2 ^ 62" by (simp add: table_ok_def)
  with e show "sint (ts + Qos2Timeout) = sint ts + 20" "sint (clock w - ts) = sint (clock w) - sint ts"
    by (auto intro: sint_plus_small sint_minus_small)
qed

lemma not_full: "maxQos2Msgs w = 0 \<Longrightarrow> \<not> isQos2MsgFull w"
  by (simp add: isQos2MsgFull_def)

lemma save_new:
  "maxQos2Msgs w = 0 \<Longrightarrow> map_of (qos2Msgs w) i = None \<Longrightarrow>
     saveQos2Msg i w = (w\<lparr>qos2Msgs := go_store i (clock w) (qos2Msgs w), timers := timers w @ [clock w + Qos2Timeout]\<rparr>, None)"
  by (simp add: saveQos2Msg_def not_full)

lemma save_again: "map_of (qos2Msgs w) i \<noteq> None \<Longrightarrow> \<exists>e. saveQos2Msg i w = (w, Some e)"
  by (auto simp: saveQos2Msg_def)

lemma saveQos2Msg_ok: "saveQos2Msg i w = (w', e) \<Longrightarrow> table_ok w \<Longrightarrow> table_ok w'"
  by (auto simp: saveQos2Msg_def table_ok_def set_go_store split: if_splits)

lemma checkQos2Msg_ok: "checkQos2Msg i w = (w', e) \<Longrightarrow> table_ok w \<Longrightarrow> table_ok w'"
  by (auto simp: checkQos2Msg_def table_ok_def set_go_delete split: if_splits)

text \<open>The table, its timers and the clock, which most actions leave alone.\<close>

definition same_table :: "World \<Rightarrow> World \<Rightarrow> bool" where
  "same_table u v \<longleftrightarrow> qos2Msgs v = qos2Msgs u \<and> timers v = timers u \<and> clock v = clock u \<and>
     maxQos2Msgs v = maxQos2Msgs u"

fun table_action :: "label \<Rightarrow> bool" where
  "table_action (SaveId i) = True"
| "table_action (FreeId i) = True"
| "table_action l = False"

lemma same_table_simps [simp]:
  "same_table w w" "same_table w (w\<lparr>conns := a\<rparr>)" "same_table w (w\<lparr>heap := h\<rparr>)"
  "same_table w (w\<lparr>heap := h, conns := a\<rparr>)" "same_table w (w\<lparr>server_state := s\<rparr>)"
  "same_table w (w\<lparr>brokerTopics := t, server_state := s\<rparr>)"
  by (simp_all add: same_table_def)

lemma act_same_table: "act l w w' \<Longrightarrow> \<not> table_action l \<Longrightarrow> same_table w w'"
proof (induction rule: act.induct)
  case (send c p w e p' w')
  from client_Write_shape [OF send(1)] show ?case by (metis same_table_simps(2))
next
  case (remove_topic c f w w' e')
  from RemoveTopic_touch [OF remove_topic(1)] touches_shape show ?case by (metis same_table_simps(1,3))
next
  case (add_topic c f d w w' e)
  from touches_shape [OF client_ops_touch(1) [OF add_topic(1)]] show ?case by (metis same_table_simps(3))
next
  case (rename c i w w')
  from touches_shape [OF client_ops_touch(2) [OF rename(1)]] show ?case by (metis same_table_simps(3))
next
  case (set_will c p w w')
  from touches_shape [OF client_ops_touch(3) [OF set_will(1)]] show ?case by (metis same_table_simps(3))
next
  case (shut c w w')
  from client_Close_shape(2) [OF shut(1)] show ?case by (metis same_table_simps(4))
next
  case (retains f p w w')
  from process_retain_shape [OF retains(1)] show ?case by (metis same_table_simps(6))
next
  case (join w)
  show ?case by (subst count_join_shape) simp
qed (simp_all add: count_def count_leave_def same_table_def)

lemma act_table_ok: "act l w w' \<Longrightarrow> table_ok w \<Longrightarrow> table_ok w'"
proof (cases "table_action l")
  case True
  assume a: "act l w w'" "table_ok w"
  from a(1) True a(2) show ?thesis
    by (cases rule: act.cases) (auto intro: saveQos2Msg_ok checkQos2Msg_ok)
next
  case False
  assume "act l w w'" "table_ok w"
  with act_same_table [OF _ False] show ?thesis by (simp add: same_table_def table_ok_def)
qed

text \<open>A timer removes what is due; what it leaves still has its timer.\<close>

lemma set_expire:
  "(i, ts) \<in> set (qos2Msgs (expireQos2Msg w)) \<longleftrightarrow> (i, ts) \<in> set (qos2Msgs w) \<and> \<not> Qos2Timeout \<le>s clock w - ts"
  by (auto simp: expireQos2Msg_def)

lemma go_map_filter: "go_map m \<Longrightarrow> go_map (filter P m)"
  by (simp add: go_map_def distinct_map_filter)

lemma fire_table_ok:
  assumes "table_ok w" "t \<in> set (timers w)" "t \<le>s clock w"
  shows "table_ok (expireQos2Msg (w\<lparr>timers := remove1 t (timers w)\<rparr>))"
proof -
  let ?w = "w\<lparr>timers := remove1 t (timers w)\<rparr>"
  have "ts + Qos2Timeout \<in> set (remove1 t (timers w))"
    if m: "(i, ts) \<in> set (qos2Msgs w)" "\<not> Qos2Timeout \<le>s clock w - ts" for i ts
  proof -
    from m(1) assms(1) have "map_of (qos2Msgs w) i = Some ts" by (simp add: table_ok_def go_map_in_set)
    note e = table_ok_entry [OF assms(1) this]
    have "sint (Qos2Timeout :: int64) = 20" by (simp add: Qos2Timeout_def)
    with m(2) e(4,5) have "sint (clock w) < sint (ts + Qos2Timeout)" by (simp add: word_sle_eq)
    with assms(3) have "ts + Qos2Timeout \<noteq> t" by (auto simp: word_sle_eq)
    with e(3) show ?thesis by simp
  qed
  with assms(1) show ?thesis
    by (auto simp: table_ok_def expireQos2Msg_def go_map_filter)
qed

lemma tick_table_ok: "table_ok w \<Longrightarrow> clock w \<le>s now \<Longrightarrow> now <s 2 ^ 62 \<Longrightarrow> table_ok (w\<lparr>clock := now\<rparr>)"
  by (fastforce simp: table_ok_def word_sle_eq word_sless_alt)

lemma reachable_table_ok: "reachable C s \<Longrightarrow> table_ok (world s)"
proof (induction rule: reachable.induct)
  case (start now)
  then show ?case by (simp add: started_def NewServer_def table_ok_def word_sle_eq word_sless_alt)
next
  case (step s s')
  show ?case
  proof (rule step_lift [where P = table_ok and allowed = "\<lambda>_. True", OF step(2) reachable_good [OF step(1)] step(3)])
    show "table_ok v" if "act l u v" "table_ok u" for l u v
      using that by (rule act_table_ok)
    show "table_ok (u\<lparr>clock := now\<rparr>)" if "clock u \<le>s now" "now <s 2 ^ 62" "table_ok u" for u now
      using tick_table_ok that by blast
    show "table_ok (expireQos2Msg (u\<lparr>timers := remove1 t (timers u)\<rparr>))"
      if "t \<in> set (timers u)" "t \<le>s clock u" "table_ok u" for u t
      using fire_table_ok that by blast
  qed (use reachable_peers [OF step(1)] in \<open>auto simp: table_ok_def same_store_def\<close>)
qed

section \<open>How long an identifier is recorded\<close>

text \<open>Only the PUBREL with its own identifier takes an entry away.\<close>

lemma act_entry_stays:
  assumes "act l w w'" "l \<noteq> FreeId i" "map_of (qos2Msgs w) i = Some ts"
  shows "map_of (qos2Msgs w') i = Some ts"
proof (cases "table_action l")
  case True
  from assms(1) True assms(2,3) show ?thesis
    by (cases rule: act.cases)
      (auto simp: saveQos2Msg_def checkQos2Msg_def go_map_simps split: if_splits)
next
  case False
  with act_same_table [OF assms(1)] assms(3) show ?thesis by (simp add: same_table_def)
qed

lemma acts_entry_stays:
  "acts L w w' \<Longrightarrow> FreeId i \<notin> L \<Longrightarrow> map_of (qos2Msgs w) i = Some ts \<Longrightarrow> map_of (qos2Msgs w') i = Some ts"
  by (erule acts_induct) (auto intro: act_entry_stays)

lemma message_entry_stays:
  assumes "ProcessMessage c p w = Some w'" "\<And>r. p = PubrelP r \<Longrightarrow> pubrel_MessageID r \<noteq> i"
    "map_of (qos2Msgs w) i = Some ts"
  shows "map_of (qos2Msgs w') i = Some ts"
  using assms(2) by (intro acts_entry_stays [OF ProcessMessage_acts [OF assms(1)] _ assms(3)])
    (cases p, auto simp: connect_labels_def)

text \<open>A sequence of messages from any clients, in the order the processor takes them.\<close>

fun run_messages :: "(cref \<times> ControlPacket) list \<Rightarrow> World \<Rightarrow> World option" where
  "run_messages [] w = Some w"
| "run_messages ((c, p) # ms) w = do { w \<leftarrow> ProcessMessage c p w; run_messages ms w }"

lemma run_entry_stays:
  "run_messages ms w = Some w' \<Longrightarrow> \<forall>(c, p) \<in> set ms. \<forall>r. p = PubrelP r \<longrightarrow> pubrel_MessageID r \<noteq> i \<Longrightarrow>
     map_of (qos2Msgs w) i = Some ts \<Longrightarrow> map_of (qos2Msgs w') i = Some ts"
proof (induction ms arbitrary: w)
  case (Cons m ms)
  obtain c p where "m = (c, p)" by (cases m)
  with Cons show ?case
    using message_entry_stays [of c p w _ i ts] by (fastforce split: Option.bind_splits)
qed simp

end
