(* ===== verification/Broker_Effects.thy ===== *)
theory Broker_Effects
  imports Delivery Qos2_Table
begin

text \<open>
  What the broker's handlers do to the storage and to the connection of the client they serve.
\<close>

section \<open>What writing leaves alone\<close>

definition only_wrote :: "World \<Rightarrow> World \<Rightarrow> bool" where
  "only_wrote w v \<longleftrightarrow> same_tables w v \<and> same_table w v \<and> heap v = heap w"

lemma only_wrote_refl [simp]: "only_wrote w w"
  by (simp add: only_wrote_def)

lemma only_wrote_trans: "only_wrote u v \<Longrightarrow> only_wrote v w \<Longrightarrow> only_wrote u w"
  by (simp add: only_wrote_def same_tables_def same_table_def)

lemma only_wroteD:
  "only_wrote w v \<Longrightarrow> brokerTopics v = brokerTopics w" "only_wrote w v \<Longrightarrow> clusterTopics v = clusterTopics w"
  "only_wrote w v \<Longrightarrow> clients v = clients w" "only_wrote w v \<Longrightarrow> clusters v = clusters w"
  "only_wrote w v \<Longrightarrow> heap v = heap w" "only_wrote w v \<Longrightarrow> GetId c v = GetId c w"
  by (simp_all add: only_wrote_def same_tables_def GetId_eq)

lemma quiet_only_wrote: "acts quiet w v \<Longrightarrow> only_wrote w v"
proof (erule acts_induct)
  fix l u v
  assume l: "l \<in> quiet" and a: "act l u v" and w: "only_wrote w u"
  from l have "same_tables u v" "same_table u v"
    by (auto intro: act_same_tables [OF a] act_same_table [OF a])
  moreover have "heap v = heap u"
    using a l by (cases rule: act.cases)
      (auto simp: count_def dest!: client_Write_shape, metis World.select_convs(6) World.surjective World.update_convs(8))
  ultimately have "only_wrote u v" by (simp add: only_wrote_def)
  with w show "only_wrote w v" by (rule only_wrote_trans)
qed simp

lemma write_only_wrote: "client_WritePacket c p w = Some (e, q, v) \<Longrightarrow> only_wrote w v"
  by (rule quiet_only_wrote [OF act_acts [OF send]]) simp_all

lemma count_only_wrote: "tally f \<Longrightarrow> only_wrote w (count f w)"
  by (rule quiet_only_wrote [OF acts_count]) simp_all

lemma WritePacket_only_wrote: "WritePacket c p w = Some (e, q, v) \<Longrightarrow> only_wrote w v"
  using runsD [OF runs_WritePacket [OF subset_refl]] quiet_only_wrote by fastforce

lemma attached_same: "heap v = heap w \<Longrightarrow> conns v = conns w \<Longrightarrow> attached v c k cn = attached w c k cn"
  by (simp add: attached_def)

lemma attached_update [simp]:
  "attached (w\<lparr>brokerTopics := t\<rparr>) c k cn = attached w c k cn"
  "attached (w\<lparr>clusterTopics := t\<rparr>) c k cn = attached w c k cn"
  "attached (w\<lparr>clients := m\<rparr>) c k cn = attached w c k cn"
  "attached (w\<lparr>qos2Msgs := q, timers := ts\<rparr>) c k cn = attached w c k cn"
  by (simp_all add: attached_def)

lemma WritePacket_own:
  assumes "WritePacket c p w = Some (e, q, v)" "attached w c k cn" "Write p = Some (bs, p')"
  shows "e = None" "attached v c k (wrote bs cn)"
proof -
  from assms(1) obtain e' q' u where u: "client_WritePacket c p w = Some (e', q', u)"
    by (auto simp: WritePacket_def split: Option.bind_splits)
  note own = write_own [OF u assms(2,3)]
  from assms(1) u own(1) obtain f where "e = None" "v = count f u" by (auto simp: WritePacket_def)
  with own(3) show "e = None" "attached v c k (wrote bs cn)" by simp_all
qed

section \<open>Subscribing\<close>

definition publish_bytes :: "PublishPacket \<Rightarrow> byte list" where
  "publish_bytes p = fst (the (Write (PublishP p)))"

lemma Write_publish: "\<exists>q. Write (PublishP p) = Some (publish_bytes p, q)"
proof -
  have "Write (PublishP p) \<noteq> None" by (rule Write_total') simp
  then show ?thesis unfolding publish_bytes_def by (metis not_None_eq option.sel prod.collapse)
qed

lemma send_retains_effect:
  "send_retains c ps w = Some v \<Longrightarrow> only_wrote w v \<and>
     (attached w c k cn \<longrightarrow> attached v c k (wrote (concat (map publish_bytes ps)) cn))"
proof (induction ps arbitrary: w cn)
  case (Cons p ps)
  then obtain e q u where u: "WritePacket c (PublishP p) w = Some (e, q, u)" "send_retains c ps u = Some v"
    by (auto split: Option.bind_splits)
  obtain p' where p': "Write (PublishP p) = Some (publish_bytes p, p')" using Write_publish by blast
  from Cons.IH [OF u(2), of "wrote (publish_bytes p) cn"] WritePacket_own(2) [OF u(1) _ p', of k cn]
    only_wrote_trans [OF WritePacket_only_wrote [OF u(1)]] show ?case by auto
qed simp

definition topic_names :: "World \<Rightarrow> cref \<Rightarrow> string set" where
  "topic_names w c = (case heap w c of None \<Rightarrow> {} | Some cl \<Rightarrow> fst ` set (client_topics cl))"

lemma fst_go_store: "fst ` set (go_store k v m) = insert k (fst ` set m)"
  by (induction m) auto

lemma AddTopic_effect:
  assumes "AddTopic c f d w = Some (v, x)"
  shows "v = w\<lparr>heap := heap v\<rparr>" "GetId e v = GetId e w" "attached v c k cn = attached w c k cn"
    "topic_names v c = insert f (topic_names w c)"
proof -
  from assms obtain cl where "heap w c = Some cl"
    "v = w\<lparr>heap := (heap w)(c \<mapsto> cl\<lparr>client_topics := go_store f d (client_topics cl)\<rparr>)\<rparr>"
    by (auto simp: AddTopic_eq Let_def set_client_def split: Option.bind_splits)
  then show "v = w\<lparr>heap := heap v\<rparr>" "GetId e v = GetId e w" "attached v c k cn = attached w c k cn"
    "topic_names v c = insert f (topic_names w c)"
    by (simp_all add: GetId_eq attached_def topic_names_def fst_go_store)
qed

lemma subscribe_step:
  assumes "subscribe_to c (f # fs) w = Some v" "wf_trie (brokerTopics w)" "GetId c w = Some i"
  obtains u rs where "subscribe_to c fs u = Some v" "wf_trie (brokerTopics u)" "GetId c u = Some i"
    "\<forall>g j. subscription (brokerTopics u) g j = (if g = f \<and> j = i then Some c else subscription (brokerTopics w) g j)"
    "\<forall>g. retained_packet (brokerTopics u) g = retained_packet (brokerTopics w) g"
    "set rs = retained_by (brokerTopics w) f" "topic_names u c = insert f (topic_names w c)"
    "\<And>k cn. attached w c k cn \<Longrightarrow> attached u c k (wrote (concat (map publish_bytes rs)) cn)"
proof -
  from assms(1,3) obtain x y t e rs u where
    x: "AddTopic c f i w = Some (x, y)" and t: "Trie_Subscribe f i c (brokerTopics x) = Some (t, e)" and
    rs: "Trie_SearchRetain f t = Some rs" and
    u: "send_retains c rs (if \<not> e then count (\<lambda>s. s\<lparr>SubCount := SubCount s + 1\<rparr>) (x\<lparr>brokerTopics := t\<rparr>)
      else x\<lparr>brokerTopics := t\<rparr>) = Some u" "subscribe_to c fs u = Some v"
    by (auto simp: Let_def split: Option.bind_splits) (auto simp: count_def split: if_splits)
  note ax = AddTopic_effect [OF x]
  have bt: "brokerTopics x = brokerTopics w"
    using ax(1) by (metis World.select_convs(1) World.surjective World.update_convs(6))
  from Subscribe_law [OF assms(2), of f i c] t have
    wf: "wf_trie t" and sub: "\<forall>g j. subscription t g j = (if g = f \<and> j = i then Some c else subscription (brokerTopics w) g j)"
    and ret: "\<forall>g. retained_packet t g = retained_packet (brokerTopics w) g"
    by (auto simp: bt retained_packet_def)
  have "set rs = retained_by (brokerTopics w) f"
    using SearchRetain_retained [OF wf rs] ret by (simp add: retained_by_def)
  moreover note s = send_retains_effect [OF u(1)]
  have "brokerTopics u = t" "heap u = heap x"
    using only_wroteD(1,5) [OF s [THEN conjunct1]] by (auto simp: count_def split: if_splits)
  moreover from this(2) have "GetId c u = Some i" "topic_names u c = insert f (topic_names w c)"
    using ax(2,4) assms(3) by (simp_all add: GetId_eq topic_names_def)
  moreover have "attached w c k cn \<Longrightarrow> attached u c k (wrote (concat (map publish_bytes rs)) cn)" for k cn
    using s ax(3) by (simp split: if_splits)
  ultimately show ?thesis using that u(2) wf sub ret by metis
qed

lemma subscribe_to_effect:
  assumes "subscribe_to c fs w = Some v" "wf_trie (brokerTopics w)" "GetId c w = Some i"
  shows "(\<forall>g j. subscription (brokerTopics v) g j =
      (if g \<in> set fs \<and> j = i then Some c else subscription (brokerTopics w) g j)) \<and>
    topic_names v c = set fs \<union> topic_names w c \<and>
    (\<exists>rss. list_all2 (\<lambda>f rs. set rs = retained_by (brokerTopics w) f) fs rss \<and>
      (\<forall>k cn. attached w c k cn \<longrightarrow> attached v c k (wrote (concat (map publish_bytes (concat rss))) cn)))"
  using assms
proof (induction fs arbitrary: w)
  case (Cons f fs)
  from subscribe_step [OF Cons.prems] obtain u rs where u: "subscribe_to c fs u = Some v"
    "wf_trie (brokerTopics u)" "GetId c u = Some i" and
    s: "\<forall>g j. subscription (brokerTopics u) g j = (if g = f \<and> j = i then Some c else subscription (brokerTopics w) g j)"
    "\<forall>g. retained_packet (brokerTopics u) g = retained_packet (brokerTopics w) g"
    "set rs = retained_by (brokerTopics w) f" "topic_names u c = insert f (topic_names w c)"
    "\<And>k cn. attached w c k cn \<Longrightarrow> attached u c k (wrote (concat (map publish_bytes rs)) cn)"
    by metis
  note ih = Cons.IH [OF u]
  from ih obtain rss where rss: "list_all2 (\<lambda>f rs. set rs = retained_by (brokerTopics u) f) fs rss"
    "\<forall>k cn. attached u c k cn \<longrightarrow> attached v c k (wrote (concat (map publish_bytes (concat rss))) cn)" by blast
  have "retained_by (brokerTopics u) = retained_by (brokerTopics w)"
    using s(2) by (simp add: retained_by_def fun_eq_iff)
  with rss s(3) have "list_all2 (\<lambda>f rs. set rs = retained_by (brokerTopics w) f) (f # fs) (rs # rss)" by simp
  moreover have "attached w c k cn \<Longrightarrow>
      attached v c k (wrote (concat (map publish_bytes (concat (rs # rss)))) cn)" for k cn
    using rss(2) s(5) by fastforce
  moreover from ih s(1) have "\<forall>g j. subscription (brokerTopics v) g j =
      (if g \<in> set (f # fs) \<and> j = i then Some c else subscription (brokerTopics w) g j)" by simp
  moreover from ih s(4) have "topic_names v c = set (f # fs) \<union> topic_names w c" by simp
  ultimately show ?case by (intro conjI exI [of _ "rs # rss"]) simp_all
qed (auto intro: exI [of _ "[]"])

lemma encodeLength_two [simp]: "encodeLength 2 = [2]"
  by code_simp

lemma ack_bytes:
  "\<exists>q. Write (puback_for i) = Some ([0x40, 2] @ BigEndian_PutUint16 i, q) \<and> Size q = 4"
  "\<exists>q. Write (pubrec_for i) = Some ([0x50, 2] @ BigEndian_PutUint16 i, q) \<and> Size q = 4"
  "\<exists>q. Write (pubcomp_for i) = Some ([0x70, 2] @ BigEndian_PutUint16 i, q) \<and> Size q = 4"
  "\<exists>q. Write (suback_for i) = Some ([0x90, 2] @ BigEndian_PutUint16 i, q) \<and> Size q = 4"
  "\<exists>q. Write (unsuback_for i) = Some ([0xB0, 2] @ BigEndian_PutUint16 i, q) \<and> Size q = 4"
  "\<exists>q. Write (connack_for cp) = Some ([0x20, 2, if CleanSession cp then 1 else 0, Validate cp], q) \<and> Size q = 4"
  by (simp_all add: puback_for_def pubrec_for_def pubcomp_for_def suback_for_def unsuback_for_def connack_for_def Write_eqs
    FixedHeader_pack_def new_packet_defs zero_header_def encodeUint16_def
    packet_type boolToByte_def FixedHeader_Size_def Let_def)


section \<open>Writing to other clients\<close>

lemma to_clusters_other:
  "to_clusters cs p w = Some v \<Longrightarrow> heap_ok w \<Longrightarrow> attached w c k cn \<Longrightarrow> c \<notin> snd ` set cs \<Longrightarrow>
     attached v c k cn \<and> only_wrote w v"
proof (induction cs arbitrary: p w)
  case (Cons ic cs)
  obtain i d where ic: "ic = (i, d)" by (cases ic)
  with Cons.prems(1) obtain e q u where u: "client_WritePacket d p w = Some (e, q, u)" "to_clusters cs q u = Some v"
    by (auto split: Option.bind_splits)
  have "d \<noteq> c" using Cons.prems(4) ic by auto
  note at = write_other(1) [OF u(1) Cons.prems(2,3) this]
  have "heap_ok u" using heap_ok_evolve Cons.prems(2) client_Write_shape [OF u(1)] by blast
  from Cons.IH [OF u(2) this at] Cons.prems(4) only_wrote_trans [OF write_only_wrote [OF u(1)]] show ?case by auto
qed simp

lemma peers_not_broker:
  "good_world w \<Longrightarrow> is_client BrokerClient w c \<Longrightarrow> c \<notin> snd ` set (clusters w)"
  by (auto simp: good_world_def typed_def is_client_def)

lemma good_wf: "good_world w \<Longrightarrow> wf_trie (brokerTopics w)" "good_world w \<Longrightarrow> wf_trie (clusterTopics w)"
  using held_byD(1) good_worldD(1,2) by blast+

lemma ProcessSubscribe_effect:
  assumes "ProcessSubscribe c p w = Some v" "good_world w" "heap w c = Some cl" "kind cl = BrokerClient"
  shows "(\<forall>g j. subscription (brokerTopics v) g j =
      (if g \<in> set (sub_Topics p) \<and> j = client_id cl then Some c else subscription (brokerTopics w) g j)) \<and>
    topic_names v c = set (sub_Topics p) \<union> topic_names w c \<and>
    (\<exists>rss. list_all2 (\<lambda>f rs. set rs = retained_by (brokerTopics w) f) (sub_Topics p) rss \<and>
      (\<forall>k cn. attached w c k cn \<longrightarrow> attached v c k (wrote ([0x90, 2] @ BigEndian_PutUint16 (sub_MessageID p) @
         concat (map publish_bytes (concat rss))) cn)))"
proof -
  from assms(1) obtain e q u x where u: "WritePacket c (suback_for (sub_MessageID p)) w = Some (e, q, u)"
    "subscribe_to c (sub_Topics p) u = Some x" "to_clusters (clusters x) (SubscribeP p) x = Some v"
    by (auto simp: ProcessSubscribe_def split: Option.bind_splits)
  note ow = WritePacket_only_wrote [OF u(1)]
  have bc: "is_client BrokerClient w c" using assms(3,4) by (simp add: is_client_def)
  have gu: "good_world u"
    using quiet_good [OF runsD [OF runs_WritePacket [OF subset_refl] u(1)]] assms(2) by simp
  have bu: "is_client BrokerClient u c" using bc only_wroteD(5) [OF ow] by (simp add: is_client_def)
  have a: "acts (quiet \<union> subs_labels c) u x" by (rule runsD [OF runs_subscribe_to u(2)]) simp
  have gx: "good_world x" using bu by (intro acts_good [OF a _ gu]) auto
  have bx: "is_client BrokerClient x c" using bu is_client_evolve [OF acts_evolve [OF a]] by simp
  have id: "GetId c u = Some (client_id cl)" using only_wroteD(6) [OF ow] assms(3) by (simp add: GetId_eq)
  from subscribe_to_effect [OF u(2) good_wf(1) [OF gu] id] obtain rss where
    s: "\<forall>g j. subscription (brokerTopics x) g j =
      (if g \<in> set (sub_Topics p) \<and> j = client_id cl then Some c else subscription (brokerTopics u) g j)"
    "topic_names x c = set (sub_Topics p) \<union> topic_names u c"
    "list_all2 (\<lambda>f rs. set rs = retained_by (brokerTopics u) f) (sub_Topics p) rss"
    "\<And>k cn. attached u c k cn \<Longrightarrow> attached x c k (wrote (concat (map publish_bytes (concat rss))) cn)" by blast
  have hx: "heap_ok x" using gx by (simp add: good_world_def)
  have a': "acts quiet x v" by (rule runsD [OF runs_to_clusters u(3)]) simp
  note ow' = quiet_only_wrote [OF a']
  have at: "attached v c k (wrote ([0x90, 2] @ BigEndian_PutUint16 (sub_MessageID p) @
      concat (map publish_bytes (concat rss))) cn)" if "attached w c k cn" for k cn
  proof -
    obtain q' where "Write (suback_for (sub_MessageID p)) = Some ([0x90, 2] @ BigEndian_PutUint16 (sub_MessageID p), q')"
      using ack_bytes(4) by blast
    from s(4) [OF WritePacket_own(2) [OF u(1) that this]]
      to_clusters_other [OF u(3) hx _ peers_not_broker [OF gx bx]] show ?thesis by simp
  qed
  show ?thesis
    using s at only_wroteD(1,5) [OF ow] only_wroteD(1,5) [OF ow'] by (auto simp: topic_names_def)
qed

end
