(* ===== verification/Read_Loop.thy ===== *)
theory Read_Loop
  imports System
begin

text \<open>
  The read loops end. What they need of a processor is an interface: it leaves the bytes still to be
  read alone and does not reopen a client, and it closes the client it is told to disconnect. Then
  every round consumes part of the input, and the loop returns with its client closed.
\<close>

lemma run_loop_returns:
  assumes "\<And>s s'. body s = Some (True, s') \<Longrightarrow> m s' < (m s :: nat)"
  shows "\<exists>r. run_loop body s = Some r"
proof (induction "m s" arbitrary: s rule: less_induct)
  case less
  show ?case
  proof (cases "body s")
    case (Some gs)
    obtain go s' where "gs = (go, s')" by (cases gs)
    with Some less assms [of s s'] show ?thesis
      by (cases go) (simp_all add: run_loop.simps [of body s])
  qed (simp add: run_loop.simps [of body s])
qed

lemma run_loop_ends:
  assumes "\<And>s s'. body s = Some (False, s') \<Longrightarrow> Q s'"
    "\<And>s s'. body s = Some (True, s') \<Longrightarrow> m s' < (m s :: nat)"
  shows "run_loop body s = Some (Some s') \<Longrightarrow> Q s'"
proof (induction "m s" arbitrary: s rule: less_induct)
  case less
  from less.prems obtain go t where "body s = Some (go, t)"
    by (auto simp: run_loop.simps [of body s] split: option.splits)
  with less assms [of s t] show ?case
    by (cases go) (auto simp: run_loop.simps [of body s])
qed

section \<open>What is left to read\<close>

definition pending :: "cref \<Rightarrow> World \<Rightarrow> nat" where
  "pending c w =
     (case heap w c of
        None \<Rightarrow> 0
      | Some cl \<Rightarrow>
          (case conn cl of
             None \<Rightarrow> 0
           | Some k \<Rightarrow> (case conns w k of None \<Rightarrow> 0 | Some cn \<Rightarrow> length (incoming cn))))"

definition closed :: "World \<Rightarrow> cref \<Rightarrow> bool" where
  "closed w c \<longleftrightarrow> (\<exists>cl. heap w c = Some cl \<and> client_done cl)"

lemma pending_evolve: "evolve w w' \<Longrightarrow> pending c w' \<le> pending c w"
proof -
  assume e: "evolve w w'"
  show ?thesis
  proof (cases "heap w c")
    case None
    with evolve_None(1) [OF e, of c] have "heap w' c = None" by simp
    then show ?thesis by (simp add: pending_def)
  next
    case (Some a)
    from evolve_heap [OF e Some] obtain b where b: "heap w' c = Some b" "client_kept a b" by blast
    show ?thesis
    proof (cases "conn b")
      case (Some k)
      with b have k: "conn a = Some k" by (auto simp: client_kept_def)
      show ?thesis
      proof (cases "conns w k")
        case None
        with evolve_None(2) [OF e, of k] have "conns w' k = None" by simp
        with b \<open>conn b = Some k\<close> show ?thesis by (simp add: pending_def)
      next
        case (Some cn)
        from evolve_conns [OF e Some] b k \<open>heap w c = Some a\<close> \<open>conn b = Some k\<close> Some show ?thesis
          by (auto simp: pending_def conn_kept_def)
      qed
    qed (simp add: pending_def b)
  qed
qed

lemma ReadPacket_consumes: "ReadPacket r = (Some p, e, r') \<Longrightarrow> length r' < length r"
  by (drule ReadPacket_inv) auto

lemma reads_pending:
  assumes "client_ReadPacket c w = Some (p, None, v)"
  shows "pending c v < pending c w"
proof -
  from assms obtain cl k cn r' where "heap w c = Some cl" "conn cl = Some k" "conns w k = Some cn"
    "ReadPacket (incoming cn) = (p, None, r')" "v = w\<lparr>conns := (conns w)(k \<mapsto> cn\<lparr>incoming := r'\<rparr>)\<rparr>"
    by (auto simp: client_ReadPacket_eq split: Option.bind_splits option.splits if_splits prod.splits)
  moreover from this(4) obtain q where "p = Some q" using ReadPacket_None by (cases p) blast+
  ultimately show ?thesis using ReadPacket_consumes by (simp add: pending_def)
qed

section \<open>The interface of a processor\<close>

locale message_processor =
  fixes process :: processor
  assumes process_evolve: "process c p w = Some w' \<Longrightarrow> evolve w w'"
    and process_disconnect: "process c disconnect_packet w = Some w' \<Longrightarrow> closed w' c"
begin

lemma broker_continue: "broker_read_once process c w = Some (True, w') \<Longrightarrow> pending c w' < pending c w"
proof -
  assume r: "broker_read_once process c w = Some (True, w')"
  then obtain p err v where v: "client_ReadPacket c w = Some (p, err, v)"
    by (auto simp: broker_read_once_def split: Option.bind_splits)
  with r obtain q where "err = None" "process c q v = Some w'"
    by (auto simp: broker_read_once_def split: Option.bind_splits if_splits)
  with reads_pending [of c w p v] v pending_evolve [OF process_evolve] show ?thesis
    by (metis order_le_less_trans)
qed

lemma cluster_continue: "cluster_read_once process c w = Some (True, w') \<Longrightarrow> pending c w' < pending c w"
proof -
  assume r: "cluster_read_once process c w = Some (True, w')"
  then obtain p err v where v: "client_ReadPacket c w = Some (p, err, v)"
    by (auto simp: cluster_read_once_def split: Option.bind_splits)
  with r obtain q where "err = None" "process c q v = Some w'"
    by (auto simp: cluster_read_once_def split: Option.bind_splits if_splits)
  with reads_pending [of c w p v] v pending_evolve [OF process_evolve] show ?thesis
    by (metis order_le_less_trans)
qed

lemma broker_stop: "broker_read_once process c w = Some (False, w') \<Longrightarrow> closed w' c"
  by (auto simp: broker_read_once_def split: Option.bind_splits if_splits dest: process_disconnect)

lemma cluster_stop: "cluster_read_once process c w = Some (False, w') \<Longrightarrow> closed w' c"
  by (auto simp: cluster_read_once_def split: Option.bind_splits if_splits dest: process_disconnect)

lemma broker_loop:
  "\<exists>r. broker_ReadLoop process c w = Some r"
  "broker_ReadLoop process c w = Some (Some w') \<Longrightarrow> closed w' c"
proof -
  have t: "broker_ReadLoop_body process c u = Some (True, v) \<Longrightarrow> pending c v < pending c u" for u v
    by (auto simp: broker_ReadLoop_body_def split: Option.bind_splits if_splits dest: broker_continue)
  moreover have "broker_ReadLoop_body process c u = Some (False, v) \<Longrightarrow> closed v c" for u v
    by (auto simp: broker_ReadLoop_body_def closed_def split: Option.bind_splits if_splits
        dest: broker_stop [unfolded closed_def])
  ultimately show "\<exists>r. broker_ReadLoop process c w = Some r"
    "broker_ReadLoop process c w = Some (Some w') \<Longrightarrow> closed w' c"
    unfolding broker_ReadLoop_def
    using run_loop_returns [of "broker_ReadLoop_body process c" "pending c"]
      run_loop_ends [of "broker_ReadLoop_body process c" "\<lambda>v. closed v c" "pending c"] by blast+
qed

lemma cluster_loop:
  "\<exists>r. cluster_ReadLoop process c w = Some r"
  "cluster_ReadLoop process c w = Some (Some w') \<Longrightarrow> closed w' c"
proof -
  have t: "cluster_ReadLoop_body process c u = Some (True, v) \<Longrightarrow> pending c v < pending c u" for u v
    by (auto simp: cluster_ReadLoop_body_def split: Option.bind_splits if_splits dest: cluster_continue)
  moreover have "cluster_ReadLoop_body process c u = Some (False, v) \<Longrightarrow> closed v c" for u v
    by (auto simp: cluster_ReadLoop_body_def closed_def split: Option.bind_splits if_splits
        dest: cluster_stop [unfolded closed_def])
  ultimately show "\<exists>r. cluster_ReadLoop process c w = Some r"
    "cluster_ReadLoop process c w = Some (Some w') \<Longrightarrow> closed w' c"
    unfolding cluster_ReadLoop_def
    using run_loop_returns [of "cluster_ReadLoop_body process c" "pending c"]
      run_loop_ends [of "cluster_ReadLoop_body process c" "\<lambda>v. closed v c" "pending c"] by blast+
qed

end

section \<open>The two processors\<close>

lemma closed_evolve: "evolve w w' \<Longrightarrow> closed w c \<Longrightarrow> closed w' c"
  using evolve_heap [of w w' c] by (auto simp: closed_def client_kept_def)

lemma client_Close_closed: "client_Close c w = Some w' \<Longrightarrow> closed w' c"
  by (auto simp: client_Close_eq closed_def set_client_def Let_def split: Option.bind_splits)

lemma ProcessDisconnect_closed:
  assumes "ProcessDisconnect c w = Some w'"
  shows "closed w' c"
proof -
  from assms obtain v x and cl :: Client where u: "client_Close c w = Some v"
    "unsubscribe_topics c (map fst (client_topics cl)) v = Some x" "w' = count_leave x"
    by (auto simp: ProcessDisconnect_def count_leave_def split: Option.bind_splits)
  have "evolve v x" using runsD [OF runs_unsubscribe_topics [OF subset_refl] u(2)] by (rule acts_evolve)
  with closed_evolve client_Close_closed [OF u(1)] have "closed x c" by blast
  then show "closed w' c" by (simp add: u(3) count_leave_def count_def closed_def)
qed

interpretation broker: message_processor ProcessMessage
proof
  show "ProcessMessage c p w = Some w' \<Longrightarrow> evolve w w'" for c p w w'
    by (rule acts_evolve [OF ProcessMessage_acts])
  show "ProcessMessage c disconnect_packet w = Some w' \<Longrightarrow> closed w' c" for c w w'
    by (simp add: ProcessMessage_def disconnect_packet_def Let_def ProcessDisconnect_closed)
qed

interpretation peer: message_processor cluster_ProcessMessage
proof
  show "cluster_ProcessMessage c p w = Some w' \<Longrightarrow> evolve w w'" for c p w w'
    by (rule acts_evolve [OF cluster_ProcessMessage_acts])
  fix c w w'
  assume "cluster_ProcessMessage c disconnect_packet w = Some w'"
  then obtain u v and cl :: Client where u: "client_Close c u = Some v"
    "cluster_forget c (map fst (client_topics cl)) v = Some w'"
    by (auto simp: cluster_ProcessMessage_def disconnect_packet_def cluster_ProcessDisconnect_def Let_def
        split: Option.bind_splits)
  have "evolve v w'" using runsD [OF runs_cluster_forget [OF subset_refl] u(2)] by (rule acts_evolve)
  with closed_evolve client_Close_closed [OF u(1)] show "closed w' c" by blast
qed

end
