(* ===== verification/Session_Effects.thy ===== *)
theory Session_Effects
  imports Broker_Effects Read_Loop
begin

text \<open>
  The beginning and the end of a client's session: CONNECT, DISCONNECT, the last will, and what a
  publisher is answered.
\<close>

section \<open>Closing a client\<close>

definition shut_down :: "World \<Rightarrow> connref option \<Rightarrow> bool" where
  "shut_down w ko \<longleftrightarrow> (\<forall>k. ko = Some k \<longrightarrow> (\<exists>cn. conns w k = Some cn \<and> \<not> up cn))"

lemma shut_down_evolve: "evolve w w' \<Longrightarrow> shut_down w ko \<Longrightarrow> shut_down w' ko"
  unfolding shut_down_def using evolve_conns [of w w'] by (fastforce simp: conn_kept_def)

lemma client_Close_effect:
  assumes "client_Close c w = Some v" "heap_ok w" "heap w c = Some cl"
  shows "heap v = (heap w)(c \<mapsto> cl\<lparr>client_done := True, conn := None\<rparr>)" "shut_down v (conn cl)"
    "same_tables w v" "\<And>k. conn cl \<noteq> Some k \<Longrightarrow> conns v k = conns w k" "server_state v = server_state w"
proof -
  have v: "v = set_client c (cl\<lparr>client_done := True, conn := None\<rparr>)
      (case conn cl of None \<Rightarrow> w | Some k \<Rightarrow> conn_Close k w)"
    using assms(1,3) by (simp add: client_Close_eq Let_def)
  have "conns w k \<noteq> None" if "conn cl = Some k" for k using assms(2,3) that unfolding heap_ok_def by blast
  then show "heap v = (heap w)(c \<mapsto> cl\<lparr>client_done := True, conn := None\<rparr>)" "shut_down v (conn cl)"
    "same_tables w v" "\<And>k. conn cl \<noteq> Some k \<Longrightarrow> conns v k = conns w k" "server_state v = server_state w"
    unfolding v
    by (auto simp: set_client_def conn_Close_def shut_down_def same_tables_def split: option.split)
qed

section \<open>Unsubscribing\<close>

definition unsubscribable :: "string \<Rightarrow> bool" where
  "unsubscribable f \<longleftrightarrow> clean f \<or> \<not> wildcard f"

lemma unsubscribe_step:
  assumes "wf_trie t" "Trie_Unsubscribe f i t = Some (t', e)" "unsubscribable f"
  shows "wf_trie t'" "subscription t' g j = (if g = f \<and> j = i then None else subscription t g j)"
proof -
  from Unsubscribe_law [OF assms(1), of f i] assms(2) have
    l: "wf_trie t'" "e \<longrightarrow> (\<forall>g j. subscription t' g j = (if g = f \<and> j = i then None else subscription t g j))"
      "\<not> e \<longrightarrow> t' = t \<and> \<not> known t f"
    using assms(3) by (auto simp: unsubscribable_def)
  show "wf_trie t'" by (rule l)
  have "\<not> known t f \<Longrightarrow> subscription t f i = None" using subscription_known by blast
  with l(2,3) show "subscription t' g j = (if g = f \<and> j = i then None else subscription t g j)"
    by (cases e) auto
qed

lemma unsubscribe_topics_effect:
  assumes "unsubscribe_topics c fs w = Some v" "wf_trie (brokerTopics w)" "GetId c w = Some i"
  shows "(\<forall>g j. subscription (brokerTopics v) g j =
      (if g \<in> set fs \<and> j = i \<and> findable g then None else subscription (brokerTopics w) g j)) \<and>
    (\<forall>p g j. copy_at (brokerTopics v) p g j =
      (if g \<in> set fs \<and> j = i \<and> findable g \<and> p = sub_path (levels g) then None else copy_at (brokerTopics w) p g j))"
  using assms
proof (induction fs arbitrary: w)
  case (Cons f fs)
  from Cons.prems(1) obtain x y t e j where x: "RemoveTopic c f w = Some (x, y)" and j: "GetId c x = Some j" and
    t: "Trie_Unsubscribe f j (brokerTopics x) = Some (t, e)" and
    v: "unsubscribe_topics c fs (if e then count (\<lambda>s. s\<lparr>SubCount := SubCount s - 1\<rparr>) (x\<lparr>brokerTopics := t\<rparr>)
      else x\<lparr>brokerTopics := t\<rparr>) = Some v"
    by (auto simp: Let_def split: Option.bind_splits)
  from x have bt: "brokerTopics x = brokerTopics w" and "GetId c x = GetId c w"
    by (auto simp: RemoveTopic_eq set_client_def GetId_eq split: Option.bind_splits if_splits)
  with j Cons.prems(3) have ji: "j = i" by simp
  from Unsubscribe_copies [OF Cons.prems(2), of f i] t [unfolded bt ji] have
    s: "wf_trie t"
      "\<forall>g j. subscription t g j = (if g = f \<and> j = i \<and> findable f then None else subscription (brokerTopics w) g j)"
      "\<forall>p g j. copy_at t p g j =
        (if g = f \<and> j = i \<and> findable f \<and> p = sub_path (levels f) then None else copy_at (brokerTopics w) p g j)" by auto
  let ?u = "if e then count (\<lambda>s. s\<lparr>SubCount := SubCount s - 1\<rparr>) (x\<lparr>brokerTopics := t\<rparr>) else x\<lparr>brokerTopics := t\<rparr>"
  have u: "brokerTopics ?u = t" "GetId c ?u = Some i" using j ji by (simp_all add: count_def GetId_eq)
  from Cons.IH [OF v, unfolded u, OF s(1)] show ?case using s(2,3) by auto
qed simp

lemma ProcessDisconnect_effect:
  assumes "good_world w" "heap w c = Some cl"
  shows "\<exists>v. ProcessDisconnect c w = Some v \<and> closed v c \<and> shut_down v (conn cl) \<and>
    (\<forall>g j. subscription (brokerTopics v) g j =
      (if g \<in> topic_names w c \<and> j = client_id cl \<and> findable g then None else subscription (brokerTopics w) g j)) \<and>
    (\<forall>p g j. copy_at (brokerTopics v) p g j =
      (if g \<in> topic_names w c \<and> j = client_id cl \<and> findable g \<and> p = sub_path (levels g) then None
       else copy_at (brokerTopics w) p g j))"
proof -
  from ProcessDisconnect_defined [OF assms(1)] assms(2) obtain v where v: "ProcessDisconnect c w = Some v" by auto
  then obtain u cl' x where u: "client_Close c w = Some u" "heap u c = Some cl'"
    "unsubscribe_topics c (map fst (client_topics cl')) u = Some x" "v = count_leave x"
    by (auto simp: ProcessDisconnect_def count_leave_def split: Option.bind_splits)
  have ok: "heap_ok w" using assms(1) by (simp add: good_world_def)
  note ce = client_Close_effect [OF u(1) ok assms(2)]
  have bt: "brokerTopics u = brokerTopics w" using ce(3) by (simp add: same_tables_def)
  have cl': "cl' = cl\<lparr>client_done := True, conn := None\<rparr>" using ce(1) u(2) by simp
  have names: "set (map fst (client_topics cl')) = topic_names w c" using assms(2) by (simp add: cl' topic_names_def)
  have id: "GetId c u = Some (client_id cl)" using u(2) cl' by (simp add: GetId_eq)
  have bv: "brokerTopics v = brokerTopics x" by (simp add: u(4) count_leave_def count_def)
  have wf: "wf_trie (brokerTopics u)" using good_wf(1) [OF assms(1)] by (simp add: bt)
  note topics = unsubscribe_topics_effect [OF u(3) wf id, unfolded names bt]
  have e: "evolve u v"
    using evolve_trans [OF acts_evolve [OF runsD [OF runs_unsubscribe_topics [OF subset_refl] u(3)]]] act_evolve [OF leave]
    unfolding u(4) by blast
  have "closed u c" by (rule client_Close_closed [OF u(1)])
  from v closed_evolve [OF e this] shut_down_evolve [OF e ce(2)] topics show ?thesis by (simp add: bv)
qed


section \<open>Answering\<close>

definition count_sent :: "int64 \<Rightarrow> World \<Rightarrow> World" where
  "count_sent n = count (\<lambda>s. s\<lparr>MsgSent := MsgSent s + 1, BytesSent := BytesSent s + n\<rparr>)"

lemma WritePacket_world:
  assumes "attached w c k cn" "Write p = Some (bs, p')"
  shows "WritePacket c p w =
    Some (None, p', count_sent (word_of_int (Size p')) (w\<lparr>conns := (conns w)(k \<mapsto> wrote bs cn)\<rparr>))"
  using assms by (auto simp: attached_def WritePacket_def client_WritePacket_eq conn_Write_def wrote_def count_sent_def)

lemma WritePacket_broken:
  assumes "heap w c = Some cl" "conn cl = Some k" "conns w k = Some cn" "\<not> up cn" "Write p = Some (bs, p')"
  shows "WritePacket c p w = Some (Some ErrConnWrite, p', w)"
  using assms by (simp add: WritePacket_def client_WritePacket_eq conn_Write_def)

text \<open>What a PUBLISH leads to once it is accepted.\<close>

definition forward :: "PublishPacket \<Rightarrow> World \<Rightarrow> World option" where
  "forward p w = do { (q, w) \<leftarrow> DoPublish (TopicName p) (PublishP p) w;
                      process_retain (TopicName p) (as_publish q p) w }"

lemma publish_qos0: "Qos p = 0 \<Longrightarrow> ProcessPublish c p w = forward p w"
  by (simp add: ProcessPublish_def forward_def Let_def)

lemma publish_qos1:
  assumes "Qos p = 1" "attached w c k cn"
  shows "ProcessPublish c p w = forward p (count_sent 4 (w\<lparr>conns := (conns w)(k \<mapsto>
    wrote ([0x40, 2] @ BigEndian_PutUint16 (pub_MessageID p)) cn)\<rparr>))"
proof -
  obtain q where q: "Write (puback_for (pub_MessageID p)) = Some ([0x40, 2] @ BigEndian_PutUint16 (pub_MessageID p), q)"
    "Size q = 4" using ack_bytes(1) by blast
  show ?thesis
    using assms(1) by (simp add: ProcessPublish_def WritePacket_world [OF assms(2) q(1)] q(2) forward_def Let_def)
qed

lemma publish_qos1_broken:
  assumes "Qos p = 1" "heap w c = Some cl" "conn cl = Some k" "conns w k = Some cn" "\<not> up cn"
  shows "ProcessPublish c p w = Some w"
proof -
  obtain bs q where q: "Write (puback_for (pub_MessageID p)) = Some (bs, q)" using ack_bytes(1) by blast
  show ?thesis
    using assms(1) by (simp add: ProcessPublish_def WritePacket_broken [OF assms(2-5) q])
qed

lemma publish_qos2:
  assumes "Qos p = 2" "attached w c k cn" "map_of (qos2Msgs w) (pub_MessageID p) = None" "maxQos2Msgs w = 0"
  shows "ProcessPublish c p w = forward p (count_sent 4 (w\<lparr>
    qos2Msgs := go_store (pub_MessageID p) (clock w) (qos2Msgs w), timers := timers w @ [clock w + Qos2Timeout],
    conns := (conns w)(k \<mapsto> wrote ([0x50, 2] @ BigEndian_PutUint16 (pub_MessageID p)) cn)\<rparr>))"
proof -
  let ?w = "w\<lparr>qos2Msgs := go_store (pub_MessageID p) (clock w) (qos2Msgs w), timers := timers w @ [clock w + Qos2Timeout]\<rparr>"
  have at: "attached ?w c k cn" using assms(2) by simp
  obtain q where q: "Write (pubrec_for (pub_MessageID p)) = Some ([0x50, 2] @ BigEndian_PutUint16 (pub_MessageID p), q)"
    "Size q = 4" using ack_bytes(2) by blast
  show ?thesis
    using assms(1)
    by (simp add: ProcessPublish_def save_new [OF assms(4,3)] WritePacket_world [OF at q(1)] q(2) forward_def Let_def)
qed

lemma publish_qos2_again: "Qos p = 2 \<Longrightarrow> map_of (qos2Msgs w) (pub_MessageID p) \<noteq> None \<Longrightarrow> ProcessPublish c p w = Some w"
  using save_again [of w "pub_MessageID p"] by (auto simp: ProcessPublish_def simp del: not_None_eq)

text \<open>Writing a packet keeps its content, so what is retained is what was received.\<close>

lemma Write_content: "Write p = Some (bs, q) \<Longrightarrow> content q = content p"
  using content_written [of p] by (simp add: written_def)

lemma write_content: "client_WritePacket c p w = Some (e, q, v) \<Longrightarrow> content q = content p"
  by (auto simp: client_WritePacket_eq split: option.splits client_kind.splits prod.splits Option.bind_splits
      dest: Write_content)

lemma deliver_content: "deliver_loop counted cs seen p w = Some (q, v) \<Longrightarrow> content q = content p"
proof (induction cs arbitrary: seen p w)
  case (Cons d cs)
  then obtain j where j: "GetId d w = Some j"
    by (auto split: Option.bind_splits)
  show ?case
  proof (cases "j \<in> set seen")
    case True
    with Cons j show ?thesis by simp
  next
    case False
    then obtain e r u where u: "client_WritePacket d p w = Some (e, r, u)"
      "deliver_loop counted cs (j # seen) r (if counted then count (\<lambda>s. s\<lparr>PubSent := PubSent s + 1\<rparr>) u else u) = Some (q, v)"
      using Cons.prems(1) j by (auto simp: Let_def split: Option.bind_splits)
    from write_content [OF u(1)] Cons.IH [OF u(2)] show ?thesis by simp
  qed
qed simp

lemma content_publish: "content q = content (PublishP p) \<Longrightarrow> Retain (as_publish q p) = Retain p \<and> Payload (as_publish q p) = Payload p"
  by (cases q) (auto simp: content_def as_publish_def dest: arg_cong [where f = Retain] arg_cong [where f = Payload])

lemma forward_effect:
  assumes "forward p w = Some v" "wf_trie (brokerTopics w)"
  shows "same_table w v" "heap v = heap w"
    "Retain p \<Longrightarrow> Payload p \<noteq> [] \<Longrightarrow>
       retained_topics (brokerTopics v) = insert (TopicName p) (retained_topics (brokerTopics w))"
proof -
  from assms(1) obtain q u where u: "DoPublish (TopicName p) (PublishP p) w = Some (q, u)"
    "process_retain (TopicName p) (as_publish q p) u = Some v" by (auto simp: forward_def split: Option.bind_splits)
  have ow: "only_wrote w u" using runsD [OF runs_DoPublish [OF subset_refl] u(1)] by (intro quiet_only_wrote) simp
  note pr = process_retain_shape [OF u(2)]
  show "same_table w v" by (subst pr) (use ow in \<open>simp add: only_wrote_def same_table_def\<close>)
  show "heap v = heap w" by (subst pr) (use ow in \<open>simp add: only_wrote_def\<close>)
  assume p: "Retain p" "Payload p \<noteq> []"
  have "content q = content (PublishP p)"
    using u(1) by (auto simp: DoPublish_def Let_def dest!: deliver_content split: Option.bind_splits)
  note c = content_publish [OF this]
  with p u(2) obtain t e where t: "Trie_AddRetain (TopicName p) (as_publish q p) (brokerTopics u) = Some (t, e)"
    "brokerTopics v = t" by (auto simp: process_retain_def Let_def count_def split: Option.bind_splits if_splits)
  show "retained_topics (brokerTopics v) = insert (TopicName p) (retained_topics (brokerTopics w))"
    using AddRetain_retained(1) [OF _ t(1)] assms(2) only_wroteD(1) [OF ow] t(2) by simp
qed

section \<open>Connecting\<close>

lemma count_join_simps [simp]:
  "heap (count_join w) = heap w" "conns (count_join w) = conns w" "clients (count_join w) = clients w"
  "brokerTopics (count_join w) = brokerTopics w"
  "ClientsTotal (server_state (count_join w)) = ClientsTotal (server_state w) + 1"
  "ClientsConnected (server_state (count_join w)) = ClientsConnected (server_state w) + 1"
  by (simp_all add: count_join_def count_def Let_def)

text \<open>Closing another client, here one that a map holds.\<close>

lemma close_other:
  assumes "good_world w" "attached w c k cn" "x \<noteq> Some c" "\<And>old. x = Some old \<Longrightarrow> heap w old \<noteq> None"
  shows "\<exists>u. (case x of None \<Rightarrow> Some w | Some old \<Rightarrow> client_Close old w) = Some u \<and>
    attached u c k cn \<and> heap u c = heap w c \<and> same_tables w u \<and> server_state u = server_state w \<and>
    (\<forall>old ocl. x = Some old \<longrightarrow> heap w old = Some ocl \<longrightarrow> closed u old \<and> shut_down u (conn ocl))"
proof (cases x)
  case (Some old)
  from assms(4) [OF Some] obtain ocl where ocl: "heap w old = Some ocl" by auto
  have ok: "heap_ok w" using assms(1) by (simp add: good_world_def)
  from client_Close_defined [of w old] ocl obtain u where u: "client_Close old w = Some u" by auto
  note e = client_Close_effect [OF u ok ocl]
  from assms(3) Some have nc: "old \<noteq> c" by auto
  have "conn ocl \<noteq> Some k"
    using ok ocl assms(2) nc unfolding heap_ok_def attached_def by blast
  with e(4) have "conns u k = conns w k" by simp
  moreover from e(1) nc have "heap u c = heap w c" by simp
  ultimately have "attached u c k cn" using assms(2) by (simp add: attached_def)
  with u e nc ocl Some client_Close_closed [OF u] show ?thesis by simp
qed (use assms(2) in simp)

lemma close_registered:
  assumes "good_world w" "attached w c k cn" "map_of (clients w) i \<noteq> Some c"
  shows "\<exists>u. (case map_of (clients w) i of None \<Rightarrow> Some w | Some old \<Rightarrow> client_Close old w) = Some u \<and>
    attached u c k cn \<and> heap u c = heap w c \<and> same_tables w u \<and> server_state u = server_state w \<and>
    (\<forall>old ocl. map_of (clients w) i = Some old \<longrightarrow> heap w old = Some ocl \<longrightarrow> closed u old \<and> shut_down u (conn ocl))"
  by (rule close_other [OF assms]) (use good_worldD(3) [OF assms(1)] in \<open>auto simp: is_client_def\<close>)

definition connected :: "cref \<Rightarrow> connref \<Rightarrow> Client \<Rightarrow> Conn \<Rightarrow> ConnectPacket \<Rightarrow> World \<Rightarrow> World" where
  "connected c k cl cn cp w = count_join ((count_sent 4 (w\<lparr>conns := (conns w)(k \<mapsto>
       wrote [0x20, 2, if CleanSession cp then 1 else 0, Validate cp] cn)\<rparr>))
     \<lparr>heap := (heap w)(c \<mapsto> cl\<lparr>client_id := ClientIdentifier cp,
        will := if WillFlag cp then Some (will_of cp) else will cl\<rparr>),
      clients := go_store (ClientIdentifier cp) c (clients w)\<rparr>)"

lemma ProcessConnect_world:
  assumes "(case map_of (clients w) (ClientIdentifier cp) of None \<Rightarrow> Some w | Some old \<Rightarrow> client_Close old w) = Some u"
    "attached u c k cn" "heap u c = Some cl" "kind cl = BrokerClient"
  shows "ProcessConnect c cp w = Some (connected c k cl cn cp u)"
proof -
  obtain q where q: "Write (connack_for cp) = Some ([0x20, 2, if CleanSession cp then 1 else 0, Validate cp], q)"
    "Size q = 4" using ack_bytes(6) by blast
  show ?thesis
    using assms(3,4) unfolding ProcessConnect_def assms(1) WritePacket_world [OF assms(2) q(1)]
    by (simp add: assms(1) WritePacket_world [OF assms(2) q(1)] q(2) SetId_eq SetWill_def set_client_def count_join_def
        Let_def count_sent_def count_def connected_def)
qed

lemma ProcessConnect_effect:
  assumes "good_world w" "heap w c = Some cl" "kind cl = BrokerClient" "attached w c k cn"
    "map_of (clients w) (ClientIdentifier cp) \<noteq> Some c"
  shows "\<exists>v. ProcessConnect c cp w = Some v \<and>
    attached v c k (wrote [0x20, 2, if CleanSession cp then 1 else 0, Validate cp] cn) \<and>
    heap v c = Some (cl\<lparr>client_id := ClientIdentifier cp, will := if WillFlag cp then Some (will_of cp) else will cl\<rparr>) \<and>
    clients v = go_store (ClientIdentifier cp) c (clients w) \<and> brokerTopics v = brokerTopics w \<and>
    ClientsTotal (server_state v) = ClientsTotal (server_state w) + 1 \<and>
    ClientsConnected (server_state v) = ClientsConnected (server_state w) + 1 \<and>
    (\<forall>old ocl. map_of (clients w) (ClientIdentifier cp) = Some old \<longrightarrow> heap w old = Some ocl \<longrightarrow>
       closed v old \<and> shut_down v (conn ocl))"
proof -
  let ?i = "ClientIdentifier cp"
  from close_registered [OF assms(1,4,5)] obtain u where
    u: "(case map_of (clients w) ?i of None \<Rightarrow> Some w | Some old \<Rightarrow> client_Close old w) = Some u"
      "attached u c k cn" "heap u c = Some cl" "same_tables w u" "server_state u = server_state w" and
    old: "\<forall>old ocl. map_of (clients w) ?i = Some old \<longrightarrow> heap w old = Some ocl \<longrightarrow> closed u old \<and> shut_down u (conn ocl)"
    using assms(2) by auto
  let ?v = "connected c k cl cn cp u"
  note v = ProcessConnect_world [OF u(1-3) assms(3)]
  have at: "attached ?v c k (wrote [0x20, 2, if CleanSession cp then 1 else 0, Validate cp] cn)"
    using u(2,3) by (simp add: connected_def attached_def count_sent_def wrote_def)
  have "closed ?v d \<and> shut_down ?v (conn dl)"
    if "map_of (clients w) ?i = Some d" "heap w d = Some dl" for d dl
  proof
    from that assms(5) have "d \<noteq> c" by auto
    with old that show "closed ?v d" by (auto simp: connected_def closed_def)
    from old that u(2) show "shut_down ?v (conn dl)"
      by (auto simp: connected_def shut_down_def attached_def count_sent_def)
  qed
  with v at u(4,5) show ?thesis
    by (simp add: connected_def same_tables_def count_sent_def count_def)
qed

section \<open>The end of the read loop\<close>

lemma read_world:
  "heap w c = Some cl \<Longrightarrow> conn cl = Some k \<Longrightarrow> conns w k = Some cn \<Longrightarrow> up cn \<Longrightarrow>
     ReadPacket (incoming cn) = (p, e, rest) \<Longrightarrow>
     client_ReadPacket c w = Some (p, e, w\<lparr>conns := (conns w)(k \<mapsto> cn\<lparr>incoming := rest\<rparr>)\<rparr>)"
  by (simp add: client_ReadPacket_eq)

lemma loop_stops: "closed w c \<Longrightarrow> broker_ReadLoop processor c w = Some (Some w)"
  by (auto simp: broker_ReadLoop_def closed_def run_loop.simps [of "broker_ReadLoop_body processor c" w]
      broker_ReadLoop_body_def)

lemma ReadLoop_disconnect:
  assumes "\<not> closed w c" "client_ReadPacket c w = Some (Some (DisconnectP h), None, v)"
  shows "broker_ReadLoop ProcessMessage c w = Some (ProcessMessage c (DisconnectP h) v)"
proof -
  from assms have "\<exists>cl. heap w c = Some cl \<and> \<not> client_done cl"
    by (auto simp: closed_def client_ReadPacket_eq split: Option.bind_splits)
  then have b: "broker_ReadLoop_body ProcessMessage c w = map_option (Pair True) (ProcessMessage c (DisconnectP h) v)"
    using assms(2) by (cases "ProcessMessage c (DisconnectP h) v")
      (auto simp: broker_ReadLoop_body_def broker_read_once_def)
  show ?thesis
  proof (cases "ProcessMessage c (DisconnectP h) v")
    case None
    with b show ?thesis
      by (simp add: broker_ReadLoop_def run_loop.simps [of "broker_ReadLoop_body ProcessMessage c" w])
  next
    case (Some u)
    then have "closed u c"
      by (simp add: ProcessMessage_def Let_def ProcessDisconnect_closed)
    from loop_stops [OF this, of ProcessMessage] b Some show ?thesis
      by (simp add: broker_ReadLoop_def run_loop.simps [of "broker_ReadLoop_body ProcessMessage c" w])
  qed
qed

lemma ReadLoop_error:
  assumes "heap w c = Some cl" "\<not> client_done cl" "client_ReadPacket c w = Some (p, Some e, v)"
  shows "broker_ReadLoop ProcessMessage c w =
    Some ((case will cl of None \<Rightarrow> Some v | Some m \<Rightarrow> ProcessMessage c (PublishP m) v) \<bind>
      ProcessMessage c disconnect_packet)"
proof -
  have "reads c w v" using assms(3) by (auto simp: reads_def)
  then have hv: "heap v c = Some cl" by (simp add: reads_heap assms(1))
  let ?m = "case will cl of None \<Rightarrow> Some v | Some m \<Rightarrow> ProcessMessage c (PublishP m) v"
  have "broker_ReadLoop_body ProcessMessage c w = map_option (Pair False) (?m \<bind> ProcessMessage c disconnect_packet)"
    using assms hv by (simp add: broker_ReadLoop_body_def broker_read_once_def)
      (cases ?m; simp; cases "ProcessMessage c disconnect_packet (the ?m)"; simp)
  then show ?thesis
    by (cases "?m \<bind> ProcessMessage c disconnect_packet")
      (simp_all add: broker_ReadLoop_def run_loop.simps [of "broker_ReadLoop_body ProcessMessage c" w])
qed

end
