(* ===== verification/Sample_Run.thy ===== *)
theory Sample_Run
  imports Session_Effects
begin

text \<open>
  A concrete run of a server without a cluster, on which the properties of the running server are
  evaluated: a publisher \<open>p\<close> and a subscriber \<open>s\<close> connect, the subscriber asks for \<open>a/+\<close>, and the
  publisher sends a retained message of QoS 2 on \<open>a/b\<close>.
\<close>

declare One_nat_def [simp del]

section \<open>The packets\<close>

definition connect_bytes :: "byte \<Rightarrow> byte list" where
  "connect_bytes i = [0x10, 13, 0, 4, 0x4D, 0x51, 0x54, 0x54, 4, 2, 0, 60, 0, 1, i]"

definition publish_input :: "byte list" where
  "publish_input = [0x35, 8, 0, 3, 0x61, 0x2F, 0x62, 0, 7, 0x78]"

definition subscribe_input :: "byte list" where
  "subscribe_input = [0x82, 8, 0, 1, 0, 3, 0x61, 0x2F, 0x2B, 0]"

definition run_header :: "byte \<Rightarrow> byte \<Rightarrow> bool \<Rightarrow> int \<Rightarrow> FixedHeader" where
  "run_header t q r n =
     \<lparr>MessageType = t, Dup = False, Qos = q, Retain = r, RemainingLength = n, PacketSize = 2\<rparr>"

definition run_connect :: "string \<Rightarrow> ConnectPacket" where
  "run_connect i = (new_ConnectPacket (run_header 1 0 False 13))
     \<lparr>ProtocolName := ''MQTT'', ProtocolVersion := 4, CleanSession := True, Keepalive := 60,
      ClientIdentifier := i\<rparr>"

definition run_publish :: PublishPacket where
  "run_publish = (new_PublishPacket (run_header 3 2 True 8))
     \<lparr>TopicName := ''a/b'', pub_MessageID := 7, Payload := [0x78]\<rparr>"

definition run_subscribe :: SubscribePacket where
  "run_subscribe = (new_SubscribePacket (run_header 8 1 False 8))
     \<lparr>sub_MessageID := 1, sub_Topics := [''a/+''], Qoss := [0]\<rparr>"

lemma run_reads:
  "ReadPacket (connect_bytes 0x70 @ publish_input) = (Some (ConnectP (run_connect ''p'')), None, publish_input)"
  "ReadPacket (connect_bytes 0x73 @ subscribe_input) = (Some (ConnectP (run_connect ''s'')), None, subscribe_input)"
  "ReadPacket publish_input = (Some (PublishP run_publish), None, [])"
  "ReadPacket subscribe_input = (Some (SubscribeP run_subscribe), None, [])"
  by code_simp+

lemma run_names:
  "levels ''a/b'' = [''a'', ''b''] \<and> levels ''a/+'' = [''a'', ''+''] \<and> \<not> wildcard ''a/b'' \<and> publishable ''a/b'' \<and>
   filter_match ''a/+'' ''a/b'' \<and> clean ''a/+''"
  by code_simp

lemma run_fields [simp]:
  "ClientIdentifier (run_connect i) = i" "CleanSession (run_connect i)" "\<not> WillFlag (run_connect i)"
  "sub_Topics run_subscribe = [''a/+'']" "sub_MessageID run_subscribe = 1"
  "Qos run_publish = 2" "Retain run_publish" "TopicName run_publish = ''a/b''" "pub_MessageID run_publish = 7"
  "Payload run_publish = [0x78]"
  by (simp_all add: run_connect_def run_subscribe_def run_publish_def run_header_def new_packet_defs)

lemma run_valid: "Validate (run_connect ''p'') = 0" "Validate (run_connect ''s'') = 0"
  by (simp_all add: run_connect_def run_header_def new_packet_defs Validate_def Accepted_def)

section \<open>The worlds\<close>

definition run_client :: "connref \<Rightarrow> string \<Rightarrow> (string \<times> string) list \<Rightarrow> Client" where
  "run_client k i ts = \<lparr>kind = BrokerClient, client_id = i, conn = Some k, client_done = False,
     client_topics = ts, client_typ = TypTcp, will = None\<rparr>"

definition run_trie :: "(cref, PublishPacket) Trie" where
  "run_trie = \<lparr>root = Branch ''root'' [] [(''a'', Branch ''a'' []
       [(''+'', Branch ''+'' [(''a/+'', \<lparr>subscribers = [(''s'', 1)], retain = None\<rparr>)] [])])],
     foliage = [(''a/+'', \<lparr>subscribers = [], retain = None\<rparr>)]\<rparr>"

lemma run_trie_ops:
  "Trie_Subscribe ''a/+'' ''s'' 1 NewTrie = Some (run_trie, False)"
  "Trie_SearchRetain ''a/+'' run_trie = Some []"
  "Trie_Subscribers ''a/b'' run_trie = Some [1]"
  by code_simp+

lemma run_trie_law:
  "good_trie run_trie \<and> (\<forall>g j. subscription run_trie g j = (if g = ''a/+'' \<and> j = ''s'' then Some 1 else None))"
proof -
  from Subscribe_law [OF wf_NewTrie, of "''a/+''" "''s''" "1 :: cref"] obtain t' :: "(cref, PublishPacket) Trie" where
    "Trie_Subscribe ''a/+'' ''s'' 1 (NewTrie :: (cref, PublishPacket) Trie) =
       Some (t', subscription (NewTrie :: (cref, PublishPacket) Trie) ''a/+'' ''s'' \<noteq> None)" "wf_trie t'"
    "\<forall>g j. subscription t' g j = (if g = ''a/+'' \<and> j = ''s'' then Some 1
       else subscription (NewTrie :: (cref, PublishPacket) Trie) g j)"
    "synced (NewTrie :: (cref, PublishPacket) Trie) \<longrightarrow> synced t'" by blast
  moreover from this(1) run_trie_ops(1) have "t' = run_trie" by simp
  ultimately show ?thesis by (simp add: good_trie_def subscription_NewTrie synced_NewTrie)
qed

lemmas run_trie_good = run_trie_law [THEN conjunct1]
lemmas run_trie_subscription = run_trie_law [THEN conjunct2, rule_format]

definition run_w1 :: World where
  "run_w1 = (NewServer 100)\<lparr>heap := [0 \<mapsto> run_client 0 [] []], next_cref := 1,
     conns := [0 \<mapsto> \<lparr>incoming = connect_bytes 0x70 @ publish_input, sent = [], up = True\<rparr>]\<rparr>"

definition run_w2 :: World where
  "run_w2 = connected 0 0 (run_client 0 [] []) \<lparr>incoming = publish_input, sent = [], up = True\<rparr> (run_connect ''p'')
     (run_w1\<lparr>conns := [0 \<mapsto> \<lparr>incoming = publish_input, sent = [], up = True\<rparr>]\<rparr>)"

definition run_w3 :: World where
  "run_w3 = run_w2\<lparr>heap := (heap run_w2)(1 \<mapsto> run_client 1 [] []), next_cref := 2,
     conns := (conns run_w2)(1 \<mapsto> \<lparr>incoming = connect_bytes 0x73 @ subscribe_input, sent = [], up = True\<rparr>)\<rparr>"

definition run_w4 :: World where
  "run_w4 = connected 1 1 (run_client 1 [] []) \<lparr>incoming = subscribe_input, sent = [], up = True\<rparr> (run_connect ''s'')
     (run_w3\<lparr>conns := (conns run_w3)(1 \<mapsto> \<lparr>incoming = subscribe_input, sent = [], up = True\<rparr>)\<rparr>)"

definition run_w5 :: World where
  "run_w5 = count (\<lambda>s. s\<lparr>SubCount := SubCount s + 1\<rparr>)
     ((count_sent 4 (count (\<lambda>s. s\<lparr>BytesRecv := BytesRecv s + 2, MsgRecv := MsgRecv s + 1\<rparr>)
        (run_w4\<lparr>conns := (conns run_w4)(1 \<mapsto> \<lparr>incoming = [], sent = [0x20, 2, 1, 0, 0x90, 2, 0, 1], up = True\<rparr>)\<rparr>)))
      \<lparr>heap := (heap run_w4)(1 \<mapsto> run_client 1 ''s'' [(''a/+'', ''s'')]), brokerTopics := run_trie\<rparr>)"

definition run_stages :: "(cref \<times> stage) list \<Rightarrow> cref \<Rightarrow> stage" where
  "run_stages gs c = (case map_of gs c of None \<Rightarrow> Stopped | Some g \<Rightarrow> g)"

lemma run_stages_update: "(run_stages gs)(c := g) = run_stages ((c, g) # gs)"
  by (auto simp: run_stages_def)

lemma count_fields [simp]:
  "brokerTopics (count f w) = brokerTopics w" "clusterTopics (count f w) = clusterTopics w"
  "clients (count f w) = clients w" "clusters (count f w) = clusters w" "conns (count f w) = conns w"
  "next_cref (count f w) = next_cref w" "qos2Msgs (count f w) = qos2Msgs w" "timers (count f w) = timers w"
  "clock (count f w) = clock w" "maxQos2Msgs (count f w) = maxQos2Msgs w"
  by (simp_all add: count_def)

lemma connected_fields [simp]:
  "brokerTopics (connected c k cl cn cp w) = brokerTopics w" "clusterTopics (connected c k cl cn cp w) = clusterTopics w"
  "clusters (connected c k cl cn cp w) = clusters w" "next_cref (connected c k cl cn cp w) = next_cref w"
  "qos2Msgs (connected c k cl cn cp w) = qos2Msgs w" "timers (connected c k cl cn cp w) = timers w"
  "clock (connected c k cl cn cp w) = clock w" "maxQos2Msgs (connected c k cl cn cp w) = maxQos2Msgs w"
  "clients (connected c k cl cn cp w) = go_store (ClientIdentifier cp) c (clients w)"
  "heap (connected c k cl cn cp w) = (heap w)(c \<mapsto> cl\<lparr>client_id := ClientIdentifier cp,
     will := if WillFlag cp then Some (will_of cp) else will cl\<rparr>)"
  "conns (connected c k cl cn cp w) = (conns w)(k \<mapsto>
     wrote [0x20, 2, if CleanSession cp then 1 else 0, Validate cp] cn)"
  by (simp_all add: connected_def count_join_def count_sent_def Let_def)

lemma run_w1_fields [simp]:
  "brokerTopics run_w1 = NewTrie" "clusterTopics run_w1 = NewTrie" "clients run_w1 = []" "clusters run_w1 = []"
  "heap run_w1 = [0 \<mapsto> run_client 0 [] []]" "next_cref run_w1 = 1" "qos2Msgs run_w1 = []" "timers run_w1 = []"
  "clock run_w1 = 100" "maxQos2Msgs run_w1 = 0"
  "conns run_w1 = [0 \<mapsto> \<lparr>incoming = connect_bytes 0x70 @ publish_input, sent = [], up = True\<rparr>]"
  by (simp_all add: run_w1_def NewServer_def)

lemma run_w2_fields [simp]:
  "brokerTopics run_w2 = NewTrie" "clusterTopics run_w2 = NewTrie" "clients run_w2 = [(''p'', 0)]" "clusters run_w2 = []"
  "heap run_w2 = [0 \<mapsto> run_client 0 ''p'' []]" "next_cref run_w2 = 1" "qos2Msgs run_w2 = []" "timers run_w2 = []"
  "clock run_w2 = 100" "maxQos2Msgs run_w2 = 0"
  "conns run_w2 = [0 \<mapsto> \<lparr>incoming = publish_input, sent = [0x20, 2, 1, 0], up = True\<rparr>]"
  by (simp_all add: run_w2_def run_client_def wrote_def run_valid)

lemma run_w3_fields [simp]:
  "brokerTopics run_w3 = NewTrie" "clusterTopics run_w3 = NewTrie" "clients run_w3 = [(''p'', 0)]" "clusters run_w3 = []"
  "heap run_w3 = [0 \<mapsto> run_client 0 ''p'' [], 1 \<mapsto> run_client 1 [] []]" "next_cref run_w3 = 2" "qos2Msgs run_w3 = []"
  "timers run_w3 = []" "clock run_w3 = 100" "maxQos2Msgs run_w3 = 0"
  "conns run_w3 = [0 \<mapsto> \<lparr>incoming = publish_input, sent = [0x20, 2, 1, 0], up = True\<rparr>,
     1 \<mapsto> \<lparr>incoming = connect_bytes 0x73 @ subscribe_input, sent = [], up = True\<rparr>]"
  by (simp_all add: run_w3_def)

lemma run_w4_fields [simp]:
  "brokerTopics run_w4 = NewTrie" "clusterTopics run_w4 = NewTrie" "clients run_w4 = [(''p'', 0), (''s'', 1)]"
  "clusters run_w4 = []" "heap run_w4 = [0 \<mapsto> run_client 0 ''p'' [], 1 \<mapsto> run_client 1 ''s'' []]"
  "next_cref run_w4 = 2" "qos2Msgs run_w4 = []" "timers run_w4 = []" "clock run_w4 = 100" "maxQos2Msgs run_w4 = 0"
  "conns run_w4 = [0 \<mapsto> \<lparr>incoming = publish_input, sent = [0x20, 2, 1, 0], up = True\<rparr>,
     1 \<mapsto> \<lparr>incoming = subscribe_input, sent = [0x20, 2, 1, 0], up = True\<rparr>]"
  by (simp_all add: run_w4_def run_client_def wrote_def run_valid)

lemma run_w5_fields [simp]:
  "brokerTopics run_w5 = run_trie" "clusterTopics run_w5 = NewTrie" "clients run_w5 = [(''p'', 0), (''s'', 1)]"
  "clusters run_w5 = []" "heap run_w5 = [0 \<mapsto> run_client 0 ''p'' [], 1 \<mapsto> run_client 1 ''s'' [(''a/+'', ''s'')]]"
  "next_cref run_w5 = 2" "qos2Msgs run_w5 = []" "timers run_w5 = []" "clock run_w5 = 100" "maxQos2Msgs run_w5 = 0"
  "conns run_w5 = [0 \<mapsto> \<lparr>incoming = publish_input, sent = [0x20, 2, 1, 0], up = True\<rparr>,
     1 \<mapsto> \<lparr>incoming = [], sent = [0x20, 2, 1, 0, 0x90, 2, 0, 1], up = True\<rparr>]"
  by (simp_all add: run_w5_def count_sent_def)

section \<open>The run\<close>

definition run_system :: "World \<Rightarrow> (cref \<times> stage) list \<Rightarrow> System" where
  "run_system w gs = \<lparr>world = w, stages = run_stages gs\<rparr>"

lemma run_system_simps [simp]: "world (run_system w gs) = w" "stages (run_system w gs) = run_stages gs"
  by (simp_all add: run_system_def)

lemma run_system_step:
  "reachable C (run_system w gs) \<Longrightarrow> step C (run_system w gs) \<lparr>world = v, stages = (run_stages gs)(c := g)\<rparr> \<Longrightarrow>
     reachable C (run_system v ((c, g) # gs))"
  using reachable.step [of C "run_system w gs"] by (simp add: run_system_def run_stages_update)

lemma run_accept_step:
  assumes "reachable C (run_system w gs)" "conns w k = None"
    "NewClient BrokerClient k TypTcp (open_conn k bs w) = (c, v)"
  shows "reachable C (run_system v ((c, Connecting) # gs))"
  using run_system_step [OF assms(1)]
    step.accept [where s = "run_system w gs" and C = C and k = k and t = TypTcp and bs = bs and c = c and w = v]
    assms(2,3) by simp

lemma run_connect_step:
  assumes "reachable C (run_system w gs)" "run_stages gs c = Connecting" "is_client BrokerClient w c"
    "Handler_connect c w = Some (True, v)"
  shows "reachable C (run_system v ((c, Selecting) # gs))"
  using run_system_step [OF assms(1)] step.connect [where s = "run_system w gs" and C = C and c = c and go = True and w = v]
    assms(2-4) by (simp add: goes_on_def)

lemma run_read_step:
  assumes "reachable C (run_system w gs)" "run_stages gs c = Reading" "is_client BrokerClient w c"
    "broker_read_once ProcessMessage c w = Some (True, v)"
  shows "reachable C (run_system v ((c, Selecting) # gs))"
  using run_system_step [OF assms(1)] step.read [where s = "run_system w gs" and C = C and c = c and go = True and w = v]
    assms(2-4) by (simp add: goes_on_def)

lemma run_handler:
  assumes "heap w c = Some cl" "conn cl = Some k" "kind cl = BrokerClient" "\<not> client_done cl"
    "conns w k = Some cn" "up cn" "ReadPacket (incoming cn) = (Some (ConnectP cp), None, rest)"
    "map_of (clients w) (ClientIdentifier cp) = None"
  shows "Handler_connect c w = Some (True, connected c k cl (cn\<lparr>incoming := rest\<rparr>) cp
    (w\<lparr>conns := (conns w)(k \<mapsto> cn\<lparr>incoming := rest\<rparr>)\<rparr>))"
proof -
  let ?u = "w\<lparr>conns := (conns w)(k \<mapsto> cn\<lparr>incoming := rest\<rparr>)\<rparr>"
  have "attached ?u c k (cn\<lparr>incoming := rest\<rparr>)" using assms by (simp add: attached_def)
  from ProcessConnect_world [of ?u cp ?u, OF _ this] assms
  show ?thesis by (simp add: Handler_connect_def read_world [OF assms(1,2,5-7)])
qed

lemma run_reachable1: "reachable C (run_system run_w1 [(0, Connecting)])"
proof -
  have "(0 :: int64) \<le>s 100" "(100 :: int64) <s 2 ^ 62" by code_simp+
  from start [OF this] have "reachable C (run_system (NewServer 100) [])"
    by (simp add: started_def run_system_def run_stages_def [abs_def])
  moreover have "NewClient BrokerClient 0 TypTcp (open_conn 0 (connect_bytes 0x70 @ publish_input) (NewServer 100)) =
      (0, run_w1)"
    by (simp add: NewClient_eq open_conn_def set_client_def NewServer_def run_w1_def run_client_def Let_def)
  moreover have "conns (NewServer 100) 0 = None" by (simp add: NewServer_def)
  ultimately show ?thesis using run_accept_step by blast
qed

lemma run_reachable2: "reachable C (run_system run_w2 [(0, Selecting), (0, Connecting)])"
proof -
  have "Handler_connect 0 run_w1 = Some (True, run_w2)"
    unfolding run_w2_def
    by (subst run_handler [where rest = publish_input and cp = "run_connect ''p''" and cl = "run_client 0 [] []"
        and k = 0 and cn = "\<lparr>incoming = connect_bytes 0x70 @ publish_input, sent = [], up = True\<rparr>"])
      (simp_all add: run_client_def run_reads)
  from run_connect_step [OF run_reachable1 _ _ this] show ?thesis
    by (simp add: run_stages_def is_client_def run_client_def)
qed

lemma run_reachable3: "reachable C (run_system run_w3 [(1, Connecting), (0, Selecting), (0, Connecting)])"
proof -
  have "NewClient BrokerClient 1 TypTcp (open_conn 1 (connect_bytes 0x73 @ subscribe_input) run_w2) = (1, run_w3)"
    by (simp add: NewClient_eq open_conn_def set_client_def run_w3_def run_client_def Let_def)
  from run_accept_step [OF run_reachable2 _ this] show ?thesis by simp
qed

lemma run_reachable4:
  "reachable C (run_system run_w4 [(1, Selecting), (1, Connecting), (0, Selecting), (0, Connecting)])"
proof -
  have "Handler_connect 1 run_w3 = Some (True, run_w4)"
    unfolding run_w4_def
    by (subst run_handler [where rest = subscribe_input and cp = "run_connect ''s''" and cl = "run_client 1 [] []"
        and k = 1 and cn = "\<lparr>incoming = connect_bytes 0x73 @ subscribe_input, sent = [], up = True\<rparr>"])
      (simp_all add: run_client_def run_reads)
  from run_connect_step [OF run_reachable3 _ _ this] show ?thesis
    by (simp add: run_stages_def is_client_def run_client_def)
qed

lemma run_select:
  assumes "reachable C (run_system w gs)" "run_stages gs c = Selecting" "heap w c = Some cl" "\<not> client_done cl"
  shows "reachable C (run_system w ((c, Reading) # gs))"
  using step.select [of "run_system w gs" c cl C] assms
  by (intro run_system_step) (simp_all add: run_system_def)

lemma run_subscribed: "broker_read_once ProcessMessage 1 run_w4 = Some (True, run_w5)"
proof -
  let ?r = "run_w4\<lparr>conns := (conns run_w4)(1 \<mapsto> \<lparr>incoming = [], sent = [0x20, 2, 1, 0], up = True\<rparr>)\<rparr>"
  let ?u = "count (\<lambda>s. s\<lparr>BytesRecv := BytesRecv s + 2, MsgRecv := MsgRecv s + 1\<rparr>) ?r"
  have r: "client_ReadPacket 1 run_w4 = Some (Some (SubscribeP run_subscribe), None, ?r)"
    by (subst read_world [where k = 1 and rest = "[]" and p = "Some (SubscribeP run_subscribe)" and e = None and
        cl = "run_client 1 ''s'' []" and cn = "\<lparr>incoming = subscribe_input, sent = [0x20, 2, 1, 0], up = True\<rparr>"])
      (simp_all add: run_client_def run_reads)
  obtain q where q: "Write (suback_for 1) = Some ([0x90, 2, 0, 1], q)" "Size q = 4"
    using ack_bytes(4) [of 1] by (auto simp: BigEndian_PutUint16_def)
  have at: "attached ?u 1 1 \<lparr>incoming = [], sent = [0x20, 2, 1, 0], up = True\<rparr>"
    by (simp add: attached_def run_client_def)
  have "Size (SubscribeP run_subscribe) = 2"
    by (simp add: run_subscribe_def run_header_def new_packet_defs FixedHeader_Size_def)
  with WritePacket_world [OF at q(1)] have "ProcessMessage 1 (SubscribeP run_subscribe) ?r = Some run_w5"
    using run_trie_ops
    by (simp add: ProcessMessage_def ProcessSubscribe_def q(2) wrote_def Let_def
        GetId_eq AddTopic_eq set_client_def run_client_def run_w5_def count_sent_def)
      (simp add: count_def)
  then show ?thesis by (simp add: broker_read_once_def r)
qed

definition run_log :: "(cref \<times> stage) list" where
  "run_log = [(0, Reading), (1, Selecting), (1, Reading), (1, Selecting), (1, Connecting), (0, Selecting), (0, Connecting)]"

lemma run_reachable5: "reachable C (run_system run_w5 run_log)"
proof -
  from run_select [OF run_reachable4, of 1 "run_client 1 ''s'' []"]
  have "reachable C (run_system run_w4 [(1, Reading), (1, Selecting), (1, Connecting), (0, Selecting), (0, Connecting)])"
    by (simp add: run_stages_def run_client_def)
  from run_read_step [OF this _ _ run_subscribed]
  have "reachable C (run_system run_w5
      [(1, Selecting), (1, Reading), (1, Selecting), (1, Connecting), (0, Selecting), (0, Connecting)])"
    by (simp add: run_stages_def is_client_def run_client_def)
  from run_select [OF this, of 0 "run_client 0 ''p'' []"] show ?thesis
    by (simp add: run_stages_def run_client_def run_log_def)
qed

lemma run_good: "good_world run_w5"
  using reachable_good [OF run_reachable5] by (simp add: good_system_def)

lemma run_read:
  "client_ReadPacket 0 run_w5 = Some (Some (PublishP run_publish), None, run_w5\<lparr>conns :=
     (conns run_w5)(0 \<mapsto> \<lparr>incoming = [], sent = [0x20, 2, 1, 0], up = True\<rparr>)\<rparr>)"
  by (subst read_world [where k = 0 and rest = "[]" and p = "Some (PublishP run_publish)" and e = None and
      cl = "run_client 0 ''p'' []" and cn = "\<lparr>incoming = publish_input, sent = [0x20, 2, 1, 0], up = True\<rparr>"])
    (simp_all add: run_client_def run_reads)

text \<open>The read of the publisher: its message is acknowledged, forwarded and retained.\<close>

lemma run_published:
  "\<exists>v. broker_read_once ProcessMessage 0 run_w5 = Some (True, v) \<and>
    ProcessMessage 0 (PublishP run_publish) (run_w5\<lparr>conns :=
      (conns run_w5)(0 \<mapsto> \<lparr>incoming = [], sent = [0x20, 2, 1, 0], up = True\<rparr>)\<rparr>) = Some v \<and>
    qos2Msgs v = [(7, 100)] \<and> timers v = [120] \<and> clock v = 100 \<and> heap v = heap run_w5 \<and>
    retained_topics (brokerTopics v) = {''a/b''}"
proof -
  let ?r = "run_w5\<lparr>conns := (conns run_w5)(0 \<mapsto> \<lparr>incoming = [], sent = [0x20, 2, 1, 0], up = True\<rparr>)\<rparr>"
  let ?u = "count (\<lambda>s. s\<lparr>BytesRecv := BytesRecv s + word_of_int (Size (PublishP run_publish)), MsgRecv := MsgRecv s + 1\<rparr>) ?r"
  have rd: "reads 0 run_w5 ?r" using run_read by (auto simp: reads_def)
  have "ProcessMessage 0 (PublishP run_publish) ?r \<noteq> None"
  proof (rule ProcessMessage_defined)
    show "good_world ?r" by (rule reads_good [OF rd run_good])
    show "is_client BrokerClient ?r 0" by (simp add: is_client_def run_client_def)
    show "named_packet (PublishP run_publish)" using run_names by simp
  qed (simp add: Write_total')
  then obtain v where v: "ProcessMessage 0 (PublishP run_publish) ?r = Some v" by auto
  let ?cn = "\<lparr>incoming = [], sent = [0x20, 2, 1, 0], up = True\<rparr> :: Conn"
  have at: "attached ?u 0 0 ?cn" by (simp add: attached_def run_client_def)
  have "map_of (qos2Msgs ?u) (pub_MessageID run_publish) = None" "maxQos2Msgs ?u = 0" by simp_all
  from publish_qos2 [OF _ at this] v have f: "forward run_publish (count_sent 4 (?u\<lparr>
      qos2Msgs := go_store 7 (clock ?u) (qos2Msgs ?u), timers := timers ?u @ [clock ?u + Qos2Timeout],
      conns := (conns ?u)(0 \<mapsto> wrote ([0x50, 2] @ BigEndian_PutUint16 7) ?cn)\<rparr>)) = Some v"
    by (simp add: ProcessMessage_def)
  have none: "retained_topics run_trie = {}"
    using Subscribe_retained [OF wf_NewTrie run_trie_ops(1)]
    by (simp add: retained_topics_def retained_packet_def NewTrie_def tree_simps)
  have wf: "wf_trie run_trie" using run_trie_good by (simp add: good_trie_def)
  note fe = forward_effect [OF f]
  have "same_table (count_sent 4 (?u\<lparr>
      qos2Msgs := go_store 7 (clock ?u) (qos2Msgs ?u), timers := timers ?u @ [clock ?u + Qos2Timeout],
      conns := (conns ?u)(0 \<mapsto> wrote ([0x50, 2] @ BigEndian_PutUint16 7) ?cn)\<rparr>)) v"
    by (rule fe(1)) (simp add: wf count_sent_def)
  then have "qos2Msgs v = [(7, 100)] \<and> timers v = [120] \<and> clock v = 100"
    by (simp add: same_table_def count_sent_def Qos2Timeout_def)
  moreover have "heap v = heap run_w5" using fe(2) wf by (simp add: count_sent_def)
  moreover have "retained_topics (brokerTopics v) = {''a/b''}"
    using fe(3) wf none by (simp add: count_sent_def)
  ultimately show ?thesis using v run_read by (simp add: broker_read_once_def)
qed

lemma run_reachable6:
  assumes "broker_read_once ProcessMessage 0 run_w5 = Some (True, v)"
  shows "reachable C (run_system v ((0, Selecting) # run_log))"
  by (rule run_read_step [OF run_reachable5 _ _ assms])
    (simp_all add: run_stages_def run_log_def is_client_def run_client_def)

end
