(* ===== verification/Session_Properties.thy ===== *)
theory Session_Properties
  imports Sample_Run
begin

text \<open>
  The properties of a client's session with the broker, each with a witness in the world \<open>run_w5\<close> of the
  sample run: \<open>p\<close> (client 0) and \<open>s\<close> (client 1) are connected, \<open>s\<close> is subscribed to \<open>a/+\<close>.
\<close>

text \<open>
  C1. A published message is delivered once per identity, in every good world. Publishing on a topic one can publish
  to returns. Of the subscribers the storage of the broker yields for the topic (\<open>receivers\<close>) one is selected for each
  identity among them, and the same of the peers; a client with an open connection gets exactly one copy of the packet if it
  is selected, however many filters it holds, and nothing otherwise. So a client whose identity no other receiver uses gets its
  copy. The receivers are the holders of the filters that match the topic if the two copies of every filter
  that ends in \<open>#\<close> agree, which an \<open>Unsubscribe\<close> of such a filter breaks.
\<close>

theorem publish_delivered_once:
  assumes "good_world w" "Write p = Some (bs, p')" "publishable topic"
  shows "\<exists>q v sel. DoPublish topic p w = Some (q, v) \<and>
    (\<forall>K. sel K \<subseteq> receivers (topics_of K w) topic \<and> inj_on (\<lambda>d. GetId d w) (sel K) \<and>
      (\<lambda>d. GetId d w) ` sel K = (\<lambda>d. GetId d w) ` receivers (topics_of K w) topic \<and>
      (synced (topics_of K w) \<longrightarrow> receivers (topics_of K w) topic =
        {c. \<exists>g j. filter_match g topic \<and> subscription (topics_of K w) g j = Some c}) \<and>
      (\<forall>c cl k cn. heap w c = Some cl \<longrightarrow> kind cl = K \<longrightarrow> attached w c k cn \<longrightarrow>
         attached v c k (wrote (if c \<in> sel K then bs else []) cn)))"
proof -
  have "levels topic \<noteq> []" using assms(3) by (simp add: publishable_def)
  then obtain q v where v: "DoPublish topic p w = Some (q, v)"
    using DoPublish_defined [OF assms(1), of topic p] assms(2) by auto
  have "wf_trie (topics_of K w)" for K using good_wf [OF assms(1)] by (cases K) (simp_all add: topics_of_def)
  note synced = receivers_synced [OF this _ assms(3)]
  from DoPublish_selected [OF assms(1) v assms(2,3)] obtain sel where
    sel: "\<forall>K. sel K \<subseteq> receivers (topics_of K w) topic \<and> inj_on (\<lambda>d. GetId d w) (sel K) \<and>
      (\<lambda>d. GetId d w) ` sel K = (\<lambda>d. GetId d w) ` receivers (topics_of K w) topic \<and>
      (\<forall>c cl k cn. heap w c = Some cl \<longrightarrow> kind cl = K \<longrightarrow> attached w c k cn \<longrightarrow>
         attached v c k (wrote (if c \<in> sel K then bs else []) cn))" ..
  show ?thesis
  proof (rule exI [of _ q], rule exI [of _ v], rule exI [of _ sel], intro conjI allI)
    fix K
    note sK = spec [OF sel, of K]
    show "sel K \<subseteq> receivers (topics_of K w) topic" "inj_on (\<lambda>d. GetId d w) (sel K)"
      "(\<lambda>d. GetId d w) ` sel K = (\<lambda>d. GetId d w) ` receivers (topics_of K w) topic" using sK by simp_all
    show "synced (topics_of K w) \<longrightarrow> receivers (topics_of K w) topic =
      {c. \<exists>g j. filter_match g topic \<and> subscription (topics_of K w) g j = Some c}" using synced by simp
    show "heap w c = Some cl \<longrightarrow> kind cl = K \<longrightarrow> attached w c k cn \<longrightarrow>
      attached v c k (wrote (if c \<in> sel K then bs else []) cn)" for c cl k cn using sK by blast
  qed (rule v)
qed

lemma run_heap: "attached run_w5 1 1 \<lparr>incoming = [], sent = [0x20, 2, 1, 0, 0x90, 2, 0, 1], up = True\<rparr>"
  "attached run_w5 0 0 \<lparr>incoming = publish_input, sent = [0x20, 2, 1, 0], up = True\<rparr>"
  by (simp_all add: attached_def run_client_def)

lemma run_write: "\<exists>q. Write (PublishP run_publish) = Some (publish_input, q)"
proof -
  have "map_option fst (Write (PublishP run_publish)) = Some publish_input" by code_simp
  then show ?thesis by (cases "Write (PublishP run_publish)") (auto simp del: Write.simps)
qed

lemma run_receivers: "receivers (topics_of BrokerClient run_w5) ''a/b'' = {1}"
proof -
  have "receivers run_trie ''a/b'' = {c. \<exists>g j. filter_match g ''a/b'' \<and> subscription run_trie g j = Some c}"
    using receivers_synced [of run_trie "''a/b''"] run_trie_good run_names by (simp add: good_trie_def)
  also have "\<dots> = {1}" using run_names by (auto simp: run_trie_subscription)
  finally show ?thesis by (simp add: topics_of_def)
qed

theorem publish_delivered_once_witness:
  "\<exists>q v. DoPublish ''a/b'' (PublishP run_publish) run_w5 = Some (q, v) \<and>
    attached v 1 1 \<lparr>incoming = [], sent = [0x20, 2, 1, 0, 0x90, 2, 0, 1] @ publish_input, up = True\<rparr>"
proof -
  obtain p' where p': "Write (PublishP run_publish) = Some (publish_input, p')" using run_write by blast
  have "publishable ''a/b''" using run_names by simp
  from publish_delivered_once [OF run_good p' this] obtain q v sel where
    v: "DoPublish ''a/b'' (PublishP run_publish) run_w5 = Some (q, v)" and
    all: "\<forall>K. sel K \<subseteq> receivers (topics_of K run_w5) ''a/b'' \<and> inj_on (\<lambda>d. GetId d run_w5) (sel K) \<and>
      (\<lambda>d. GetId d run_w5) ` sel K = (\<lambda>d. GetId d run_w5) ` receivers (topics_of K run_w5) ''a/b'' \<and>
      (synced (topics_of K run_w5) \<longrightarrow> receivers (topics_of K run_w5) ''a/b'' =
        {c. \<exists>g j. filter_match g ''a/b'' \<and> subscription (topics_of K run_w5) g j = Some c}) \<and>
      (\<forall>c cl k cn. heap run_w5 c = Some cl \<longrightarrow> kind cl = K \<longrightarrow> attached run_w5 c k cn \<longrightarrow>
        attached v c k (wrote (if c \<in> sel K then publish_input else []) cn))"
    by (elim exE conjE) (rule that; assumption)
  note b = all [rule_format, of BrokerClient, unfolded run_receivers]
  then have sel: "sel BrokerClient \<subseteq> {1}" "(\<lambda>d. GetId d run_w5) ` sel BrokerClient = (\<lambda>d. GetId d run_w5) ` {1}" and
    to: "\<forall>c cl k cn. heap run_w5 c = Some cl \<longrightarrow> kind cl = BrokerClient \<longrightarrow> attached run_w5 c k cn \<longrightarrow>
      attached v c k (wrote (if c \<in> sel BrokerClient then publish_input else []) cn)"
    by simp_all
  have "1 \<in> sel BrokerClient" using sel by (cases "sel BrokerClient = {}") auto
  moreover have "heap run_w5 1 = Some (run_client 1 ''s'' [(''a/+'', ''s'')])" by simp
  ultimately have "attached v 1 1 (wrote publish_input
      \<lparr>incoming = [], sent = [0x20, 2, 1, 0, 0x90, 2, 0, 1], up = True\<rparr>)"
    using to run_heap(1) by (fastforce simp: run_client_def)
  with v show ?thesis by (simp add: wrote_def)
qed

text \<open>
  C15. Subscribing registers the client for every topic of the packet and no one else, and answers with a
  SUBACK that carries the packet's identifier and no return codes, followed by the retained packets of
  each topic in turn; the client remembers the topics.
\<close>

theorem subscribe_registers:
  assumes "good_world w" "heap w c = Some cl" "kind cl = BrokerClient" "attached w c k cn"
    "\<forall>f \<in> set (sub_Topics p). levels f \<noteq> []" "length (sub_Topics p) \<le> length (Qoss p)"
  shows "\<exists>v rss. ProcessSubscribe c p w = Some v \<and>
    (\<forall>g j. subscription (brokerTopics v) g j =
      (if g \<in> set (sub_Topics p) \<and> j = client_id cl then Some c else subscription (brokerTopics w) g j)) \<and>
    topic_names v c = set (sub_Topics p) \<union> topic_names w c \<and>
    list_all2 (\<lambda>f rs. set rs = retained_by (brokerTopics w) f) (sub_Topics p) rss \<and>
    attached v c k (wrote ([0x90, 2] @ BigEndian_PutUint16 (sub_MessageID p) @
      concat (map publish_bytes (concat rss))) cn)"
proof -
  have "Write (SubscribeP p) \<noteq> None"
    using subscribe_topics_total [of "sub_Topics p" "Qoss p"] assms(6) by (auto simp: Write_eqs Let_def)
  moreover have "is_client BrokerClient w c" using assms(2,3) by (simp add: is_client_def)
  ultimately obtain v where v: "ProcessSubscribe c p w = Some v"
    using ProcessSubscribe_defined [OF assms(1) _ assms(5)] by auto
  with ProcessSubscribe_effect [OF v assms(1-3)] assms(4) show ?thesis by blast
qed

theorem subscribe_registers_witness:
  "\<exists>v. ProcessSubscribe 0 run_subscribe run_w5 = Some v \<and>
    subscription (brokerTopics v) ''a/+'' ''p'' = Some 0 \<and> subscription (brokerTopics v) ''a/+'' ''s'' = Some 1 \<and>
    ''a/+'' \<in> topic_names v 0"
proof -
  have "heap run_w5 0 = Some (run_client 0 ''p'' [])" "kind (run_client 0 ''p'' []) = BrokerClient"
    "\<forall>f \<in> set (sub_Topics run_subscribe). levels f \<noteq> []"
    "length (sub_Topics run_subscribe) \<le> length (Qoss run_subscribe)"
    using run_names by (simp_all add: run_client_def) (simp add: run_subscribe_def)
  from subscribe_registers [OF run_good this(1,2) run_heap(2) this(3,4)] show ?thesis
    by (auto simp: run_trie_subscription run_client_def)
qed

text \<open>
  C21. A publisher is answered before its message goes out: PUBACK for QoS 1, PUBREC for QoS 2, nothing for
  QoS 0, with the packet's identifier; then the message is forwarded and, if asked, retained. A QoS 2
  message whose identifier is in the table is neither answered nor forwarded.
\<close>

theorem publish_acknowledged:
  assumes "attached w c k cn" "maxQos2Msgs w = 0"
  shows "ProcessPublish c p w =
    (if Qos p = 0 then forward p w
     else if Qos p = 1 then forward p (count_sent 4 (w\<lparr>conns := (conns w)(k \<mapsto>
       wrote ([0x40, 2] @ BigEndian_PutUint16 (pub_MessageID p)) cn)\<rparr>))
     else if Qos p = 2 \<and> map_of (qos2Msgs w) (pub_MessageID p) = None then forward p (count_sent 4 (w\<lparr>
       qos2Msgs := go_store (pub_MessageID p) (clock w) (qos2Msgs w), timers := timers w @ [clock w + Qos2Timeout],
       conns := (conns w)(k \<mapsto> wrote ([0x50, 2] @ BigEndian_PutUint16 (pub_MessageID p)) cn)\<rparr>))
     else Some w)"
proof -
  have "Qos p \<noteq> 0 \<Longrightarrow> Qos p \<noteq> 1 \<Longrightarrow> Qos p \<noteq> 2 \<Longrightarrow> ProcessPublish c p w = Some w"
    by (simp add: ProcessPublish_def)
  with publish_qos0 [of p c w] publish_qos1 [OF _ assms(1), of p] publish_qos2 [OF _ assms(1) _ assms(2), of p]
    publish_qos2_again [of p w c] show ?thesis
    by (cases "map_of (qos2Msgs w) (pub_MessageID p)") (simp_all, blast)
qed

theorem publish_acknowledged_witness:
  "ProcessPublish 0 run_publish run_w5 = forward run_publish (count_sent 4 (run_w5\<lparr>
     qos2Msgs := [(7, 100)], timers := [120],
     conns := (conns run_w5)(0 \<mapsto> \<lparr>incoming = publish_input, sent = [0x20, 2, 1, 0, 0x50, 2, 0, 7], up = True\<rparr>)\<rparr>))"
proof -
  have "BigEndian_PutUint16 7 = [0, 7]" by code_simp
  with publish_acknowledged [OF run_heap(2), of run_publish] show ?thesis
    by (simp add: Qos2Timeout_def wrote_def)
qed

text \<open>
  C16. A CONNECT takes over the identity. The client that held it before is closed and its connection shut
  down, the new one is answered with a CONNACK that carries the verdict of \<open>Validate\<close> and, as the session
  flag, its own clean-session flag, and is registered and counted whatever the verdict is; its last
  will is remembered. The subscriptions in the storage stay with the old client.
\<close>

theorem connect_takes_over:
  assumes "good_world w" "heap w c = Some cl" "kind cl = BrokerClient" "attached w c k cn"
    "map_of (clients w) (ClientIdentifier cp) \<noteq> Some c"
  shows "\<exists>v. ProcessConnect c cp w = Some v \<and>
    attached v c k (wrote [0x20, 2, if CleanSession cp then 1 else 0, Validate cp] cn) \<and>
    heap v c = Some (cl\<lparr>client_id := ClientIdentifier cp, will := if WillFlag cp then Some (will_of cp) else will cl\<rparr>) \<and>
    clients v = go_store (ClientIdentifier cp) c (clients w) \<and> brokerTopics v = brokerTopics w \<and>
    ClientsTotal (server_state v) = ClientsTotal (server_state w) + 1 \<and>
    ClientsConnected (server_state v) = ClientsConnected (server_state w) + 1 \<and>
    (\<forall>old ocl. map_of (clients w) (ClientIdentifier cp) = Some old \<longrightarrow> heap w old = Some ocl \<longrightarrow>
       closed v old \<and> shut_down v (conn ocl))"
  using ProcessConnect_effect [OF assms] .

text \<open>A third client, which has just been accepted.\<close>

definition run_w7 :: World where
  "run_w7 = snd (NewClient BrokerClient 2 TypTcp (open_conn 2 [] run_w5))"

lemma run_w7:
  "good_world run_w7" "attached run_w7 2 2 \<lparr>incoming = [], sent = [], up = True\<rparr>"
  "heap run_w7 2 = Some (run_client 2 [] [])" "heap run_w7 1 = heap run_w5 1" "clients run_w7 = clients run_w5"
  "brokerTopics run_w7 = run_trie"
proof -
  have new: "NewClient BrokerClient 2 TypTcp (open_conn 2 [] run_w5) = (2, run_w7)"
    by (simp add: run_w7_def NewClient_eq open_conn_def Let_def)
  show "good_world run_w7" by (rule NewClient_good(1) [OF new _ run_good]) simp
  show "attached run_w7 2 2 \<lparr>incoming = [], sent = [], up = True\<rparr>" "heap run_w7 2 = Some (run_client 2 [] [])"
    "heap run_w7 1 = heap run_w5 1" "clients run_w7 = clients run_w5" "brokerTopics run_w7 = run_trie"
    by (simp_all add: run_w7_def NewClient_eq open_conn_def Let_def set_client_def attached_def run_client_def)
qed

theorem connect_takes_over_witness:
  "\<exists>v. ProcessConnect 2 (run_connect ''s'') run_w7 = Some v \<and> closed v 1 \<and> shut_down v (Some 1) \<and>
    map_of (clients v) ''s'' = Some 2 \<and> subscription (brokerTopics v) ''a/+'' ''s'' = Some 1"
proof -
  have "kind (run_client 2 [] []) = BrokerClient" "map_of (clients run_w7) (ClientIdentifier (run_connect ''s'')) \<noteq> Some 2"
    by (simp_all add: run_client_def run_w7(5))
  from connect_takes_over [OF run_w7(1,3) this(1) run_w7(2) this(2)] show ?thesis
    by (auto simp: run_w7 run_client_def run_trie_subscription)
qed

text \<open>
  C14. A disconnect ends the session and removes its subscriptions by identity: the client and its
  connection are closed, and for every topic the client remembers that \<open>Unsubscribe\<close> can find the entry of its
  identity is gone, whichever client it belongs to; all other entries stay. So a client that has taken over the identity
  loses its subscriptions when the goroutine of the client it replaced comes to its end. Of the copies in the tree
  only the one at the end of the filter's path goes, so that a filter that ends in \<open>#\<close> leaves the copy at the level above.
\<close>

theorem disconnect_unsubscribes:
  assumes "good_world w" "heap w c = Some cl"
  shows "\<exists>v. ProcessDisconnect c w = Some v \<and> closed v c \<and> shut_down v (conn cl) \<and>
    (\<forall>g j. subscription (brokerTopics v) g j =
      (if g \<in> topic_names w c \<and> j = client_id cl \<and> findable g then None else subscription (brokerTopics w) g j)) \<and>
    (\<forall>p g j. copy_at (brokerTopics v) p g j =
      (if g \<in> topic_names w c \<and> j = client_id cl \<and> findable g \<and> p = sub_path (levels g) then None
       else copy_at (brokerTopics w) p g j))"
  using ProcessDisconnect_effect [OF assms] .

theorem disconnect_unsubscribes_witness:
  "\<exists>t v. Trie_Subscribe ''a/+'' ''s'' 2 run_trie = Some (t, True) \<and>
    subscription t ''a/+'' ''s'' = Some 2 \<and>
    ProcessDisconnect 1 (run_w7\<lparr>brokerTopics := t\<rparr>) = Some v \<and>
    subscription (brokerTopics v) ''a/+'' ''s'' = None"
proof -
  have wf: "wf_trie run_trie" using run_trie_good by (simp add: good_trie_def)
  from Subscribe_law [OF wf, of "''a/+''" "''s''" 2] obtain t where
    t: "Trie_Subscribe ''a/+'' ''s'' 2 run_trie = Some (t, True)" "subscription t ''a/+'' ''s'' = Some 2"
    by (auto simp: run_trie_subscription)
  have bc: "is_client BrokerClient run_w7 2" using run_w7(3) by (simp add: is_client_def run_client_def)
  have good: "good_world (run_w7\<lparr>brokerTopics := t\<rparr>)"
    by (rule act_good [OF subs]) (use t(1) run_w7(1,6) bc in auto)
  have h: "heap (run_w7\<lparr>brokerTopics := t\<rparr>) 1 = Some (run_client 1 ''s'' [(''a/+'', ''s'')])"
    by (simp add: run_w7(4))
  then have n: "''a/+'' \<in> topic_names (run_w7\<lparr>brokerTopics := t\<rparr>) 1" "client_id (run_client 1 ''s'' [(''a/+'', ''s'')]) = ''s''"
    by (simp_all add: topic_names_def run_client_def)
  have "findable ''a/+''" using run_names clean_findable by blast
  with disconnect_unsubscribes [OF good h] n have "\<exists>v. ProcessDisconnect 1 (run_w7\<lparr>brokerTopics := t\<rparr>) = Some v \<and>
      subscription (brokerTopics v) ''a/+'' ''s'' = None" by auto
  with t show ?thesis by blast
qed

text \<open>
  C23. The last will is published exactly when the session does not end with a DISCONNECT. If the next read
  of an open client fails, the read loop publishes the will the client left, if any, disconnects the
  client and returns; if it yields a DISCONNECT, the loop disconnects the client and returns without
  publishing the will.
\<close>

theorem last_will:
  assumes "heap w c = Some cl" "\<not> client_done cl" "client_ReadPacket c w = Some (p, err, v)"
  shows "(err \<noteq> None \<longrightarrow> broker_ReadLoop ProcessMessage c w =
      Some ((case will cl of None \<Rightarrow> Some v | Some m \<Rightarrow> ProcessMessage c (PublishP m) v) \<bind>
        ProcessMessage c disconnect_packet)) \<and>
    (\<forall>h. err = None \<and> p = Some (DisconnectP h) \<longrightarrow>
      broker_ReadLoop ProcessMessage c w = Some (ProcessMessage c (DisconnectP h) v))"
  using ReadLoop_error [OF assms(1,2)] ReadLoop_disconnect [of w c _ v] assms by (auto simp: closed_def)

theorem last_will_witness:
  "\<exists>e v. client_ReadPacket 1 run_w5 = Some (None, Some e, v) \<and>
    broker_ReadLoop ProcessMessage 1 run_w5 = Some (ProcessMessage 1 disconnect_packet v)"
proof -
  have eof: "ReadPacket [] = (None, Some EOF, [])" by code_simp
  have h: "heap run_w5 1 = Some (run_client 1 ''s'' [(''a/+'', ''s'')])" "\<not> client_done (run_client 1 ''s'' [(''a/+'', ''s'')])"
    by (simp_all add: run_client_def)
  have r: "client_ReadPacket 1 run_w5 = Some (None, Some EOF, run_w5\<lparr>conns := (conns run_w5)(1 \<mapsto>
      \<lparr>incoming = [], sent = [0x20, 2, 1, 0, 0x90, 2, 0, 1], up = True\<rparr>)\<rparr>)"
    by (subst read_world [OF h(1), where k = 1 and p = None and e = "Some EOF" and rest = "[]" and
        cn = "\<lparr>incoming = [], sent = [0x20, 2, 1, 0, 0x90, 2, 0, 1], up = True\<rparr>"])
      (simp_all add: run_client_def eof)
  from last_will [OF h r] r show ?thesis by (simp add: run_client_def)
qed

end
