(* ===== verification/System_Properties.thy ===== *)
theory System_Properties
  imports Sample_Run
begin

text \<open>
  The properties of the running server: its invariants, what can stop it, that its loops end, and the QoS 2
  table. The witnesses are on the sample run.
\<close>

section \<open>Types\<close>

text \<open>
  The type assertions hold. In every state the server can reach, whatever a topic storage returns
  as a subscriber and whatever the maps of clients and peers hold is a client object of the package
  that asserts it, so \<open>sub.(ifs.Client)\<close>, \<open>client.(*Client)\<close> and \<open>exist.(*Client)\<close> never panic; and no two
  clients share a connection.
\<close>

theorem type_assertions_hold:
  assumes "reachable C s"
  shows "(\<forall>topic cs. Trie_Subscribers topic (brokerTopics (world s)) = Some cs \<longrightarrow>
      list_all (is_client BrokerClient (world s)) cs) \<and>
    (\<forall>topic cs. Trie_Subscribers topic (clusterTopics (world s)) = Some cs \<longrightarrow>
      list_all (is_client ClusterClient (world s)) cs) \<and>
    (\<forall>i c. map_of (clients (world s)) i = Some c \<longrightarrow> is_client BrokerClient (world s) c) \<and>
    (\<forall>i c. map_of (clusters (world s)) i = Some c \<longrightarrow> is_client ClusterClient (world s) c) \<and>
    (\<forall>c d cl dl k. heap (world s) c = Some cl \<longrightarrow> heap (world s) d = Some dl \<longrightarrow> conn cl = Some k \<longrightarrow>
      conn dl = Some k \<longrightarrow> c = d)"
proof -
  have g: "good_world (world s)" using reachable_good [OF assms] by (simp add: good_system_def)
  then have "heap_ok (world s)" by (simp add: good_world_def)
  then show ?thesis
    using held_by_Subscribers [OF good_worldD(1) [OF g]] held_by_Subscribers [OF good_worldD(2) [OF g]]
      good_worldD(3,4) [OF g]
    unfolding list_all_iff heap_ok_def by blast
qed

theorem type_assertions_hold_witness:
  "Trie_Subscribers ''a/b'' (brokerTopics run_w5) = Some [1] \<and> is_client BrokerClient run_w5 1 \<and>
   map_of (clients run_w5) ''p'' = Some 0 \<and> is_client BrokerClient run_w5 0"
proof -
  note t = type_assertions_hold [OF run_reachable5 [of zero_Config], unfolded run_system_simps]
  have "list_all (is_client BrokerClient run_w5) [1]"
    using t [THEN conjunct1, rule_format, of "''a/b''" "[1]"] run_trie_ops(3) by simp
  moreover have "is_client BrokerClient run_w5 0" using t by simp
  ultimately show ?thesis using run_trie_ops(3) by simp
qed

section \<open>Panics\<close>

text \<open>
  C6. No panic. In every state the server can reach, the goroutine of a broker client gets through its next
  read, whatever the bytes are, as long as the topics of the packet and of the client's will have a
  level.
\<close>

theorem no_panic:
  assumes "reachable C s" "is_client BrokerClient (world s) c"
    and "\<And>p v. client_ReadPacket c (world s) = Some (Some p, None, v) \<Longrightarrow> named_packet p"
    and "\<And>cl p. heap (world s) c = Some cl \<Longrightarrow> will cl = Some p \<Longrightarrow> levels (TopicName p) \<noteq> []"
  shows "\<exists>go v. broker_read_once ProcessMessage c (world s) = Some (go, v)"
proof -
  have g: "good_world (world s)" using reachable_good [OF assms(1)] by (simp add: good_system_def)
  from read_once_defined [OF g assms(2-4)] show ?thesis by auto
qed

theorem no_panic_witness:
  "reachable zero_Config (run_system run_w5 run_log) \<and> (\<exists>go v. broker_read_once ProcessMessage 0 run_w5 = Some (go, v))"
proof -
  have "\<exists>go v. broker_read_once ProcessMessage 0 (world (run_system run_w5 run_log)) = Some (go, v)"
    by (rule no_panic [OF run_reachable5 [of zero_Config]])
      (use run_names in \<open>auto simp: is_client_def run_client_def run_read split: if_splits\<close>)
  with run_reachable5 show ?thesis by simp
qed

text \<open>
  C28. A blank topic stops the server. A PUBLISH of QoS 0 that asks to be retained and whose topic name has no
  level, such as the empty one, panics the goroutine that reads it, whoever sends it: with a payload in every state of the server,
  without one in every state in which the tree of the storage has a branch. Nothing recovers, so the process ends.
\<close>

theorem blank_publish_stops_server:
  assumes "levels (TopicName p) = []" "Retain p" "Qos p = 0"
    "Payload p \<noteq> [] \<or> branches (root (brokerTopics v)) \<noteq> []"
    "client_ReadPacket c w = Some (Some (PublishP p), None, v)"
  shows "broker_read_once ProcessMessage c w = None"
proof -
  have "forward p u = None" if u: "brokerTopics u = brokerTopics v" for u
  proof (rule ccontr)
    assume "forward p u \<noteq> None"
    then obtain q x where q: "DoPublish (TopicName p) (PublishP p) u = Some (q, x)"
      "process_retain (TopicName p) (as_publish q p) x \<noteq> None" by (auto simp: forward_def split: Option.bind_splits)
    have "only_wrote u x" using runsD [OF runs_DoPublish [OF subset_refl] q(1)] by (intro quiet_only_wrote) simp
    then have x: "brokerTopics x = brokerTopics v" using only_wroteD(1) u by metis
    have "content q = content (PublishP p)"
      using q(1) by (auto simp: DoPublish_def Let_def dest!: deliver_content split: Option.bind_splits)
    from content_publish [OF this] q(2) assms(2,4) show False
      by (auto simp: process_retain_def x retain_blank [OF assms(1)] split: Option.bind_splits)
  qed
  then have "forward p (count f v) = None" for f by (simp add: count_def)
  with assms(3) have "ProcessMessage c (PublishP p) v = None"
    by (simp add: ProcessMessage_def publish_qos0)
  with assms(5) show ?thesis by (simp add: broker_read_once_def)
qed

text \<open>Five bytes: a retained PUBLISH of one byte on the empty topic.\<close>

theorem blank_publish_stops_server_witness:
  "broker_read_once ProcessMessage 0 (run_w5\<lparr>conns := (conns run_w5)(0 \<mapsto>
     \<lparr>incoming = [0x31, 3, 0, 0, 0x78], sent = [], up = True\<rparr>)\<rparr>) = None"
proof -
  define p :: PublishPacket where
    "p = (new_PublishPacket (run_header 3 0 True 3))\<lparr>TopicName := [], Payload := [0x78]\<rparr>"
  have r: "ReadPacket [0x31, 3, 0, 0, 0x78] = (Some (PublishP p), None, [])" unfolding p_def by code_simp
  have l: "levels [] = []" by code_simp
  let ?w = "run_w5\<lparr>conns := (conns run_w5)(0 \<mapsto> \<lparr>incoming = [0x31, 3, 0, 0, 0x78], sent = [], up = True\<rparr>)\<rparr>"
  have "client_ReadPacket 0 ?w = Some (Some (PublishP p), None, ?w\<lparr>conns := (conns ?w)(0 \<mapsto>
      \<lparr>incoming = [0x31, 3, 0, 0, 0x78], sent = [], up = True\<rparr>\<lparr>incoming := []\<rparr>)\<rparr>)"
    by (rule read_world [where cl = "run_client 0 ''p'' []"]) (simp_all add: run_client_def r)
  from blank_publish_stops_server [OF _ _ _ _ this] l show ?thesis
    by (simp add: p_def run_header_def new_packet_defs)
qed

section \<open>The QoS 2 table\<close>

lemma qos2_recorded:
  assumes "ProcessMessage c (PublishP p) w = Some v" "Qos p = 2" "table_ok w"
  shows "map_of (qos2Msgs v) (pub_MessageID p) \<noteq> None"
proof -
  let ?u = "count (\<lambda>s. s\<lparr>BytesRecv := BytesRecv s + word_of_int (Size (PublishP p)), MsgRecv := MsgRecv s + 1\<rparr>) w"
  show ?thesis
  proof (cases "map_of (qos2Msgs w) (pub_MessageID p)")
    case (Some ts)
    with message_entry_stays [OF assms(1) _ Some] show ?thesis by simp
  next
    case None
    let ?x = "?u\<lparr>qos2Msgs := go_store (pub_MessageID p) (clock ?u) (qos2Msgs ?u), timers := timers ?u @ [clock ?u + Qos2Timeout]\<rparr>"
    have "saveQos2Msg (pub_MessageID p) ?u = (?x, None)"
      using None assms(3) by (intro save_new) (simp_all add: table_ok_def)
    with assms(1,2) have m: "WritePacket c (pubrec_for (pub_MessageID p)) ?x \<bind> (\<lambda>(err, _, w).
        if err \<noteq> None then Some w else DoPublish (TopicName p) (PublishP p) w \<bind>
          (\<lambda>(q, w). process_retain (TopicName p) (as_publish q p) w)) = Some v"
      by (simp add: ProcessMessage_def ProcessPublish_def Let_def)
    have "runs (\<lambda>w. w) (quiet \<union> {Retains (TopicName p)}) ?x (WritePacket c (pubrec_for (pub_MessageID p)) ?x \<bind> (\<lambda>(err, _, w).
        if err \<noteq> None then Some w else DoPublish (TopicName p) (PublishP p) w \<bind>
          (\<lambda>(q, w). process_retain (TopicName p) (as_publish q p) w)))"
      by (rule runs_bind3 [OF runs_WritePacket], blast, simp only: prod.case, rule runs_if, rule runs_Some, simp,
          rule runs_bind2 [OF runs_DoPublish], blast, simp only: prod.case, rule runs_retain, blast)
    from acts_entry_stays [OF runsD [OF this m], of "pub_MessageID p" "clock ?u"] show ?thesis
      by (auto simp: go_map_simps)
  qed
qed

text \<open>
  C10. At most once. After a QoS 2 message with an identifier was taken, every further QoS 2 message with this
  identifier, from any client, is neither answered nor forwarded, until a PUBREL with the identifier
  comes or the timer fires, whatever other packets are processed in between.
\<close>

theorem qos2_at_most_once:
  assumes "reachable C s" "ProcessMessage c (PublishP p) (world s) = Some w" "Qos p = 2"
    "run_messages ms w = Some w'" "\<forall>(d, q) \<in> set ms. \<forall>r. q = PubrelP r \<longrightarrow> pubrel_MessageID r \<noteq> pub_MessageID p"
    "Qos q = 2" "pub_MessageID q = pub_MessageID p"
  shows "ProcessMessage d (PublishP q) w' = Some (count (\<lambda>s. s\<lparr>BytesRecv := BytesRecv s + word_of_int (Size (PublishP q)),
    MsgRecv := MsgRecv s + 1\<rparr>) w')"
proof -
  obtain ts where "map_of (qos2Msgs w) (pub_MessageID p) = Some ts"
    using qos2_recorded [OF assms(2,3) reachable_table_ok [OF assms(1)]] by auto
  from run_entry_stays [OF assms(4,5) this] have "map_of (qos2Msgs w') (pub_MessageID q) \<noteq> None"
    using assms(7) by simp
  then show ?thesis
    using publish_qos2_again [OF assms(6)] by (simp add: ProcessMessage_def del: not_None_eq)
qed

text \<open>The publisher's message again, but this time from the subscriber, after a ping.\<close>

theorem qos2_at_most_once_witness:
  "\<exists>v v'. ProcessMessage 0 (PublishP run_publish) run_w5 = Some v \<and>
    run_messages [(0, PingreqP (run_header 12 0 False 0))] v = Some v' \<and>
    ProcessMessage 1 (PublishP run_publish) v' = Some (count (\<lambda>s. s\<lparr>BytesRecv := BytesRecv s + 2, MsgRecv := MsgRecv s + 1\<rparr>) v')"
proof -
  have b: "is_client BrokerClient run_w5 0" by (simp add: is_client_def run_client_def)
  have "ProcessMessage 0 (PublishP run_publish) run_w5 \<noteq> None"
    by (rule ProcessMessage_defined [OF run_good b]) (use run_names Write_total' in auto)
  then obtain v where v: "ProcessMessage 0 (PublishP run_publish) run_w5 = Some v" by auto
  note a = ProcessMessage_acts [OF v]
  have "good_world v" by (rule acts_good [OF a _ run_good]) auto
  moreover have "is_client BrokerClient v 0" using is_client_evolve [OF acts_evolve [OF a]] b by simp
  ultimately have "ProcessMessage 0 (PingreqP (run_header 12 0 False 0)) v \<noteq> None"
    by (rule ProcessMessage_defined) (simp_all add: Write_total' del: not_None_eq)
  then obtain v' where v': "run_messages [(0, PingreqP (run_header 12 0 False 0))] v = Some v'" by auto
  have "Size (PublishP run_publish) = 2"
    by (simp add: run_publish_def run_header_def new_packet_defs FixedHeader_Size_def)
  with qos2_at_most_once [OF run_reachable5 [of zero_Config] _ _ v', of 0 run_publish run_publish 1] v
  have "ProcessMessage 1 (PublishP run_publish) v' =
      Some (count (\<lambda>s. s\<lparr>BytesRecv := BytesRecv s + 2, MsgRecv := MsgRecv s + 1\<rparr>) v')" by simp
  with v v' show ?thesis by blast
qed

section \<open>Loops\<close>

text \<open>
  C18. Every handler returns. Whatever bytes arrive, the goroutine of a connection of a client ends, by
  returning or by a panic, and if it returns its client is closed; the goroutines of the connections
  from and to other nodes end as well.
\<close>

theorem handlers_return:
  "(\<exists>r. Handler k t w = Some r \<and> (\<forall>w'. r = Some w' \<longrightarrow> closed w' (next_cref w))) \<and>
   (\<exists>r. HandlerServer nodes k w = Some r) \<and>
   (\<exists>r. HandlerClient clusterName nodes k node w = Some r)"
proof (intro conjI)
  obtain w1 where n: "NewClient BrokerClient k t w = (next_cref w, w1)" by (simp add: NewClient_eq Let_def)
  show "\<exists>r. Handler k t w = Some r \<and> (\<forall>w'. r = Some w' \<longrightarrow> closed w' (next_cref w))"
  proof (cases "Handler_connect (next_cref w) w1")
    case (Some gv)
    obtain go v where gv: "gv = (go, v)" by (cases gv)
    have "\<not> go \<Longrightarrow> closed v (next_cref w)"
      using Some gv by (auto simp: Handler_connect_def client_Close_closed split: Option.bind_splits if_splits ControlPacket.splits)
    with Some gv broker.broker_loop [of "next_cref w" v] show ?thesis
      by (cases go) (auto simp: Handler_def n)
  qed (simp add: Handler_def n)
  show "\<exists>r. HandlerServer nodes k w = Some r"
    using peer.cluster_loop(1) by (auto simp: HandlerServer_def split: option.split prod.split)
  show "\<exists>r. HandlerClient clusterName nodes k node w = Some r"
    using peer.cluster_loop(1) by (auto simp: HandlerClient_def split: option.split prod.split)
qed

text \<open>A connection that sends nothing.\<close>

theorem handlers_return_witness:
  "\<exists>v. Handler 0 TypTcp (open_conn 0 [] (NewServer 100)) = Some (Some v) \<and> closed v 0"
proof -
  let ?w = "open_conn 0 [] (NewServer 100)"
  have n: "next_cref ?w = 0" by (simp add: open_conn_def NewServer_def)
  have "ReadPacket [] = (None, Some EOF, [])" by code_simp
  then have "\<exists>v. Handler 0 TypTcp ?w = Some (Some v)"
    by (simp add: Handler_def NewClient_eq Let_def Handler_connect_def client_ReadPacket_eq set_client_def open_conn_def
        client_Close_eq)
  with handlers_return [of 0 TypTcp ?w] n show ?thesis by auto
qed

section \<open>Counters\<close>

text \<open>
  C25. The published count of retained messages is right. Without a cluster, in every state the server can
  reach finitely many topics hold a retained packet and the counter is their number (as a 64-bit
  word).
\<close>

theorem retained_count:
  assumes "reachable C s" "\<not> cfg_IsCluster C"
  shows "finite (retained_topics (brokerTopics (world s))) \<and>
    RetainCount (server_state (world s)) = word_of_nat (card (retained_topics (brokerTopics (world s))))"
  using reachable_retain_counted [OF assms] by (simp add: retain_counted_def)

theorem retained_count_witness:
  "\<exists>v. broker_read_once ProcessMessage 0 run_w5 = Some (True, v) \<and> reachable zero_Config (run_system v ((0, Selecting) # run_log)) \<and>
    retained_topics (brokerTopics v) = {''a/b''} \<and> RetainCount (server_state v) = 1"
proof -
  from run_published obtain v where v: "broker_read_once ProcessMessage 0 run_w5 = Some (True, v)"
    "retained_topics (brokerTopics v) = {''a/b''}" by blast
  note r = run_reachable6 [OF v(1), of zero_Config]
  from retained_count [OF r] v r show ?thesis by (auto simp: zero_Config_def)
qed

text \<open>
  The number of connected clients is, in every state the server can reach, that of all clients that ever
  connected less those that were disconnected, in 64-bit arithmetic.
\<close>

theorem client_counters:
  assumes "reachable C s"
  shows "ClientsConnected (server_state (world s)) =
    ClientsTotal (server_state (world s)) - ClientsDisconnected (server_state (world s))"
  using reachable_clients_counted [OF assms] by (simp add: clients_counted_def)

theorem client_counters_witness:
  "ClientsConnected (server_state run_w5) = 2 \<and> ClientsTotal (server_state run_w5) - ClientsDisconnected (server_state run_w5) = 2"
proof -
  have "ClientsConnected (server_state run_w5) = 2"
    by (simp add: run_w5_def run_w4_def run_w3_def run_w2_def run_w1_def connected_def count_join_def count_sent_def count_def
        Let_def NewServer_def NewState_def)
  with client_counters [OF run_reachable5 [of zero_Config]] show ?thesis by simp
qed

end
