(* ===== verification/Qos2_Liveness.thy ===== *)
theory Qos2_Liveness
  imports Sample_Run
begin

text \<open>
  An identifier whose PUBREL never comes is freed in the end: in every run in which time passes and the
  timers of \<open>time.AfterFunc\<close> fire some time after they are due, its entry leaves the table.
\<close>

definition fires :: "int64 \<Rightarrow> System \<Rightarrow> System \<Rightarrow> bool" where
  "fires t s s' \<longleftrightarrow> t \<in> set (timers (world s)) \<and> t \<le>s clock (world s) \<and>
     s' = s\<lparr>world := expireQos2Msg ((world s)\<lparr>timers := remove1 t (timers (world s))\<rparr>)\<rparr>"

definition endless_run :: "Config \<Rightarrow> (nat \<Rightarrow> System) \<Rightarrow> bool" where
  "endless_run C r \<longleftrightarrow> reachable C (r 0) \<and> (\<forall>n. step C (r n) (r (Suc n)))"

definition timers_fire :: "(nat \<Rightarrow> System) \<Rightarrow> bool" where
  "timers_fire r \<longleftrightarrow> (\<forall>n t. t \<in> set (timers (world (r n))) \<and> t \<le>s clock (world (r n)) \<longrightarrow>
     (\<exists>m\<ge>n. fires t (r m) (r (Suc m))))"

lemma endless_reachable: "endless_run C r \<Longrightarrow> reachable C (r n)"
  by (induction n) (auto simp: endless_run_def intro: reachable.step)

lemma fires_step: "fires t s s' \<Longrightarrow> step C s s'"
  by (auto simp: fires_def intro: step.fire)

lemma fires_expires:
  assumes "fires t s s'" "t = ts + Qos2Timeout" "table_ok (world s)" "map_of (qos2Msgs (world s)) i = Some ts"
  shows "map_of (qos2Msgs (world s')) i \<noteq> Some ts"
proof
  assume "map_of (qos2Msgs (world s')) i = Some ts"
  then have "(i, ts) \<in> set (qos2Msgs (expireQos2Msg ((world s)\<lparr>timers := remove1 t (timers (world s))\<rparr>)))"
    using assms(1) by (auto simp: fires_def dest: map_of_SomeD)
  then have "\<not> Qos2Timeout \<le>s clock (world s) - ts" by (simp add: set_expire)
  moreover have "t \<le>s clock (world s)" using assms(1) by (simp add: fires_def)
  moreover have "sint (Qos2Timeout :: int64) = 20" by (simp add: Qos2Timeout_def)
  ultimately show False
    using table_ok_entry(4,5) [OF assms(3,4)] assms(2) by (simp add: word_sle_eq)
qed

text \<open>
  C17. An entry of the QoS 2 table does not stay for ever. In every endless run from a reachable state in which
  due timers fire sooner or later, once the clock passes the time of the entry by the timeout the entry is
  removed, even if no PUBREL with its identifier ever comes.
\<close>

theorem qos2_entry_expires:
  assumes "endless_run C r" "timers_fire r" "map_of (qos2Msgs (world (r n))) i = Some ts"
    "m \<ge> n" "ts + Qos2Timeout \<le>s clock (world (r m))"
  shows "\<exists>l\<ge>n. map_of (qos2Msgs (world (r l))) i \<noteq> Some ts"
proof (rule ccontr)
  assume "\<not> ?thesis"
  then have stays: "map_of (qos2Msgs (world (r l))) i = Some ts" if "l \<ge> n" for l using that by blast
  have ok: "table_ok (world (r l))" for l
    by (rule reachable_table_ok [OF endless_reachable [OF assms(1)]])
  have "ts + Qos2Timeout \<in> set (timers (world (r m)))" by (rule table_ok_entry(3) [OF ok stays [OF assms(4)]])
  with assms(2,5) obtain l where l: "l \<ge> m" "fires (ts + Qos2Timeout) (r l) (r (Suc l))"
    unfolding timers_fire_def by blast
  with assms(4) stays [of l] stays [of "Suc l"] fires_expires [OF l(2) refl ok] show False by simp
qed

text \<open>The sample run goes on: 20 seconds pass, the timer fires, and then nothing happens any more.\<close>

theorem qos2_entry_expires_witness:
  "\<exists>r. endless_run zero_Config r \<and> timers_fire r \<and> map_of (qos2Msgs (world (r 0))) 7 = Some 100 \<and>
    (\<exists>l\<ge>0. map_of (qos2Msgs (world (r l))) 7 \<noteq> Some 100)"
proof -
  from run_published obtain v where v: "broker_read_once ProcessMessage 0 run_w5 = Some (True, v)"
    "qos2Msgs v = [(7, 100)]" "timers v = [120]" "clock v = 100" by blast
  define s0 where "s0 = run_system v ((0, Selecting) # run_log)"
  define s1 where "s1 = s0\<lparr>world := (world s0)\<lparr>clock := 120\<rparr>\<rparr>"
  define s2 where "s2 = s1\<lparr>world := expireQos2Msg ((world s1)\<lparr>timers := []\<rparr>)\<rparr>"
  define r where "r n = (if n = 0 then s0 else if n = 1 then s1 else s2)" for n :: nat
  have times: "(100 :: int64) \<le>s 120" "(120 :: int64) \<le>s 120" "(120 :: int64) <s 2 ^ 62" "\<not> (120 :: int64) \<le>s 100"
    by code_simp+
  have f: "fires 120 s1 s2" using v(3) times by (simp add: fires_def s2_def s1_def s0_def)
  have "step zero_Config s0 s1" unfolding s1_def by (rule tick) (use v(4) times in \<open>simp_all add: s0_def\<close>)
  moreover have c: "clock (world s2) = 120" by (simp add: s2_def s1_def expireQos2Msg_def)
  have "step zero_Config s2 (s2\<lparr>world := (world s2)\<lparr>clock := clock (world s2)\<rparr>\<rparr>)"
    by (rule tick) (use times c in simp_all)
  then have "step zero_Config s2 s2" by simp
  ultimately have "endless_run zero_Config r"
    using run_reachable6 [OF v(1), of zero_Config] fires_step [OF f] by (simp add: endless_run_def r_def s0_def)
  moreover have "timers_fire r"
    unfolding timers_fire_def
  proof (intro allI impI, elim conjE)
    fix n t assume t: "t \<in> set (timers (world (r n)))" "t \<le>s clock (world (r n))"
    then have "n = 1 \<and> t = 120"
      using v(3,4) times by (auto simp: r_def s0_def s1_def s2_def expireQos2Msg_def split: if_splits)
    with f show "\<exists>m\<ge>n. fires t (r m) (r (Suc m))" by (intro exI [of _ 1]) (simp add: r_def)
  qed
  moreover have "map_of (qos2Msgs (world (r 0))) 7 = Some 100" using v(2) by (simp add: r_def s0_def)
  moreover have "(100 :: int64) + Qos2Timeout \<le>s clock (world (r 1))"
    using times by (simp add: r_def s1_def Qos2Timeout_def)
  ultimately show ?thesis using qos2_entry_expires [of zero_Config r 0 7 100 1] by blast
qed

end
