(* ===== verification/Cluster_Effects.thy ===== *)
theory Cluster_Effects
  imports Session_Effects
begin

text \<open>
  What the handlers do for other nodes of the cluster: the packets a node sends on, the subscriptions and
  messages it takes from a peer.
\<close>

section \<open>Clients an operation does not write to\<close>

lemma heap_only_attached:
  assumes "heap v c = Some cl'" "heap w c = Some cl" "conn cl' = conn cl" "\<And>d. d \<noteq> c \<Longrightarrow> heap v d = heap w d"
    "conns v = conns w"
  shows "attached v d k cn = attached w d k cn"
  using assms by (cases "d = c") (simp_all add: attached_def)

lemma set_client_attached:
  "heap w c = Some cl \<Longrightarrow> conn cl' = conn cl \<Longrightarrow> attached (set_client c cl' w) d k cn = attached w d k cn"
  by (rule heap_only_attached [of _ c cl' w cl]) (simp_all add: set_client_def)

lemma act_attached:
  "act l w v \<Longrightarrow> heap_ok w \<Longrightarrow> attached w d k cn \<Longrightarrow> l \<noteq> Send d \<Longrightarrow> l \<noteq> Shut d \<Longrightarrow> attached v d k cn"
proof (induction rule: act.induct)
  case (send c p w e p' w')
  then show ?case using write_other(1) [OF send(1,2,3)] by blast
next
  case (shut c w w')
  then obtain cl where cl: "heap w c = Some cl"
    "w' = set_client c (cl\<lparr>client_done := True, conn := None\<rparr>) (case conn cl of None \<Rightarrow> w | Some j \<Rightarrow> conn_Close j w)"
    by (auto simp: client_Close_eq Let_def split: Option.bind_splits)
  have "conn cl \<noteq> Some k" using shut(2-5) cl(1) by (auto simp: attached_def heap_ok_def)
  then show ?case using shut(3,5) cl
    by (auto simp: attached_def set_client_def conn_Close_def split: option.splits)
next
  case (retains f p w w')
  then show ?case by (auto simp: process_retain_def attached_def count_def Let_def split: Option.bind_splits if_splits)
next
  case (add_topic c f d w w' e)
  then show ?case by (auto simp: AddTopic_eq Let_def set_client_attached split: Option.bind_splits)
next
  case (remove_topic c f w w' e')
  then show ?case by (auto simp: RemoveTopic_eq Let_def set_client_attached split: Option.bind_splits if_splits)
next
  case (save_id n w w' e')
  then show ?case by (auto simp: saveQos2Msg_def split: if_splits)
next
  case (free_id n w w' e')
  then show ?case by (auto simp: checkQos2Msg_def attached_def split: if_splits)
next
  case (rename c i w w')
  then show ?case by (auto simp: SetId_eq set_client_attached split: Option.bind_splits)
next
  case (set_will c p w w')
  then show ?case by (auto simp: SetWill_def set_client_attached split: Option.bind_splits if_splits)
qed (simp_all add: attached_def count_join_def count_leave_def count_def Let_def)

lemma acts_attached:
  assumes "acts L w v" "heap_ok w" "Send d \<notin> L" "Shut d \<notin> L" "attached w d k cn"
  shows "attached v d k cn"
proof -
  have "heap_ok v \<and> attached v d k cn"
    using assms(1)
  proof (rule acts_induct)
    fix l u v assume l: "l \<in> L" "act l u v" and u: "heap_ok u \<and> attached u d k cn"
    with heap_ok_evolve [OF act_evolve [OF l(2)]] act_attached [OF l(2), of d k cn] assms(3,4)
    show "heap_ok v \<and> attached v d k cn" by blast
  qed (simp add: assms)
  then show ?thesis by blast
qed

section \<open>Whom the loops write to\<close>

lemma runs_WritePacket_to: "{Tally, Send c} \<subseteq> L \<Longrightarrow> runs third L w (WritePacket c p w)"
  unfolding WritePacket_def
  by (rule runs_bind [OF runs_write]) (auto intro!: runs_rules acts_count simp: tally_def)

lemma runs_send_retains_to: "{Tally, Send c} \<subseteq> L \<Longrightarrow> runs (\<lambda>w. w) L w (send_retains c ps w)"
  by (induction ps arbitrary: w)
    (auto intro!: runs_rules runs_bind3 [OF runs_WritePacket_to])

lemma runs_subscribe_to_to:
  "{Tally, Send c} \<union> subs_labels c \<subseteq> L \<Longrightarrow> runs (\<lambda>w. w) L w (subscribe_to c fs w)"
proof (induction fs arbitrary: w)
  case (Cons f fs)
  then have L: "Topics c \<in> L" "Tally \<in> L" "Subs c f \<in> L" "{Tally, Send c} \<subseteq> L" by auto
  show ?case unfolding subscribe_to.simps Let_def
    by (rule runs_pure, rule runs_bind_fst [OF runs_AddTopic [OF L(1)]], simp only: prod.case,
        rule runs_pure, clarify, rule runs_act [OF subs L(3)], assumption,
        rule runs_tally [OF tallies(3) L(2)], rule runs_pure,
        rule runs_bind1 [OF runs_send_retains_to [OF L(4)]], rule Cons.IH [OF Cons.prems])
qed (simp add: runs_rules)

lemma runs_cluster_send_retains_to: "Send c \<in> L \<Longrightarrow> runs (\<lambda>w. w) L w (cluster_send_retains c ps w)"
  by (induction ps arbitrary: w) (auto intro!: runs_rules runs_bind3 [OF runs_write])

lemma runs_cluster_subscribe_to:
  "insert (Send c) (peer_subs_labels c) \<subseteq> L \<Longrightarrow> runs (\<lambda>w. w) L w (cluster_subscribe c fs w)"
proof (induction fs arbitrary: w)
  case (Cons f fs)
  then have L: "Topics c \<in> L" "PeerSubs c f \<in> L" "Send c \<in> L" by auto
  show ?case unfolding cluster_subscribe.simps Let_def
    by (rule runs_pure, rule runs_pure, clarify, rule runs_act [OF peer_subs L(2)], assumption,
        rule runs_bind_fst [OF runs_AddTopic [OF L(1)]], simp only: prod.case, rule runs_pure,
        rule runs_bind1 [OF runs_cluster_send_retains_to [OF L(3)]], rule Cons.IH [OF Cons.prems])
qed (simp add: runs_rules)

section \<open>Sending to the peers\<close>

text \<open>A peer that is registered under one name gets one copy of the packet.\<close>

lemma to_clusters_own:
  "to_clusters cs p w = Some v \<Longrightarrow> heap_ok w \<Longrightarrow> attached w d k cn \<Longrightarrow> Write p = Some (bs, p') \<Longrightarrow>
     distinct (map snd cs) \<Longrightarrow> d \<in> snd ` set cs \<Longrightarrow> attached v d k (wrote bs cn)"
proof (induction cs arbitrary: p p' w)
  case (Cons ic cs)
  obtain i c where ic: "ic = (i, c)" by (cases ic)
  with Cons.prems(1) obtain e q u where u: "client_WritePacket c p w = Some (e, q, u)" "to_clusters cs q u = Some v"
    by (auto split: Option.bind_splits)
  have ok: "heap_ok u" using heap_ok_evolve Cons.prems(2) client_Write_shape [OF u(1)] by blast
  show ?case
  proof (cases "c = d")
    case True
    note own = write_own [OF u(1) [unfolded True] Cons.prems(3,4)]
    from to_clusters_other [OF u(2) ok own(3)] Cons.prems(5) ic True show ?thesis by auto
  next
    case False
    from write_writes [OF u(1) Cons.prems(4)] obtain q' where q': "Write q = Some (bs, q')" by blast
    from Cons.IH [OF u(2) ok write_other(1) [OF u(1) Cons.prems(2,3) False] q'] Cons.prems(5,6) ic False
    show ?thesis by auto
  qed
qed simp

fun cluster_label :: "label \<Rightarrow> bool" where
  "cluster_label (PeerSubs c f) = True"
| "cluster_label (PeerUnsubs f i) = True"
| "cluster_label (Enroll i c) = True"
| "cluster_label (Expel i) = True"
| "cluster_label l = False"

lemma act_cluster_tables:
  assumes "act l w v" "\<not> cluster_label l"
  shows "clusterTopics v = clusterTopics w \<and> clusters v = clusters w"
proof (cases "table_label l")
  case False
  from act_same_tables [OF assms(1) this] show ?thesis by (simp add: same_tables_def)
next
  case True
  with assms show ?thesis
    by (cases rule: act.cases) (auto simp: process_retain_def count_def Let_def split: Option.bind_splits if_splits)
qed

lemma acts_cluster_tables:
  assumes "acts L w v" "\<And>l. l \<in> L \<Longrightarrow> \<not> cluster_label l"
  shows "clusterTopics v = clusterTopics w" "clusters v = clusters w"
proof -
  have "clusterTopics v = clusterTopics w \<and> clusters v = clusters w"
    using assms(1) by (rule acts_induct) (auto dest: act_cluster_tables assms(2))
  then show "clusterTopics v = clusterTopics w" "clusters v = clusters w" by simp_all
qed

text \<open>What the broker does before it sends the packet on concerns no peer.\<close>

lemma spreads:
  assumes "acts L w x" "\<And>l. l \<in> L \<Longrightarrow> label_ok w l \<and> \<not> cluster_label l \<and> l \<noteq> Send d \<and> l \<noteq> Shut d" "good_world w"
    "to_clusters (clusters x) p x = Some v" "(i, d) \<in> set (clusters w)" "distinct (map snd (clusters w))"
    "attached w d k cn" "Write p = Some (bs, p')"
  shows "attached v d k (wrote bs cn)" "good_world v" "clusterTopics v = clusterTopics w" "clusters v = clusters w"
proof -
  have x: "good_world x" by (rule acts_good [OF assms(1) _ assms(3)]) (simp add: assms(2))
  have ok: "heap_ok w" "heap_ok x" using assms(3) x by (simp_all add: good_world_def)
  have at: "attached x d k cn" by (rule acts_attached [OF assms(1) ok(1) _ _ assms(7)]) (use assms(2) in blast)+
  have same: "clusterTopics x = clusterTopics w" "clusters x = clusters w"
    by (rule acts_cluster_tables [OF assms(1)], use assms(2) in blast)+
  have q: "acts quiet x v" by (rule runsD [OF runs_to_clusters assms(4)]) simp
  show "attached v d k (wrote bs cn)"
    by (rule to_clusters_own [OF assms(4) ok(2) at assms(8)]) (use same assms(5,6) in force)+
  show "good_world v" using q x by (rule quiet_good)
  show "clusterTopics v = clusterTopics w" "clusters v = clusters w"
    using same only_wroteD(2,4) [OF quiet_only_wrote [OF q]] by simp_all
qed

lemma subscribe_spreads:
  assumes "ProcessSubscribe c p w = Some v" "good_world w" "is_client BrokerClient w c"
    "(i, d) \<in> set (clusters w)" "distinct (map snd (clusters w))" "attached w d k cn"
    "Write (SubscribeP p) = Some (bs, p')"
  shows "attached v d k (wrote bs cn)" "good_world v" "clusterTopics v = clusterTopics w" "clusters v = clusters w"
proof -
  from assms(1) obtain e q u x where u: "WritePacket c (suback_for (sub_MessageID p)) w = Some (e, q, u)"
    "subscribe_to c (sub_Topics p) u = Some x" "to_clusters (clusters x) (SubscribeP p) x = Some v"
    by (auto simp: ProcessSubscribe_def split: Option.bind_splits)
  have "d \<noteq> c" using peers_not_broker [OF assms(2,3)] assms(4) by force
  let ?L = "{Tally, Send c} \<union> subs_labels c"
  have "acts ?L w u" using runsD [OF runs_WritePacket_to [of c ?L] u(1)] by simp
  moreover have "acts ?L u x" by (rule runsD [OF runs_subscribe_to_to u(2)]) blast
  ultimately have a: "acts ?L w x" by (rule acts_trans)
  have "l \<in> ?L \<Longrightarrow> label_ok w l \<and> \<not> cluster_label l \<and> l \<noteq> Send d \<and> l \<noteq> Shut d" for l
    using assms(3) \<open>d \<noteq> c\<close> by auto
  note s = spreads [OF a this assms(2) u(3) assms(4-7)]
  show "attached v d k (wrote bs cn)" "good_world v" "clusterTopics v = clusterTopics w" "clusters v = clusters w"
    by (rule s, assumption)+
qed

section \<open>A peer subscribes\<close>

lemma AddTopic_other:
  assumes "AddTopic c f d w = Some (v, x)"
  shows "conns v = conns w" "brokerTopics v = brokerTopics w" "clusterTopics v = clusterTopics w"
    "clusters v = clusters w" "attached v a k cn = attached w a k cn"
proof -
  from assms obtain cl where "heap w c = Some cl"
    "v = set_client c (cl\<lparr>client_topics := go_store f d (client_topics cl)\<rparr>) w"
    by (auto simp: AddTopic_eq Let_def split: Option.bind_splits)
  then show "conns v = conns w" "brokerTopics v = brokerTopics w" "clusterTopics v = clusterTopics w"
    "clusters v = clusters w" "attached v a k cn = attached w a k cn"
    by (simp_all add: set_client_attached) (simp_all add: set_client_def)
qed

text \<open>No retained message matches the topics, so that none is sent.\<close>

lemma cluster_subscribe_effect:
  assumes "wf_trie (clusterTopics w)" "wf_trie (brokerTopics w)" "GetId e w = Some i"
    "\<forall>f \<in> set fs. levels f \<noteq> [] \<and> retained_by (brokerTopics w) f = {}"
  shows "\<exists>v. cluster_subscribe e fs w = Some v \<and> brokerTopics v = brokerTopics w \<and> conns v = conns w \<and>
    (\<forall>x. GetId x v = GetId x w) \<and> (\<forall>a k cn. attached v a k cn = attached w a k cn) \<and>
    (\<forall>g j. subscription (clusterTopics v) g j =
      (if g \<in> set fs \<and> j = i then Some e else subscription (clusterTopics w) g j)) \<and>
    (synced (clusterTopics w) \<longrightarrow> synced (clusterTopics v)) \<and> wf_trie (clusterTopics v)"
  using assms
proof (induction fs arbitrary: w)
  case (Cons f fs)
  from Subscribe_law [OF Cons.prems(1), of f i e] obtain t x where t:
    "Trie_Subscribe f i e (clusterTopics w) = Some (t, x)" "wf_trie t" "synced (clusterTopics w) \<longrightarrow> synced t"
    "\<forall>g j. subscription t g j = (if g = f \<and> j = i then Some e else subscription (clusterTopics w) g j)" by blast
  let ?w = "w\<lparr>clusterTopics := t\<rparr>"
  from Cons.prems(3) have "AddTopic e f i ?w \<noteq> None" by (auto simp: AddTopic_eq GetId_eq Let_def)
  then obtain u y where u: "AddTopic e f i ?w = Some (u, y)" by auto
  note ax = AddTopic_effect(2) [OF u] AddTopic_other [OF u]
  have id: "GetId z ?w = GetId z w" for z by (simp add: GetId_eq)
  from SearchRetain_law [OF Cons.prems(2), of f] Cons.prems(4) obtain rs where
    rs: "Trie_SearchRetain f (brokerTopics w) = Some rs" by auto
  with SearchRetain_retained [OF Cons.prems(2) rs] Cons.prems(4) have "rs = []" by auto
  with Cons.prems(3) t(1) u rs ax have step: "cluster_subscribe e (f # fs) w = cluster_subscribe e fs u" by simp
  have "GetId e u = Some i" using ax(1) id Cons.prems(3) by simp
  with Cons.IH [of u] t(2) ax Cons.prems(2,4) obtain v where
    v: "cluster_subscribe e fs u = Some v" "brokerTopics v = brokerTopics u" "conns v = conns u"
    "\<forall>x. GetId x v = GetId x u" "\<forall>a k cn. attached v a k cn = attached u a k cn"
    "\<forall>g j. subscription (clusterTopics v) g j =
      (if g \<in> set fs \<and> j = i then Some e else subscription (clusterTopics u) g j)"
    "synced (clusterTopics u) \<longrightarrow> synced (clusterTopics v)" "wf_trie (clusterTopics v)" by auto
  have sub: "subscription (clusterTopics v) g j =
      (if g \<in> set (f # fs) \<and> j = i then Some e else subscription (clusterTopics w) g j)" for g j
    using v(6) ax(4) t(4) by simp
  show ?case
    by (rule exI [of _ v]) (use v step ax id t(3) sub in \<open>simp del: cluster_subscribe.simps\<close>)
qed simp

section \<open>Unsubscribing\<close>

lemma unsubscribe_spreads:
  assumes "ProcessUnSubscribe c p w = Some v" "good_world w" "is_client BrokerClient w c"
    "(i, d) \<in> set (clusters w)" "distinct (map snd (clusters w))" "attached w d k cn"
    "Write (UnsubscribeP p) = Some (bs, p')"
  shows "attached v d k (wrote bs cn)" "good_world v" "clusterTopics v = clusterTopics w" "clusters v = clusters w"
proof -
  from assms(1) obtain e q u x where u: "WritePacket c (unsuback_for (unsub_MessageID p)) w = Some (e, q, u)"
    "unsubscribe_topics c (unsub_Topics p) u = Some x" "to_clusters (clusters x) (UnsubscribeP p) x = Some v"
    by (auto simp: ProcessUnSubscribe_def split: Option.bind_splits)
  have "d \<noteq> c" using peers_not_broker [OF assms(2,3)] assms(4) by force
  let ?L = "{Tally, Send c} \<union> unsubs_labels c"
  have "acts ?L w u" using runsD [OF runs_WritePacket_to [of c ?L] u(1)] by simp
  moreover have "acts ?L u x" by (rule runsD [OF runs_unsubscribe_topics u(2)]) blast
  ultimately have a: "acts ?L w x" by (rule acts_trans)
  have "l \<in> ?L \<Longrightarrow> label_ok w l \<and> \<not> cluster_label l \<and> l \<noteq> Send d \<and> l \<noteq> Shut d" for l
    using \<open>d \<noteq> c\<close> by auto
  note s = spreads [OF a this assms(2) u(3) assms(4-7)]
  show "attached v d k (wrote bs cn)" "good_world v" "clusterTopics v = clusterTopics w" "clusters v = clusters w"
    by (rule s, assumption)+
qed

text \<open>The subscriptions of other identities stay, whatever the filters are.\<close>

lemma unsubscribe_topics_others:
  assumes "unsubscribe_topics c fs w = Some v" "wf_trie (brokerTopics w)" "GetId c w = Some i" "j \<noteq> i"
  shows "subscription (brokerTopics v) g j = subscription (brokerTopics w) g j"
  using assms
proof (induction fs arbitrary: w)
  case (Cons f fs)
  from Cons.prems(1) obtain x y t e l where x: "RemoveTopic c f w = Some (x, y)" and l: "GetId c x = Some l" and
    t: "Trie_Unsubscribe f l (brokerTopics x) = Some (t, e)" and
    v: "unsubscribe_topics c fs (if e then count (\<lambda>s. s\<lparr>SubCount := SubCount s - 1\<rparr>) (x\<lparr>brokerTopics := t\<rparr>)
      else x\<lparr>brokerTopics := t\<rparr>) = Some v"
    by (auto simp: Let_def split: Option.bind_splits)
  from x have bt: "brokerTopics x = brokerTopics w" and "GetId c x = GetId c w"
    by (auto simp: RemoveTopic_eq set_client_def GetId_eq split: Option.bind_splits if_splits)
  with l Cons.prems(3) have id: "GetId c x = Some i" and li: "l = i" by simp_all
  from Unsubscribe_law [OF Cons.prems(2), of f i] t li bt Cons.prems(4) have
    s: "wf_trie t" "subscription t g j = subscription (brokerTopics w) g j" by auto
  let ?u = "if e then count (\<lambda>s. s\<lparr>SubCount := SubCount s - 1\<rparr>) (x\<lparr>brokerTopics := t\<rparr>) else x\<lparr>brokerTopics := t\<rparr>"
  have "brokerTopics ?u = t" "GetId c ?u = Some i" using id by (simp_all add: count_def GetId_eq)
  with Cons.IH [OF v] s Cons.prems(4) show ?case by simp
qed simp

lemma ProcessUnSubscribe_others:
  assumes "ProcessUnSubscribe c p w = Some v" "good_world w" "GetId c w = Some i" "j \<noteq> i"
  shows "subscription (brokerTopics v) g j = subscription (brokerTopics w) g j"
proof -
  from assms(1) obtain e q u x where u: "WritePacket c (unsuback_for (unsub_MessageID p)) w = Some (e, q, u)"
    "unsubscribe_topics c (unsub_Topics p) u = Some x" "to_clusters (clusters x) (UnsubscribeP p) x = Some v"
    by (auto simp: ProcessUnSubscribe_def split: Option.bind_splits)
  note ow = only_wroteD [OF WritePacket_only_wrote [OF u(1)]]
  have "acts quiet x v" by (rule runsD [OF runs_to_clusters u(3)]) simp
  then have "brokerTopics v = brokerTopics x" by (rule only_wroteD(1) [OF quiet_only_wrote])
  with unsubscribe_topics_others [OF u(2) _ _ assms(4)] good_wf(1) [OF assms(2)] ow(1,6) assms(3) show ?thesis by simp
qed

lemma cluster_unsubscribe_effect:
  assumes "wf_trie (clusterTopics w)" "GetId e w = Some i" "\<forall>f \<in> set fs. unsubscribable f"
  shows "\<exists>v. cluster_unsubscribe e fs w = Some v \<and> brokerTopics v = brokerTopics w \<and> conns v = conns w \<and>
    (\<forall>x. GetId x v = GetId x w) \<and> (\<forall>a k cn. attached v a k cn = attached w a k cn) \<and>
    (\<forall>g j. subscription (clusterTopics v) g j =
      (if g \<in> set fs \<and> j = i then None else subscription (clusterTopics w) g j)) \<and> wf_trie (clusterTopics v) \<and>
    ((\<forall>f \<in> set fs. \<not> ends_hash f) \<and> synced (clusterTopics w) \<longrightarrow> synced (clusterTopics v))"
  using assms
proof (induction fs arbitrary: w)
  case (Cons f fs)
  from Unsubscribe_law [OF Cons.prems(1), of f i] obtain t x where
    t: "Trie_Unsubscribe f i (clusterTopics w) = Some (t, x)" and
    sy: "synced (clusterTopics w) \<and> \<not> ends_hash f \<longrightarrow> synced t" by blast
  have "unsubscribable f" using Cons.prems(3) by simp
  note us = unsubscribe_step [OF Cons.prems(1) t this]
  let ?w = "w\<lparr>clusterTopics := t\<rparr>"
  from Cons.prems(2) obtain cl where cl: "heap w e = Some cl" "client_id cl = i" by (auto simp: GetId_eq)
  then have "RemoveTopic e f ?w \<noteq> None" by (auto simp: RemoveTopic_eq)
  then obtain u y where u: "RemoveTopic e f ?w = Some (u, y)" by auto
  have ux: "conns u = conns w" "brokerTopics u = brokerTopics w" "clusterTopics u = t"
    "GetId z u = GetId z w" "attached u a k cn = attached w a k cn" for z a k cn
    using u cl(1) by (auto simp: RemoveTopic_eq GetId_eq set_client_attached split: if_splits)
      (simp_all add: set_client_def)
  have step: "cluster_unsubscribe e (f # fs) w = cluster_unsubscribe e fs u" using Cons.prems(2) t u by simp
  from Cons.IH [of u] us(1) ux Cons.prems(2,3) obtain v where
    v: "cluster_unsubscribe e fs u = Some v" "brokerTopics v = brokerTopics u" "conns v = conns u"
    "\<forall>x. GetId x v = GetId x u" "\<forall>a k cn. attached v a k cn = attached u a k cn"
    "\<forall>g j. subscription (clusterTopics v) g j =
      (if g \<in> set fs \<and> j = i then None else subscription (clusterTopics u) g j)" "wf_trie (clusterTopics v)"
    "(\<forall>f \<in> set fs. \<not> ends_hash f) \<and> synced (clusterTopics u) \<longrightarrow> synced (clusterTopics v)" by auto
  have sub: "subscription (clusterTopics v) g j =
      (if g \<in> set (f # fs) \<and> j = i then None else subscription (clusterTopics w) g j)" for g j
    using v(6) ux(3) us(2) by simp
  show ?case
    by (rule exI [of _ v]) (use v step ux sub sy in \<open>simp del: cluster_unsubscribe.simps\<close>)
qed simp

section \<open>A message from a peer\<close>

lemma deliver_conns:
  assumes "deliver_loop counted cs seen p w = Some (q, v)" "\<And>d dl. d \<in> set cs \<Longrightarrow> heap w d = Some dl \<Longrightarrow> conn dl \<noteq> Some k"
  shows "conns v k = conns w k"
  using assms
proof (induction cs arbitrary: seen p w)
  case (Cons d cs)
  then obtain j where j: "GetId d w = Some j"
    by (auto split: Option.bind_splits)
  show ?case
  proof (cases "j \<in> set seen")
    case True
    with Cons.prems(1) j have "deliver_loop counted cs seen p w = Some (q, v)" by simp
    then show ?thesis by (rule Cons.IH) (rule Cons.prems(2), simp_all)
  next
    case False
    then obtain e r u where u: "client_WritePacket d p w = Some (e, r, u)"
      "deliver_loop counted cs (j # seen) r (if counted then count (\<lambda>s. s\<lparr>PubSent := PubSent s + 1\<rparr>) u else u) = Some (q, v)"
      using Cons.prems(1) j by (auto simp: Let_def split: Option.bind_splits)
    have "conns u k = conns w k"
      using u(1) Cons.prems(2) [of d] by (auto simp: client_WritePacket_eq conn_Write_def
          split: Option.bind_splits option.splits client_kind.splits if_splits prod.splits)
    moreover have h: "heap (if counted then count (\<lambda>s. s\<lparr>PubSent := PubSent s + 1\<rparr>) u else u) = heap w"
      using only_wroteD(5) [OF write_only_wrote [OF u(1)]] by simp
    have "conns v k = conns (if counted then count (\<lambda>s. s\<lparr>PubSent := PubSent s + 1\<rparr>) u else u) k"
      by (rule Cons.IH [OF u(2)]) (simp only: h, rule Cons.prems(2), simp_all)
    ultimately show ?thesis by (cases counted) simp_all
  qed
qed simp

lemma synced_delivery:
  assumes "good_world w" "good_trie (brokerTopics w)" "publishable (TopicName p)"
  obtains cs q u where "Trie_Subscribers (TopicName p) (brokerTopics w) = Some cs"
    "set cs = {c. \<exists>f i. filter_match f (TopicName p) \<and> subscription (brokerTopics w) f i = Some c}"
    "deliver_loop True cs [] (PublishP p) w = Some (q, u)" "\<And>d. d \<in> set cs \<Longrightarrow> is_client BrokerClient w d"
proof -
  have t: "\<not> wildcard (TopicName p)" "levels (TopicName p) \<noteq> []" using assms(3) by (auto simp: publishable_def)
  from Subscribers_synced [OF _ _ t] assms(2) obtain cs where
    cs: "Trie_Subscribers (TopicName p) (brokerTopics w) = Some cs"
      "set cs = {c. \<exists>f i. filter_match f (TopicName p) \<and> subscription (brokerTopics w) f i = Some c}"
    unfolding good_trie_def by blast
  have broker: "is_client BrokerClient w d" if "d \<in> set cs" for d
    by (rule held_by_Subscribers [OF good_worldD(1) [OF assms(1)] cs(1) that])
  then have "heap w d \<noteq> None" if "d \<in> set cs" for d using that by (auto simp: is_client_def)
  with deliver_defined [of cs w "PublishP p" True "[]"] Write_publish [of p] obtain q u where
    "deliver_loop True cs [] (PublishP p) w = Some (q, u)" by auto
  with that cs broker show thesis by blast
qed

lemma deliver_other_kind:
  assumes "deliver_loop counted cs seen p w = Some (q, u)" "\<And>d. d \<in> set cs \<Longrightarrow> is_client BrokerClient w d" "heap_ok w"
    "heap w d = Some dl" "kind dl = ClusterClient" "conn dl = Some k"
  shows "conns u k = conns w k"
proof (rule deliver_conns [OF assms(1)])
  fix b bl assume b: "b \<in> set cs" "heap w b = Some bl"
  from assms(2) [OF b(1)] b(2) have "kind bl = BrokerClient" by (simp add: is_client_def)
  with assms(4,5) b(2) have "b \<noteq> d" by auto
  with assms(3) b(2) assms(4,6) show "conn bl \<noteq> Some k" unfolding heap_ok_def by blast
qed

lemma cluster_publish_effect:
  assumes "good_world w" "good_trie (brokerTopics w)" "publishable (TopicName p)"
  shows "\<exists>v. cluster_ProcessPublish c p w = Some v \<and>
    (\<forall>d dl k. heap w d = Some dl \<and> kind dl = ClusterClient \<and> conn dl = Some k \<longrightarrow> conns v k = conns w k) \<and>
    (\<forall>d k cn. attached w d k cn \<and> is_client BrokerClient w d \<and>
       (\<forall>e g j. subscription (brokerTopics w) g j = Some e \<and> filter_match g (TopicName p) \<and> GetId e w = GetId d w \<longrightarrow> e = d) \<longrightarrow>
       attached v d k (wrote (if \<exists>g j. filter_match g (TopicName p) \<and> subscription (brokerTopics w) g j = Some d
         then publish_bytes p else []) cn))"
proof -
  obtain cs q u where
    cs: "Trie_Subscribers (TopicName p) (brokerTopics w) = Some cs"
      "set cs = {c. \<exists>f i. filter_match f (TopicName p) \<and> subscription (brokerTopics w) f i = Some c}" and
    u: "deliver_loop True cs [] (PublishP p) w = Some (q, u)" and broker: "\<And>d. d \<in> set cs \<Longrightarrow> is_client BrokerClient w d"
    by (rule synced_delivery [OF assms]) blast
  obtain p' where p': "Write (PublishP p) = Some (publish_bytes p, p')" using Write_publish by blast
  have "acts quiet w u" using runsD [OF runs_deliver [OF subset_refl] u] by simp
  note ow = quiet_only_wrote [OF this]
  have ok: "heap_ok w" using assms(1) by (simp add: good_world_def)
  have "levels (TopicName p) \<noteq> []" using assms(3) by (auto simp: publishable_def)
  from RemoveRetain_law [OF good_wf(1) [OF assms(1)] this] obtain s e where
    s: "Trie_RemoveRetain (TopicName p) (brokerTopics w) = Some (s, e)" by blast
  let ?v = "if Retain p then u\<lparr>brokerTopics := s\<rparr> else u"
  have v: "cluster_ProcessPublish c p w = Some ?v"
    using cs(1) u s only_wroteD(1) [OF ow] by (simp add: cluster_ProcessPublish_def cluster_DoPublish_def Let_def)
  have "conns u k = conns w k" if "heap w d = Some dl" "kind dl = ClusterClient" "conn dl = Some k" for d dl k
    by (rule deliver_other_kind [OF u broker ok that])
  moreover have "attached u d k (wrote (if \<exists>g j. filter_match g (TopicName p) \<and>
      subscription (brokerTopics w) g j = Some d then publish_bytes p else []) cn)"
    if at: "attached w d k cn" and alone: "\<forall>e g j. subscription (brokerTopics w) g j = Some e \<and>
      filter_match g (TopicName p) \<and> GetId e w = GetId d w \<longrightarrow> e = d" for d k cn
  proof -
    obtain cl where "heap w d = Some cl" using at by (auto simp: attached_def)
    then have i: "GetId d w = Some (client_id cl)" by (simp add: GetId_eq)
    have "b \<in> set cs \<Longrightarrow> GetId b w = GetId d w \<Longrightarrow> b = d" for b using cs(2) alone by blast
    from deliver_effect [OF u ok at p' this i] show ?thesis using cs(2) by simp
  qed
  moreover have "conns ?v = conns u" "attached ?v = attached u" by (simp_all add: fun_eq_iff)
  ultimately show ?thesis using v cs(2) by (intro exI [of _ ?v]) (simp only: simp_thms, blast)
qed

end
