(* ===== verification/Cluster_Properties.thy ===== *)
theory Cluster_Properties
  imports Sample_Run Cluster_Effects
begin

text \<open>
  The properties of the cluster. The witnesses add a peer to the sample run, which is the node \<open>n\<close>.
\<close>

section \<open>Messages from a peer\<close>

definition run_peer :: World where
  "run_peer = (snd (NewClient ClusterClient 2 TypServer (open_conn 2 [] run_w5)))\<lparr>clusters := [(''n'', 2)]\<rparr>"

lemma run_peer:
  "good_world run_peer" "attached run_peer 2 2 \<lparr>incoming = [], sent = [], up = True\<rparr>"
  "attached run_peer 1 1 \<lparr>incoming = [], sent = [0x20, 2, 1, 0, 0x90, 2, 0, 1], up = True\<rparr>"
  "is_client ClusterClient run_peer 2" "is_client BrokerClient run_peer 1" "clusters run_peer = [(''n'', 2)]"
  "brokerTopics run_peer = run_trie" "heap run_peer 1 = heap run_w5 1" "conns run_peer 2 = Some \<lparr>incoming = [], sent = [], up = True\<rparr>"
proof -
  define u where "u = snd (NewClient ClusterClient 2 TypServer (open_conn 2 [] run_w5))"
  have new: "NewClient ClusterClient 2 TypServer (open_conn 2 [] run_w5) = (2, u)"
    by (simp add: u_def NewClient_eq open_conn_def Let_def)
  have g: "good_world u" "is_client ClusterClient u 2" using NewClient_good(1,2) [OF new _ run_good] by simp_all
  have e: "run_peer = u\<lparr>clusters := go_store ''n'' 2 (clusters u)\<rparr>"
    by (simp add: run_peer_def u_def NewClient_eq open_conn_def set_client_def Let_def)
  show "good_world run_peer" unfolding e by (rule act_good [OF enroll _ g(1)]) (simp add: g(2))
  show "attached run_peer 2 2 \<lparr>incoming = [], sent = [], up = True\<rparr>"
    "attached run_peer 1 1 \<lparr>incoming = [], sent = [0x20, 2, 1, 0, 0x90, 2, 0, 1], up = True\<rparr>"
    "is_client ClusterClient run_peer 2" "is_client BrokerClient run_peer 1" "clusters run_peer = [(''n'', 2)]"
    "brokerTopics run_peer = run_trie" "heap run_peer 1 = heap run_w5 1" "conns run_peer 2 = Some \<lparr>incoming = [], sent = [], up = True\<rparr>"
    by (simp_all add: run_peer_def NewClient_eq open_conn_def set_client_def Let_def attached_def is_client_def run_client_def)
qed



section \<open>A node that joins\<close>

lemma sync_write: "\<exists>q. Write (sync_packet topic) = Some (packet_bytes (sync_packet topic), q)"
proof -
  have "Write (sync_packet topic) \<noteq> None"
    using subscribe_topics_total [of "[topic]" "[0]"]
    by (auto simp: sync_packet_def Write_eqs new_packet_defs zero_header_def Let_def)
  then show ?thesis by (auto simp: packet_bytes_def split: option.split)
qed

lemma sync_loop:
  "attached w c k cn \<Longrightarrow> heap w c = Some cl \<Longrightarrow> kind cl = ClusterClient \<Longrightarrow>
     \<exists>v. range_loop (sync_topic c) fo (Some w) = Some v \<and> only_wrote w v \<and>
       attached v c k (wrote (concat (map (packet_bytes \<circ> sync_packet \<circ> fst) fo)) cn)"
proof (induction fo arbitrary: w cn)
  case (Cons tl fo)
  obtain topic l where tl: "tl = (topic, l)" by (cases tl)
  obtain q where q: "Write (sync_packet topic) = Some (packet_bytes (sync_packet topic), q)" using sync_write by blast
  then obtain e r u where u: "client_WritePacket c (sync_packet topic) w = Some (e, r, u)"
    using write_defined [of w c "sync_packet topic"] Cons.prems(2) by auto
  note own = write_own [OF u Cons.prems(1) q]
  from Cons.IH [OF own(3)] own(4) Cons.prems(2,3) obtain v where
    "range_loop (sync_topic c) fo (Some u) = Some v" "only_wrote u v"
    "attached v c k (wrote (concat (map (packet_bytes \<circ> sync_packet \<circ> fst) fo)) (wrote (packet_bytes (sync_packet topic)) cn))"
    by metis
  moreover have "sync_topic c topic l (Some w) = (True, Some u)" using u Cons.prems(2,3) by (simp add: sync_topic_def)
  ultimately show ?case
    using tl only_wrote_trans [OF write_only_wrote [OF u], of v] by (auto simp: comp_def)
qed simp

text \<open>
  When a node joins, this node sends it one SUBSCRIBE for every topic name in the foliage of its own
  storage, in that order, and changes nothing else.
\<close>

theorem node_topics_synchronised:
  assumes "map_of (clusters w) (TrimSpace (Name node)) = Some c" "good_world w" "attached w c k cn"
  shows "\<exists>v. syncNodeTopics node w = Some v \<and> only_wrote w v \<and>
    attached v c k (wrote (concat (map (packet_bytes \<circ> sync_packet \<circ> fst) (foliage (brokerTopics w)))) cn)"
proof -
  from good_worldD(4) [OF assms(2,1)] obtain cl where cl: "heap w c = Some cl" "kind cl = ClusterClient"
    by (auto simp: is_client_def)
  from sync_loop [OF assms(3) cl] assms(1) show ?thesis by (simp add: syncNodeTopics_def RangeTopics_def)
qed

theorem node_topics_synchronised_witness:
  "\<exists>v. syncNodeTopics \<lparr>Name = '' n'', Host = ''h:1''\<rparr> run_peer = Some v \<and>
    attached v 2 2 \<lparr>incoming = [], sent = [0x82, 8, 0, 0, 0, 3, 0x61, 0x2F, 0x2B, 0], up = True\<rparr>"
proof -
  have n: "TrimSpace '' n'' = ''n''" by code_simp
  have "packet_bytes (sync_packet ''a/+'') = [0x82, 8, 0, 0, 0, 3, 0x61, 0x2F, 0x2B, 0]" by code_simp
  with node_topics_synchronised [OF _ run_peer(1,2), of "\<lparr>Name = '' n'', Host = ''h:1''\<rparr>"] n show ?thesis
    by (auto simp: run_peer(6,7) run_trie_def wrote_def)
qed

end
