(* ===== verification/Start_Up.thy ===== *)
theory Start_Up
  imports System
begin

text \<open>
  How the server comes up: \<open>main\<close>, \<open>Server.Start\<close>, \<open>Cluster.Start\<close>, the listeners \<open>StartTcp\<close> and
  \<open>StartWebsocket\<close> of \<open>broker/broker.go\<close> and \<open>StartServer\<close> of \<open>cluster/cluster.go\<close>, and \<open>StartClient\<close>,
  which dials another node. Certificates, files, sockets and the other end are outside the process and
  collected in one record of functions. \<open>logger.Fatalf\<close> ends the process with the code 1 and a panic
  with the code 2; such an end is an \<open>Inl\<close>.
\<close>

text \<open>The goroutines the process launches with \<open>go\<close> until it serves connections.\<close>

datatype goroutine =
  GoStartTcp | GoStateLoop | GoHandler connref conn_type | GoStartWebsocket |
  GoClusterStart | GoStartServer | GoHandlerServer connref | GoCheckHealthy | GoHeartBeat

section \<open>TLS\<close>

datatype client_auth =
  NoClientCert | RequestClientCert | RequireAnyClientCert | VerifyClientCertIfGiven |
  RequireAndVerifyClientCert

record ('cert, 'ca) tls_Config =
  Certificates :: "'cert list"
  RootCAs :: "'ca list option"
  ClientCAs :: "'ca list option"
  ClientAuth :: client_auth
  InsecureSkipVerify :: bool

text \<open>
  The key pair of two files, the contents of a file, the certificates in a PEM file, whether an address can
  be listened on, and the connection that dialling an address gives, with the bytes its peer will send.
\<close>

record ('cert, 'ca) Env =
  LoadX509KeyPair :: "string \<Rightarrow> string \<Rightarrow> 'cert option"
  ReadFile :: "string \<Rightarrow> byte list option"
  pem_certs :: "byte list \<Rightarrow> 'ca list"
  can_listen :: "string \<Rightarrow> bool"
  Dial :: "string \<Rightarrow> ('cert, 'ca) tls_Config option \<Rightarrow> (connref \<times> byte list) option"

text \<open>\<open>AppendCertsFromPEM\<close> adds what the pool does not hold yet and reports whether there was any certificate.\<close>

definition AppendCertsFromPEM :: "('cert, 'ca) Env \<Rightarrow> byte list \<Rightarrow> 'ca list \<Rightarrow> 'ca list \<times> bool" where
  "AppendCertsFromPEM E ca pool =
     (fold (\<lambda>c p. if c \<in> set p then p else p @ [c]) (pem_certs E ca) pool, pem_certs E ca \<noteq> [])"

section \<open>The listeners\<close>

datatype ('cert, 'ca) listener = Plain string | Tls string "('cert, 'ca) tls_Config"

definition net_Listen :: "('cert, 'ca) Env \<Rightarrow> string \<Rightarrow> nat + ('cert, 'ca) listener" where
  "net_Listen E addr = (if can_listen E addr then Inr (Plain addr) else Inl 1)"

definition tls_Listen ::
  "('cert, 'ca) Env \<Rightarrow> string \<Rightarrow> ('cert, 'ca) tls_Config \<Rightarrow> nat + ('cert, 'ca) listener" where
  "tls_Listen E addr t = (if can_listen E addr then Inr (Tls addr t) else Inl 1)"

definition tcp_listener :: "('cert, 'ca) Env \<Rightarrow> Config \<Rightarrow> nat + ('cert, 'ca) listener" where
  "tcp_listener E C =
     (let tcpHost = TcpHost C in
      if \<not> cfg_TcpTls C then net_Listen E tcpHost
      else
        case LoadX509KeyPair E (cfg_CertFile C) (cfg_KeyFile C) of
          None \<Rightarrow> Inl 1
        | Some cert \<Rightarrow>
            (case ReadFile E (cfg_Ca C) of
               None \<Rightarrow> Inl 1
             | Some ca \<Rightarrow>
                 (let (caPool, _) = AppendCertsFromPEM E ca [];
                      (caPool, ok) = AppendCertsFromPEM E ca caPool
                  in if \<not> ok then Inl 1
                     else tls_Listen E tcpHost
                       \<lparr>Certificates = [cert], RootCAs = None, ClientCAs = Some caPool,
                        ClientAuth = RequireAndVerifyClientCert, InsecureSkipVerify = False\<rparr>)))"

definition cluster_listener :: "('cert, 'ca) Env \<Rightarrow> Config \<Rightarrow> nat + ('cert, 'ca) listener" where
  "cluster_listener E C =
     (let tcpHost = ClusterHost C in
      if cfg_ClusterTls C then
        case LoadX509KeyPair E (cfg_CertFile C) (cfg_KeyFile C) of
          None \<Rightarrow> Inl 1
        | Some cert \<Rightarrow>
            (case ReadFile E (cfg_Ca C) of
               None \<Rightarrow> Inl 1
             | Some ca \<Rightarrow>
                 (let (caPool, ok) = AppendCertsFromPEM E ca []
                  in if \<not> ok then Inl 1
                     else tls_Listen E tcpHost
                       \<lparr>Certificates = [cert], RootCAs = None, ClientCAs = Some caPool,
                        ClientAuth = RequireAndVerifyClientCert, InsecureSkipVerify = False\<rparr>))
      else net_Listen E tcpHost)"

text \<open>
  The loop around \<open>Accept\<close>, on the results it gets, and the goroutines it launches: each connection goes to a
  handler of its own, the first error ends the process, and the \<open>continue\<close> after it is never reached.
\<close>

fun accept_loop :: "(connref \<Rightarrow> goroutine) \<Rightarrow> connref option list \<Rightarrow> goroutine list \<times> nat option" where
  "accept_loop handler [] = ([], None)"
| "accept_loop handler (None # accepts) = ([], Some 1)"
| "accept_loop handler (Some k # accepts) =
     (let (hs, e) = accept_loop handler accepts in (handler k # hs, e))"

definition StartTcp ::
  "('cert, 'ca) Env \<Rightarrow> Config \<Rightarrow> connref option list \<Rightarrow> goroutine list \<times> nat option" where
  "StartTcp E C accepts =
     map_prod ((#) GoStateLoop) id
       (case tcp_listener E C of
          Inl n \<Rightarrow> ([], Some n)
        | Inr _ \<Rightarrow> accept_loop (\<lambda>k. GoHandler k TypTcp) accepts)"

definition StartServer ::
  "('cert, 'ca) Env \<Rightarrow> Config \<Rightarrow> connref option list \<Rightarrow> goroutine list \<times> nat option" where
  "StartServer E C accepts =
     (case cluster_listener E C of
        Inl n \<Rightarrow> ([], Some n)
      | Inr _ \<Rightarrow> accept_loop GoHandlerServer accepts)"

text \<open>
  \<open>http.Handle\<close> panics on an empty path. \<open>ListenAndServeTLS\<close> with a handler and no configuration of its own
  asks for no client certificate. Both ways of serving return only with an error, which is a panic.
\<close>

definition StartWebsocket :: "('cert, 'ca) Env \<Rightarrow> Config \<Rightarrow> nat + ('cert, 'ca) listener" where
  "StartWebsocket E C =
     (if cfg_WsPath C = [] then Inl 2
      else if \<not> can_listen E (WsHost C) then Inl 2
      else if cfg_WsTls C then
        case LoadX509KeyPair E (cfg_CertFile C) (cfg_KeyFile C) of
          None \<Rightarrow> Inl 2
        | Some cert \<Rightarrow>
            Inr (Tls (WsHost C)
              \<lparr>Certificates = [cert], RootCAs = None, ClientCAs = None,
               ClientAuth = NoClientCert, InsecureSkipVerify = False\<rparr>)
      else Inr (Plain (WsHost C)))"

section \<open>Dialling another node\<close>

definition dial_config :: "('cert, 'ca) Env \<Rightarrow> Config \<Rightarrow> nat + ('cert, 'ca) tls_Config option" where
  "dial_config E C =
     (if cfg_ClusterTls C then
        case LoadX509KeyPair E (cfg_ClientCertFile C) (cfg_ClientKeyFile C) of
          None \<Rightarrow> Inl 1
        | Some cert \<Rightarrow>
            (case ReadFile E (cfg_Ca C) of
               None \<Rightarrow> Inl 1
             | Some ca \<Rightarrow>
                 (let (caPool, ok) = AppendCertsFromPEM E ca []
                  in if \<not> ok then Inl 1
                     else Inr (Some
                       \<lparr>Certificates = [cert], RootCAs = Some caPool, ClientCAs = None,
                        ClientAuth = NoClientCert, InsecureSkipVerify = True\<rparr>)))
      else Inr None)"

definition StartClient ::
  "('cert, 'ca) Env \<Rightarrow> Config \<Rightarrow> ClusterNode \<Rightarrow> World \<Rightarrow> nat + World option option" where
  "StartClient E C cluster w =
     (case dial_config E C of
        Inl n \<Rightarrow> Inl n
      | Inr t \<Rightarrow>
          (case Dial E (Host cluster) t of
             None \<Rightarrow> Inr (Some (Some w))
           | Some (k, bs) \<Rightarrow>
               Inr (HandlerClient (cfg_ClusterName C) (cfg_Clusters C) k cluster (open_conn k bs w))))"

section \<open>The tickers\<close>

text \<open>
  One turn of the loops of \<open>StartStateLoop\<close> and \<open>HeartBeat\<close>, on what their \<open>select\<close> receives; the result says
  whether the loop goes on. A turn of the second also has the nodes it launches \<open>StartClient\<close> for.
\<close>

datatype tick_event = Tick | Cancelled

definition StateLoop_turn :: "tick_event \<Rightarrow> World \<Rightarrow> (bool \<times> World) option" where
  "StateLoop_turn e w =
     (case e of
        Tick \<Rightarrow> do { w \<leftarrow> publishState w; Some (True, w) }
      | Cancelled \<Rightarrow> Some (False, w))"

definition HeartBeat_turn ::
  "ClusterNode list \<Rightarrow> tick_event \<Rightarrow> World \<Rightarrow> (bool \<times> ClusterNode list \<times> World) option" where
  "HeartBeat_turn nodes e w =
     (case e of
        Cancelled \<Rightarrow> Some (False, [], w)
      | Tick \<Rightarrow> do { (dial, w) \<leftarrow> CheckHealthy nodes w; Some (True, dial, w) })"

section \<open>Start\<close>

text \<open>The goroutines the server launches, those of \<open>Cluster.Start\<close> after the one that runs it.\<close>

definition Cluster_Start :: "goroutine list" where
  "Cluster_Start = [GoStartServer, GoCheckHealthy, GoHeartBeat]"

definition Server_Start :: "Config \<Rightarrow> goroutine list" where
  "Server_Start C =
     [GoStartTcp] @ (if cfg_Websocket C then [GoStartWebsocket] else []) @
     (if cfg_IsCluster C then [GoClusterStart] else [])"

text \<open>\<open>main\<close> with the initialiser of \<open>config\<close>, which runs first.\<close>

definition main :: "toml_decoder \<Rightarrow> string list \<Rightarrow> int64 \<Rightarrow> nat + Config \<times> World \<times> goroutine list" where
  "main DecodeFile args now =
     (case config_init DecodeFile of
        Inl n \<Rightarrow> Inl n
      | Inr C \<Rightarrow>
          (case Configure DecodeFile args C of
             Inl n \<Rightarrow> Inl n
           | Inr C \<Rightarrow> Inr (C, NewServer now, Server_Start C)))"

section \<open>What the listeners demand\<close>

text \<open>A listener at an address that only lets in clients with a certificate of the configured authorities.\<close>

definition verifies_clients :: "('cert, 'ca) Env \<Rightarrow> Config \<Rightarrow> string \<Rightarrow> ('cert, 'ca) listener \<Rightarrow> bool" where
  "verifies_clients E C addr l \<longleftrightarrow>
     (\<exists>t ca pool. l = Tls addr t \<and> ClientAuth t = RequireAndVerifyClientCert \<and> ClientCAs t = Some pool \<and>
        ReadFile E (cfg_Ca C) = Some ca \<and> pem_certs E ca \<noteq> [] \<and> set pool = set (pem_certs E ca))"

lemma set_AppendCertsFromPEM: "set (fst (AppendCertsFromPEM E ca pool)) = set pool \<union> set (pem_certs E ca)"
proof -
  have "set (fold (\<lambda>c p. if c \<in> set p then p else p @ [c]) cs pool) = set pool \<union> set cs" for cs
    by (induction cs arbitrary: pool) auto
  then show ?thesis by (simp add: AppendCertsFromPEM_def)
qed

lemma snd_AppendCertsFromPEM: "snd (AppendCertsFromPEM E ca pool) \<longleftrightarrow> pem_certs E ca \<noteq> []"
  by (simp add: AppendCertsFromPEM_def)

lemma tcp_listener_kind:
  assumes "tcp_listener E C = Inr l"
  shows "if cfg_TcpTls C then verifies_clients E C (TcpHost C) l else l = Plain (TcpHost C)"
  using assms set_AppendCertsFromPEM [of E _ "[]"] set_AppendCertsFromPEM [of E] snd_AppendCertsFromPEM [of E]
  by (auto simp: tcp_listener_def net_Listen_def tls_Listen_def verifies_clients_def Let_def case_prod_unfold
      split: if_splits option.splits)

lemma cluster_listener_kind:
  assumes "cluster_listener E C = Inr l"
  shows "if cfg_ClusterTls C then verifies_clients E C (ClusterHost C) l else l = Plain (ClusterHost C)"
  using assms set_AppendCertsFromPEM [of E] snd_AppendCertsFromPEM [of E]
  by (auto simp: cluster_listener_def net_Listen_def tls_Listen_def verifies_clients_def Let_def case_prod_unfold
      split: if_splits option.splits)

lemma StartWebsocket_kind:
  assumes "StartWebsocket E C = Inr l"
  shows "if cfg_WsTls C then \<exists>t. l = Tls (WsHost C) t \<and> ClientAuth t = NoClientCert else l = Plain (WsHost C)"
  using assms by (auto simp: StartWebsocket_def split: if_splits option.splits)

text \<open>The first failed \<open>Accept\<close> ends the process, whatever would come after it.\<close>

lemma accept_loop_error: "accept_loop h (map Some ks @ None # accepts) = (map h ks, Some 1)"
  by (induction ks) simp_all

section \<open>Dialling and the tickers are steps of the running server\<close>

lemma StartClient_step:
  assumes "StartClient E C node (world s) = Inr r" "r \<noteq> Some (Some (world s))" "cfg_IsCluster C"
    "node \<in> set (cfg_Clusters C)" "\<And>t k bs. Dial E (Host node) t = Some (k, bs) \<Longrightarrow> conns (world s) k = None"
  obtains "r = Some None" | c w go where "step C s \<lparr>world = w, stages = (stages s)(c := goes_on go)\<rparr>"
    "r = (if go then cluster_ReadLoop cluster_ProcessMessage c w else Some (Some w))"
proof -
  from assms(1,2) obtain t k bs where d: "Dial E (Host node) t = Some (k, bs)"
    "r = HandlerClient (cfg_ClusterName C) (cfg_Clusters C) k node (open_conn k bs (world s))"
    by (auto simp: StartClient_def split: sum.splits option.splits)
  obtain c u where n: "NewClient ClusterClient k TypClient (open_conn k bs (world s)) = (c, u)" by force
  show thesis
  proof (cases "HandlerClient_connect (cfg_ClusterName C) (cfg_Clusters C) c node u")
    case None
    with d(2) n that(1) show thesis by (simp add: HandlerClient_def)
  next
    case (Some gw)
    obtain go w where gw: "gw = (go, w)" by force
    from peer_dial [OF assms(3,4,5) n] d(1) Some gw have "step C s \<lparr>world = w, stages = (stages s)(c := goes_on go)\<rparr>"
      by blast
    moreover have "r = (if go then cluster_ReadLoop cluster_ProcessMessage c w else Some (Some w))"
      using d(2) n Some gw by (simp add: HandlerClient_def)
    ultimately show thesis by (rule that(2))
  qed
qed

lemma StateLoop_step:
  "StateLoop_turn Tick (world s) = Some (go, w) \<Longrightarrow> go \<and> step C s (s\<lparr>world := w\<rparr>)"
  by (auto simp: StateLoop_turn_def intro: step.state split: Option.bind_splits)

lemma HeartBeat_step:
  "HeartBeat_turn (cfg_Clusters C) Tick (world s) = Some (go, dial, w) \<Longrightarrow> cfg_IsCluster C \<Longrightarrow>
     go \<and> step C s (s\<lparr>world := w\<rparr>)"
  by (auto simp: HeartBeat_turn_def intro: step.health split: Option.bind_splits)

end
