(* ===== verification/Config_Properties.thy ===== *)
theory Config_Properties
  imports Start_Up
begin

text \<open>
  What the command line can and cannot set.
\<close>

lemma Configure_eq:
  "Configure DecodeFile args c =
     (case flag_Parse flag_set args (declare_flags c) of
        Inl n \<Rightarrow> Inl n
      | Inr vars \<Rightarrow>
          (if configFile vars = [] then Inr (cfg vars)
           else case DecodeFile (configFile vars) (cfg vars) of None \<Rightarrow> Inl 1 | Some c \<Rightarrow> Inr c))"
  by (simp add: Configure_def declare_flags_def Let_def split: sum.split option.split)

text \<open>
  What the command line cannot set: whatever the arguments are, \<open>-clusters\<close> leaves the list of nodes as
  it was and no flag reaches the setting for TLS on websockets; and only declaring the flags makes
  the switch for websockets that for their TLS, and the switch for TLS on TCP that of the cluster. Without
  a configuration file the result is what the flags left.
\<close>

theorem configure_flags:
  "Configure DecodeFile [] c = Inr (c\<lparr>cfg_TcpTls := cfg_ClusterTls c, cfg_Websocket := cfg_WsTls c\<rparr>) \<and>
   (\<forall>vars. flag_Parse flag_set args (declare_flags c) = Inr vars \<longrightarrow>
      cfg_Clusters (cfg vars) = cfg_Clusters c \<and> cfg_WsTls (cfg vars) = cfg_WsTls c \<and>
      (configFile vars = [] \<longrightarrow> Configure DecodeFile args c = Inr (cfg vars)))"
proof (intro conjI allI impI)
  show "Configure DecodeFile [] c = Inr (c\<lparr>cfg_TcpTls := cfg_ClusterTls c, cfg_Websocket := cfg_WsTls c\<rparr>)"
    by (simp add: Configure_eq flag_Parse.simps parseOne_def declare_flags_def)
  fix vars assume v: "flag_Parse flag_set args (declare_flags c) = Inr vars"
  let ?R = "\<lambda>s t. cfg_Clusters (cfg t) = cfg_Clusters (cfg s) \<and> cfg_WsTls (cfg t) = cfg_WsTls (cfg (s :: FlagVars))"
  have "\<forall>(n, fl) \<in> set flag_set. flag_keeps ?R fl"
    by (auto simp: flag_set_def flag_keeps_def split: option.splits)
  from flag_Parse_keeps [of flag_set ?R, OF this _ _ v] show
    "cfg_Clusters (cfg vars) = cfg_Clusters c" "cfg_WsTls (cfg vars) = cfg_WsTls c"
    by (auto simp: declare_flags_def)
  show "Configure DecodeFile args c = Inr (cfg vars)" if "configFile vars = []"
    using that by (simp add: Configure_eq v)
qed

text \<open>A decoder that always fails, and a command line that asks for TLS on websockets and for a node.\<close>

theorem configure_flags_witness:
  "\<exists>vars. flag_Parse flag_set [''-ws-tls'', ''-clusters'', ''n2//h:1''] (declare_flags zero_Config) = Inr vars \<and>
    clusters_flag vars = ''n2//h:1'' \<and> cfg_Websocket (cfg vars) \<and> \<not> cfg_WsTls (cfg vars) \<and>
    Configure (\<lambda>_ _. None) [''-ws-tls'', ''-clusters'', ''n2//h:1''] zero_Config = Inr (cfg vars) \<and>
    cfg_Clusters (cfg vars) = []"
proof -
  let ?vars = "\<lparr>cfg = zero_Config\<lparr>cfg_Websocket := True\<rparr>, configFile = [], clusters_flag = ''n2//h:1''\<rparr>"
  have "flag_Parse flag_set [''-ws-tls'', ''-clusters'', ''n2//h:1''] (declare_flags zero_Config) = Inr ?vars"
    by code_simp
  with configure_flags [of "\<lambda>_ _. None" zero_Config "[''-ws-tls'', ''-clusters'', ''n2//h:1'']"] show ?thesis
    by (auto simp: zero_Config_def)
qed

section \<open>Start-up\<close>

text \<open>
  C34. What the server listens to. Whatever the command line is, the list of nodes and the setting for TLS on
  websockets are those of \<open>conf.toml\<close>, if the command line names no other file. Without a command line the
  listeners depend on less of the file than it has: with \<open>clusterTls\<close> both the TCP listener and the cluster's
  let in only clients with a certificate of the configured authorities, without it both are plain, whatever
  \<open>tcpTls\<close> says; websockets are served exactly with \<open>wsTls\<close>, whatever \<open>websocket\<close> says, and then with TLS
  that asks for no certificate.
\<close>

theorem start_up:
  assumes "DecodeFile ''conf.toml'' zero_Config = Some c"
  shows "(\<forall>vars. flag_Parse flag_set args (declare_flags c) = Inr vars \<and> configFile vars = [] \<longrightarrow>
      main DecodeFile args now = Inr (cfg vars, NewServer now, Server_Start (cfg vars)) \<and>
      cfg_Clusters (cfg vars) = cfg_Clusters c \<and> cfg_WsTls (cfg vars) = cfg_WsTls c) \<and>
    (\<exists>C gs. main DecodeFile [] now = Inr (C, NewServer now, gs) \<and>
      (\<forall>l. tcp_listener E C = Inr l \<longrightarrow>
         (if cfg_ClusterTls c then verifies_clients E c (TcpHost c) l else l = Plain (TcpHost c))) \<and>
      (\<forall>l. cluster_listener E C = Inr l \<longrightarrow>
         (if cfg_ClusterTls c then verifies_clients E c (ClusterHost c) l else l = Plain (ClusterHost c))) \<and>
      (GoStartWebsocket \<in> set gs \<longleftrightarrow> cfg_WsTls c) \<and>
      (\<forall>l. GoStartWebsocket \<in> set gs \<and> StartWebsocket E C = Inr l \<longrightarrow>
         (\<exists>t. l = Tls (WsHost c) t \<and> ClientAuth t = NoClientCert)))" (is "_ \<and> (\<exists>C gs. ?Q C gs)")
proof (intro conjI allI impI)
  note flags = configure_flags [of DecodeFile c args]
  show "main DecodeFile args now = Inr (cfg vars, NewServer now, Server_Start (cfg vars))"
    "cfg_Clusters (cfg vars) = cfg_Clusters c" "cfg_WsTls (cfg vars) = cfg_WsTls c"
    if "flag_Parse flag_set args (declare_flags c) = Inr vars \<and> configFile vars = []" for vars
    using flags assms that by (simp_all add: main_def config_init_def)
  let ?C = "c\<lparr>cfg_TcpTls := cfg_ClusterTls c, cfg_Websocket := cfg_WsTls c\<rparr>"
  have same: "TcpHost (c\<lparr>cfg_TcpTls := t, cfg_Websocket := b\<rparr>) = TcpHost c"
    "ClusterHost (c\<lparr>cfg_TcpTls := t, cfg_Websocket := b\<rparr>) = ClusterHost c"
    "WsHost (c\<lparr>cfg_TcpTls := t, cfg_Websocket := b\<rparr>) = WsHost c"
    "verifies_clients E (c\<lparr>cfg_TcpTls := t, cfg_Websocket := b\<rparr>) = verifies_clients E c" for t b
    by (simp_all add: TcpHost_def ClusterHost_def WsHost_def verifies_clients_def fun_eq_iff)
  show "\<exists>C gs. ?Q C gs"
  proof (intro exI [of _ ?C] exI [of _ "Server_Start ?C"] conjI allI impI)
    show "main DecodeFile [] now = Inr (?C, NewServer now, Server_Start ?C)"
      using flags assms by (simp add: main_def config_init_def)
    show "if cfg_ClusterTls c then verifies_clients E c (TcpHost c) l else l = Plain (TcpHost c)"
      if "tcp_listener E ?C = Inr l" for l
      using tcp_listener_kind [OF that] by (simp add: same split: if_splits)
    show "if cfg_ClusterTls c then verifies_clients E c (ClusterHost c) l else l = Plain (ClusterHost c)"
      if "cluster_listener E ?C = Inr l" for l
      using cluster_listener_kind [OF that] by (simp add: same split: if_splits)
    show on: "GoStartWebsocket \<in> set (Server_Start ?C) \<longleftrightarrow> cfg_WsTls c" by (simp add: Server_Start_def)
    show "\<exists>t. l = Tls (WsHost c) t \<and> ClientAuth t = NoClientCert"
      if "GoStartWebsocket \<in> set (Server_Start ?C) \<and> StartWebsocket E ?C = Inr l" for l
      using StartWebsocket_kind [OF conjunct2 [OF that]] that on by (simp add: same)
  qed
qed

text \<open>A file that asks for TLS on TCP and for websockets: the server listens in the clear, and to TCP alone.\<close>

definition open_env :: "(unit, unit) Env" where
  "open_env = \<lparr>LoadX509KeyPair = (\<lambda>_ _. Some ()), ReadFile = (\<lambda>_. Some []), pem_certs = (\<lambda>_. [()]),
     can_listen = (\<lambda>_. True), Dial = (\<lambda>_ _. None)\<rparr>"

theorem start_up_witness:
  "\<exists>C gs. main (\<lambda>_ c. Some (c\<lparr>cfg_TcpTls := True, cfg_Websocket := True, cfg_TcpPort := 1884\<rparr>)) [] 0 =
     Inr (C, NewServer 0, gs) \<and> tcp_listener open_env C = Inr (Plain '':1884'') \<and> GoStartWebsocket \<notin> set gs"
proof -
  let ?d = "\<lambda>(_ :: string) c. Some (c\<lparr>cfg_TcpTls := True, cfg_Websocket := True, cfg_TcpPort := 1884\<rparr>)"
  let ?c = "zero_Config\<lparr>cfg_TcpTls := True, cfg_Websocket := True, cfg_TcpPort := 1884\<rparr>"
  have f: "\<not> cfg_ClusterTls ?c" "\<not> cfg_WsTls ?c" by (simp_all add: zero_Config_def)
  have h: "TcpHost ?c = '':1884''" by code_simp
  obtain C gs where m: "main ?d [] 0 = Inr (C, NewServer 0, gs)" and
    l: "\<forall>l. tcp_listener open_env C = Inr l \<longrightarrow> l = Plain '':1884''" and w: "GoStartWebsocket \<notin> set gs"
    using start_up [of ?d ?c "[]" 0 open_env, OF refl] by (simp only: f h if_False) blast
  have "cfg_TcpTls C = False"
    using m by (auto simp: main_def config_init_def configure_flags zero_Config_def)
  then have "tcp_listener open_env C = Inr (Plain (TcpHost C))"
    by (simp add: tcp_listener_def net_Listen_def open_env_def)
  with m l w show ?thesis by auto
qed

end
