(* ===== verification/Packet_Text.thy ===== *)
theory Packet_Text
  imports Packet_Laws Go_Flags
begin

text \<open>
  What the packets say about themselves: the tables of names in \<open>packets/packets.go\<close>, and the methods \<open>String\<close>
  and \<open>Details\<close> of every packet. \<open>fmt.Sprintf\<close> is written out: \<open>%d\<close> is \<open>Itoa\<close>, \<open>%t\<close> is \<open>fmt_t\<close>, a string or a slice
  of bytes under \<open>%s\<close> is copied, a slice of strings is put in brackets, and a header is printed by its own
  \<open>String\<close>. A missing key of a Go map of strings gives the empty string.
\<close>

section \<open>Tables\<close>

definition PacketNames :: "(byte \<times> string) list" where
  "PacketNames =
    [(1, ''CONNECT''), (2, ''CONNACK''), (3, ''PUBLISH''), (4, ''PUBACK''), (5, ''PUBREC''), (6, ''PUBREL''),
     (7, ''PUBCOMP''), (8, ''SUBSCRIBE''), (9, ''SUBACK''), (10, ''UNSUBSCRIBE''), (11, ''UNSUBACK''),
     (12, ''PINGREQ''), (13, ''PINGRESP''), (14, ''DISCONNECT'')]"

definition ConnackReturnCodes :: "(byte \<times> string) list" where
  "ConnackReturnCodes =
    [(0, ''Connection Accepted''),
     (1, ''Connection Refused: Bad Protocol Version''),
     (2, ''Connection Refused: Client Identifier Rejected''),
     (3, ''Connection Refused: Server Unavailable''),
     (4, ''Connection Refused: Username or Password in unknown format''),
     (5, ''Connection Refused: Not Authorised''),
     (254, ''Connection Error''),
     (255, ''Connection Refused: Protocol Violation'')]"

text \<open>The errors of \<open>errors.New\<close> by their text; \<open>nil\<close> is \<open>None\<close>.\<close>

definition ErrorRefusedBadProtocolVersion :: string where
  "ErrorRefusedBadProtocolVersion = ''unacceptable protocol version''"
definition ErrorRefusedIDRejected :: string where "ErrorRefusedIDRejected = ''identifier rejected''"
definition ErrorRefusedServerUnavailable :: string where "ErrorRefusedServerUnavailable = ''server Unavailable''"
definition ErrorRefusedBadUsernameOrPassword :: string where
  "ErrorRefusedBadUsernameOrPassword = ''bad user name or password''"
definition ErrorRefusedNotAuthorised :: string where "ErrorRefusedNotAuthorised = ''not Authorized''"
definition ErrorNetworkError :: string where "ErrorNetworkError = ''network Error''"
definition ErrorProtocolViolation :: string where "ErrorProtocolViolation = ''protocol Violation''"

definition ConnErrors :: "(byte \<times> string option) list" where
  "ConnErrors =
    [(Accepted, None),
     (ErrRefusedBadProtocolVersion, Some ErrorRefusedBadProtocolVersion),
     (ErrRefusedIDRejected, Some ErrorRefusedIDRejected),
     (ErrRefusedServerUnavailable, Some ErrorRefusedServerUnavailable),
     (ErrRefusedBadUsernameOrPassword, Some ErrorRefusedBadUsernameOrPassword),
     (ErrRefusedNotAuthorised, Some ErrorRefusedNotAuthorised),
     (ErrNetworkError, Some ErrorNetworkError),
     (ErrProtocolViolation, Some ErrorProtocolViolation)]"

section \<open>String\<close>

definition fmt_t :: "bool \<Rightarrow> string" where
  "fmt_t b = (if b then ''true'' else ''false'')"

abbreviation fmt_d :: "'w::len word \<Rightarrow> string" where
  "fmt_d x \<equiv> Itoa (uint x)"

definition fmt_strings :: "string list \<Rightarrow> string" where
  "fmt_strings ts = ''['' @ Join CHR '' '' ts @ '']''"

definition FixedHeader_String :: "'a FixedHeader_scheme \<Rightarrow> string" where
  "FixedHeader_String fh =
     (case map_of PacketNames (MessageType fh) of None \<Rightarrow> [] | Some n \<Rightarrow> n) @ '': dup: '' @ fmt_t (Dup fh) @
     '' qos: '' @ fmt_d (Qos fh) @ '' retain: '' @ fmt_t (Retain fh) @ '' rLength: '' @ Itoa (RemainingLength fh)"

definition ConnectPacket_String :: "ConnectPacket \<Rightarrow> string" where
  "ConnectPacket_String c =
    (let password = (if length (Password c) > 0 then ''<redacted>'' else [])
     in FixedHeader_String c @ '' protocolversion: '' @ fmt_d (ProtocolVersion c) @ '' protocolname: '' @ ProtocolName c @
       '' cleansession: '' @ fmt_t (CleanSession c) @ '' willflag: '' @ fmt_t (WillFlag c) @
       '' WillQos: '' @ fmt_d (WillQos c) @ '' WillRetain: '' @ fmt_t (WillRetain c) @
       '' Usernameflag: '' @ fmt_t (UsernameFlag c) @ '' Passwordflag: '' @ fmt_t (PasswordFlag c) @
       '' keepalive: '' @ fmt_d (Keepalive c) @ '' clientId: '' @ ClientIdentifier c @ '' willtopic: '' @ WillTopic c @
       '' willmessage: '' @ string_of_bytes (WillMessage c) @ '' Username: '' @ Username c @ '' Password: '' @ password)"

definition ConnackPacket_String :: "ConnackPacket \<Rightarrow> string" where
  "ConnackPacket_String ca =
     FixedHeader_String ca @ '' sessionpresent: '' @ fmt_t (SessionPresent ca) @ '' returncode: '' @ fmt_d (ReturnCode ca)"

definition PublishPacket_String :: "PublishPacket \<Rightarrow> string" where
  "PublishPacket_String p =
     FixedHeader_String p @ '' topicName: '' @ TopicName p @ '' MessageID: '' @ fmt_d (pub_MessageID p) @
     '' payload: '' @ string_of_bytes (Payload p)"

definition SubscribePacket_String :: "SubscribePacket \<Rightarrow> string" where
  "SubscribePacket_String s =
     FixedHeader_String s @ '' MessageID: '' @ fmt_d (sub_MessageID s) @ '' topics: '' @ fmt_strings (sub_Topics s)"

definition PubackPacket_String :: "PubackPacket \<Rightarrow> string" where
  "PubackPacket_String p = FixedHeader_String p @ '' MessageID: '' @ fmt_d (puback_MessageID p)"

definition PubrecPacket_String :: "PubrecPacket \<Rightarrow> string" where
  "PubrecPacket_String p = FixedHeader_String p @ '' MessageID: '' @ fmt_d (pubrec_MessageID p)"

definition PubrelPacket_String :: "PubrelPacket \<Rightarrow> string" where
  "PubrelPacket_String p = FixedHeader_String p @ '' MessageID: '' @ fmt_d (pubrel_MessageID p)"

definition PubcompPacket_String :: "PubcompPacket \<Rightarrow> string" where
  "PubcompPacket_String p = FixedHeader_String p @ '' MessageID: '' @ fmt_d (pubcomp_MessageID p)"

definition SubackPacket_String :: "SubackPacket \<Rightarrow> string" where
  "SubackPacket_String p = FixedHeader_String p @ '' MessageID: '' @ fmt_d (suback_MessageID p)"

definition UnsubscribePacket_String :: "UnsubscribePacket \<Rightarrow> string" where
  "UnsubscribePacket_String p = FixedHeader_String p @ '' MessageID: '' @ fmt_d (unsub_MessageID p)"

definition UnsubackPacket_String :: "UnsubackPacket \<Rightarrow> string" where
  "UnsubackPacket_String p = FixedHeader_String p @ '' MessageID: '' @ fmt_d (unsuback_MessageID p)"

definition PingreqPacket_String :: "PingreqPacket \<Rightarrow> string" where
  "PingreqPacket_String p = FixedHeader_String p"

definition PingrespPacket_String :: "PingrespPacket \<Rightarrow> string" where
  "PingrespPacket_String p = FixedHeader_String p"

definition DisconnectPacket_String :: "DisconnectPacket \<Rightarrow> string" where
  "DisconnectPacket_String p = FixedHeader_String p"

fun String :: "ControlPacket \<Rightarrow> string" where
  "String (ConnectP p) = ConnectPacket_String p"
| "String (ConnackP p) = ConnackPacket_String p"
| "String (PublishP p) = PublishPacket_String p"
| "String (PubackP p) = PubackPacket_String p"
| "String (PubrecP p) = PubrecPacket_String p"
| "String (PubrelP p) = PubrelPacket_String p"
| "String (PubcompP p) = PubcompPacket_String p"
| "String (SubscribeP p) = SubscribePacket_String p"
| "String (SubackP p) = SubackPacket_String p"
| "String (UnsubscribeP p) = UnsubscribePacket_String p"
| "String (UnsubackP p) = UnsubackPacket_String p"
| "String (PingreqP p) = PingreqPacket_String p"
| "String (PingrespP p) = PingrespPacket_String p"
| "String (DisconnectP p) = DisconnectPacket_String p"

section \<open>Details\<close>

record Details =
  det_Qos :: byte
  det_MessageID :: uint16

definition ConnectPacket_Details :: "ConnectPacket \<Rightarrow> Details" where
  "ConnectPacket_Details p = \<lparr>det_Qos = 0, det_MessageID = 0\<rparr>"

definition ConnackPacket_Details :: "ConnackPacket \<Rightarrow> Details" where
  "ConnackPacket_Details p = \<lparr>det_Qos = 0, det_MessageID = 0\<rparr>"

definition PublishPacket_Details :: "PublishPacket \<Rightarrow> Details" where
  "PublishPacket_Details p = \<lparr>det_Qos = Qos p, det_MessageID = pub_MessageID p\<rparr>"

definition PubackPacket_Details :: "PubackPacket \<Rightarrow> Details" where
  "PubackPacket_Details p = \<lparr>det_Qos = Qos p, det_MessageID = puback_MessageID p\<rparr>"

definition PubrecPacket_Details :: "PubrecPacket \<Rightarrow> Details" where
  "PubrecPacket_Details p = \<lparr>det_Qos = Qos p, det_MessageID = pubrec_MessageID p\<rparr>"

definition PubrelPacket_Details :: "PubrelPacket \<Rightarrow> Details" where
  "PubrelPacket_Details p = \<lparr>det_Qos = Qos p, det_MessageID = pubrel_MessageID p\<rparr>"

definition PubcompPacket_Details :: "PubcompPacket \<Rightarrow> Details" where
  "PubcompPacket_Details p = \<lparr>det_Qos = Qos p, det_MessageID = pubcomp_MessageID p\<rparr>"

definition SubscribePacket_Details :: "SubscribePacket \<Rightarrow> Details" where
  "SubscribePacket_Details p = \<lparr>det_Qos = 1, det_MessageID = sub_MessageID p\<rparr>"

definition SubackPacket_Details :: "SubackPacket \<Rightarrow> Details" where
  "SubackPacket_Details p = \<lparr>det_Qos = 0, det_MessageID = suback_MessageID p\<rparr>"

definition UnsubscribePacket_Details :: "UnsubscribePacket \<Rightarrow> Details" where
  "UnsubscribePacket_Details p = \<lparr>det_Qos = 1, det_MessageID = unsub_MessageID p\<rparr>"

definition UnsubackPacket_Details :: "UnsubackPacket \<Rightarrow> Details" where
  "UnsubackPacket_Details p = \<lparr>det_Qos = 0, det_MessageID = unsuback_MessageID p\<rparr>"

definition PingreqPacket_Details :: "PingreqPacket \<Rightarrow> Details" where
  "PingreqPacket_Details p = \<lparr>det_Qos = 0, det_MessageID = 0\<rparr>"

definition PingrespPacket_Details :: "PingrespPacket \<Rightarrow> Details" where
  "PingrespPacket_Details p = \<lparr>det_Qos = 0, det_MessageID = 0\<rparr>"

definition DisconnectPacket_Details :: "DisconnectPacket \<Rightarrow> Details" where
  "DisconnectPacket_Details p = \<lparr>det_Qos = 0, det_MessageID = 0\<rparr>"

fun Details_of :: "ControlPacket \<Rightarrow> Details" where
  "Details_of (ConnectP p) = ConnectPacket_Details p"
| "Details_of (ConnackP p) = ConnackPacket_Details p"
| "Details_of (PublishP p) = PublishPacket_Details p"
| "Details_of (PubackP p) = PubackPacket_Details p"
| "Details_of (PubrecP p) = PubrecPacket_Details p"
| "Details_of (PubrelP p) = PubrelPacket_Details p"
| "Details_of (PubcompP p) = PubcompPacket_Details p"
| "Details_of (SubscribeP p) = SubscribePacket_Details p"
| "Details_of (SubackP p) = SubackPacket_Details p"
| "Details_of (UnsubscribeP p) = UnsubscribePacket_Details p"
| "Details_of (UnsubackP p) = UnsubackPacket_Details p"
| "Details_of (PingreqP p) = PingreqPacket_Details p"
| "Details_of (PingrespP p) = PingrespPacket_Details p"
| "Details_of (DisconnectP p) = DisconnectPacket_Details p"

lemmas Details_defs =
  ConnectPacket_Details_def ConnackPacket_Details_def PublishPacket_Details_def PubackPacket_Details_def
  PubrecPacket_Details_def PubrelPacket_Details_def PubcompPacket_Details_def SubscribePacket_Details_def
  SubackPacket_Details_def UnsubscribePacket_Details_def UnsubackPacket_Details_def PingreqPacket_Details_def
  PingrespPacket_Details_def DisconnectPacket_Details_def

section \<open>What the texts tell\<close>

text \<open>A packet can be made of exactly the types that have a name.\<close>

lemma named_types:
  "(map_of PacketNames t \<noteq> None) = (NewControlPacket t \<noteq> None)"
  "(map_of PacketNames (MessageType fh) \<noteq> None) = (\<exists>p. NewControlPacketWithHeader fh = Inr p)"
  by (simp_all add: PacketNames_def NewControlPacket_def NewControlPacketWithHeader_def packet_type)

text \<open>The verdict of \<open>Validate\<close> has a text, and an error exactly if it is not an acceptance.\<close>

lemma verdict_text:
  "map_of ConnackReturnCodes (Validate c) \<noteq> None \<and> map_of ConnErrors (Validate c) \<noteq> None \<and>
   (map_of ConnErrors (Validate c) = Some None) = (Validate c = Accepted)"
  by (auto simp: Validate_def ConnackReturnCodes_def ConnErrors_def connack_code)

text \<open>The text of a CONNECT tells of the password only whether there is one.\<close>

theorem password_redacted:
  "(Password c = []) = (b = []) \<Longrightarrow> ConnectPacket_String (c\<lparr>Password := b\<rparr>) = ConnectPacket_String c"
  by (simp add: ConnectPacket_String_def FixedHeader_String_def Let_def)

text \<open>The details do not depend on the fields of the header that writing and reading compute, so they cross the wire.\<close>

lemma Details_content: "Details_of (content p) = Details_of p"
proof -
  have "Details_of (set_size n q) = Details_of q" "Details_of (set_length n q) = Details_of q" for n q
    by (cases q; simp add: Details_defs)+
  then show ?thesis by (simp add: content_def)
qed

theorem details_received:
  assumes "sendable p"
  shows "\<exists>q. ReadPacket (packet_bytes p @ rest) = (Some q, None, rest) \<and> Details_of q = Details_of p"
proof -
  obtain q where q: "received p = Some q" by (simp add: received_def)
  then have "content q = content p" by (auto simp: received_def content_written)
  then have "Details_of q = Details_of p" using Details_content by metis
  with ReadPacket_packet_bytes [OF assms] q show ?thesis by simp
qed

end
