(* ===== verification/Logger.thy ===== *)
theory Logger
  imports Start_Up
begin

text \<open>
  \<open>logger/log.go\<close>: the functions the server logs with, and the initialiser that sets the level of the log.
  They hand their arguments to the package logrus, which is third-party: a record of functions
  on a state of its own. A function that logs gives the new state, or the code with which the process ends.
\<close>

datatype log_level = PanicLevel | FatalLevel | ErrorLevel | WarnLevel | InfoLevel | DebugLevel | TraceLevel

record ('v, 'l) logrus =
  SetTextFormatter :: "'l \<Rightarrow> 'l"
  SetLevel :: "log_level \<Rightarrow> 'l \<Rightarrow> 'l"
  Log :: "log_level \<Rightarrow> 'v list \<Rightarrow> 'l \<Rightarrow> nat + 'l"
  Logf :: "log_level \<Rightarrow> string \<Rightarrow> 'v list \<Rightarrow> 'l \<Rightarrow> nat + 'l"

definition logger_init :: "('v, 'l) logrus \<Rightarrow> Config \<Rightarrow> 'l \<Rightarrow> 'l" where
  "logger_init L C l =
     (let l = SetTextFormatter L l
      in if cfg_Debug C then SetLevel L DebugLevel l else SetLevel L InfoLevel l)"

definition Debug :: "('v, 'l) logrus \<Rightarrow> 'v list \<Rightarrow> 'l \<Rightarrow> nat + 'l" where
  "Debug L args = Log L DebugLevel args"

definition Trace :: "('v, 'l) logrus \<Rightarrow> 'v list \<Rightarrow> 'l \<Rightarrow> nat + 'l" where
  "Trace L args = Log L TraceLevel args"

definition Info :: "('v, 'l) logrus \<Rightarrow> 'v list \<Rightarrow> 'l \<Rightarrow> nat + 'l" where
  "Info L args = Log L InfoLevel args"

definition Warn :: "('v, 'l) logrus \<Rightarrow> 'v list \<Rightarrow> 'l \<Rightarrow> nat + 'l" where
  "Warn L args = Log L WarnLevel args"

definition Error :: "('v, 'l) logrus \<Rightarrow> 'v list \<Rightarrow> 'l \<Rightarrow> nat + 'l" where
  "Error L args = Log L ErrorLevel args"

definition Fatal :: "('v, 'l) logrus \<Rightarrow> 'v list \<Rightarrow> 'l \<Rightarrow> nat + 'l" where
  "Fatal L args = Log L FatalLevel args"

definition Panic :: "('v, 'l) logrus \<Rightarrow> 'v list \<Rightarrow> 'l \<Rightarrow> nat + 'l" where
  "Panic L args = Log L PanicLevel args"

definition Debugf :: "('v, 'l) logrus \<Rightarrow> string \<Rightarrow> 'v list \<Rightarrow> 'l \<Rightarrow> nat + 'l" where
  "Debugf L format args = Logf L DebugLevel format args"

definition Tracef :: "('v, 'l) logrus \<Rightarrow> string \<Rightarrow> 'v list \<Rightarrow> 'l \<Rightarrow> nat + 'l" where
  "Tracef L format args = Logf L TraceLevel format args"

definition Infof :: "('v, 'l) logrus \<Rightarrow> string \<Rightarrow> 'v list \<Rightarrow> 'l \<Rightarrow> nat + 'l" where
  "Infof L format args = Logf L InfoLevel format args"

definition Warnf :: "('v, 'l) logrus \<Rightarrow> string \<Rightarrow> 'v list \<Rightarrow> 'l \<Rightarrow> nat + 'l" where
  "Warnf L format args = Logf L WarnLevel format args"

definition Errorf :: "('v, 'l) logrus \<Rightarrow> string \<Rightarrow> 'v list \<Rightarrow> 'l \<Rightarrow> nat + 'l" where
  "Errorf L format args = Logf L ErrorLevel format args"

definition Fatalf :: "('v, 'l) logrus \<Rightarrow> string \<Rightarrow> 'v list \<Rightarrow> 'l \<Rightarrow> nat + 'l" where
  "Fatalf L format args = Logf L FatalLevel format args"

definition Panicf :: "('v, 'l) logrus \<Rightarrow> string \<Rightarrow> 'v list \<Rightarrow> 'l \<Rightarrow> nat + 'l" where
  "Panicf L format args = Logf L PanicLevel format args"

text \<open>
  The process from its start: Go runs the initialiser of \<open>config\<close>, then that of \<open>logger\<close>, which imports it, then
  \<open>main\<close>. \<open>Configure\<close> never returns an error, as its flags exit on errors, so \<open>main\<close> logs nothing itself.
\<close>

definition process_start ::
  "('v, 'l) logrus \<Rightarrow> toml_decoder \<Rightarrow> string list \<Rightarrow> int64 \<Rightarrow> 'l \<Rightarrow> nat + (Config \<times> World \<times> goroutine list) \<times> 'l" where
  "process_start L DecodeFile args now l =
     (case config_init DecodeFile of
        Inl n \<Rightarrow> Inl n
      | Inr C \<Rightarrow> map_sum id (\<lambda>r. (r, logger_init L C l)) (main DecodeFile args now))"

text \<open>
  The level of the log is that of \<open>conf.toml\<close>, whatever the file says that the command line names.
\<close>

theorem log_level_fixed:
  assumes "DecodeFile ''conf.toml'' zero_Config = Some c" "main DecodeFile args now = Inr (C, w, gs)"
  shows "process_start L DecodeFile args now l =
    Inr ((C, w, gs), SetLevel L (if cfg_Debug c then DebugLevel else InfoLevel) (SetTextFormatter L l))"
  using assms by (simp add: process_start_def config_init_def logger_init_def Let_def)

text \<open>A log that keeps its level only, and a file \<open>d\<close> that asks for debugging.\<close>

theorem log_level_fixed_witness:
  "\<exists>C w gs. process_start \<lparr>SetTextFormatter = id, SetLevel = (\<lambda>v _. v), Log = (\<lambda>_ _. Inr), Logf = (\<lambda>_ _ _. Inr)\<rparr>
     (\<lambda>f c. Some (c\<lparr>cfg_Debug := f = ''d''\<rparr>)) [''-c'', ''d''] 0 PanicLevel = Inr ((C, w, gs), InfoLevel) \<and> cfg_Debug C"
proof -
  let ?d = "\<lambda>f c. Some (c\<lparr>cfg_Debug := f = ''d''\<rparr>)"
  obtain C w gs where m: "main ?d [''-c'', ''d''] 0 = Inr (C, w, gs)" "cfg_Debug C"
  proof -
    have "flag_Parse flag_set [''-c'', ''d''] (declare_flags zero_Config) =
        Inr \<lparr>cfg = zero_Config, configFile = ''d'', clusters_flag = []\<rparr>" by code_simp
    then have "Configure ?d [''-c'', ''d''] zero_Config = Inr (zero_Config\<lparr>cfg_Debug := True\<rparr>)"
      by (simp add: Configure_def declare_flags_def zero_Config_def)
    then show thesis using that by (simp add: main_def config_init_def zero_Config_def)
  qed
  from log_level_fixed [of ?d, OF refl m(1), of "\<lparr>SetTextFormatter = id, SetLevel = (\<lambda>v _. v), Log = (\<lambda>_ _. Inr),
      Logf = (\<lambda>_ _ _. Inr)\<rparr>" PanicLevel] m
  show ?thesis by (auto simp: zero_Config_def)
qed

end
