(* ===== verification/Interleaving.thy ===== *)
theory Interleaving
  imports Sample_Run
begin

text \<open>
  The goroutines of the server in turns. In \<open>System\<close> a turn of a goroutine is a whole handler; here
  it is one action: one call on an object the goroutines share, made in one piece. A handler that is under way has only
  its local variables of its own, so what it read from the shared objects may be out of date. The accesses
  of one call that others can run into are taken apart in \<open>Storage_Calls\<close> and \<open>Client_Calls\<close>.
\<close>

section \<open>Actions of goroutines\<close>

inductive turn :: "World \<Rightarrow> World \<Rightarrow> bool" where
  of_client: "is_client BrokerClient w c \<Longrightarrow> broker_allowed c l \<Longrightarrow> act l w w' \<Longrightarrow> turn w w'"
| of_peer: "is_client ClusterClient w c \<Longrightarrow> cluster_allowed c l \<Longrightarrow> act l w w' \<Longrightarrow> turn w w'"
| of_ticker: "l \<in> quiet \<Longrightarrow> act l w w' \<Longrightarrow> turn w w'"
| of_read: "reads c w w' \<Longrightarrow> turn w w'"
| of_accept: "conns w k = None \<Longrightarrow> NewClient K k t (open_conn k bs w) = (c, w') \<Longrightarrow> turn w w'"
| of_break: "turn w (conn_Close k w)"
| of_clock: "turn w (w\<lparr>clock := now\<rparr>)"
| of_timer: "turn w (expireQos2Msg (w\<lparr>timers := remove1 t (timers w)\<rparr>))"

inductive interleaved :: "World \<Rightarrow> bool" where
  start: "interleaved (NewServer now)"
| turn: "interleaved w \<Longrightarrow> turn w w' \<Longrightarrow> interleaved w'"

lemma turns_interleaved: "turn\<^sup>*\<^sup>* w w' \<Longrightarrow> interleaved w \<Longrightarrow> interleaved w'"
  by (induction rule: rtranclp_induct) (auto intro: interleaved.turn)

text \<open>A client that was allocated stays, as a client of its package.\<close>

lemma turn_keeps:
  assumes "turn w w'" "good_world w"
  shows "good_world w'" "is_client K w c \<Longrightarrow> is_client K w' c" "heap w c \<noteq> None \<Longrightarrow> heap w' c \<noteq> None"
proof -
  have "good_world w' \<and> (\<forall>c K. is_client K w c \<longrightarrow> is_client K w' c)" using assms
  proof cases
    case (of_client c l)
    have "good_world w'" by (rule act_good [OF of_client(3) broker_label_ok [OF of_client(1,2)] assms(2)])
    then show ?thesis using is_client_evolve [OF act_evolve [OF of_client(3)]] by simp
  next
    case (of_peer c l)
    have "good_world w'" by (rule act_good [OF of_peer(3) cluster_label_ok [OF of_peer(1,2)] assms(2)])
    then show ?thesis using is_client_evolve [OF act_evolve [OF of_peer(3)]] by simp
  next
    case (of_ticker l)
    have "good_world w'" by (rule act_good [OF of_ticker(2) _ assms(2)]) (use of_ticker(1) in auto)
    then show ?thesis using is_client_evolve [OF act_evolve [OF of_ticker(2)]] by simp
  next
    case (of_read c)
    then show ?thesis using reads_good [OF of_read assms(2)] reads_is_client [OF of_read] by simp
  next
    case (of_accept k K t bs c)
    note n = NewClient_good [OF of_accept(2,1) assms(2)]
    have "is_client J w d \<Longrightarrow> is_client J w' d" for J d
      using n(3) n(4) [of d] by (cases "d = c") (auto simp: is_client_def)
    with n(1) show ?thesis by simp
  next
    case (of_break k)
    then show ?thesis using conn_Close_good [OF assms(2)] is_client_evolve [OF conn_Close_evolve] by simp
  qed (simp_all add: assms(2) is_client_def expireQos2Msg_def)
  then show "good_world w'" "is_client K w c \<Longrightarrow> is_client K w' c" "heap w c \<noteq> None \<Longrightarrow> heap w' c \<noteq> None"
    by (auto simp: is_client_def)
qed

lemma turns_keep:
  assumes "turn\<^sup>*\<^sup>* w w'" "good_world w"
  shows "good_world w' \<and> (is_client K w c \<longrightarrow> is_client K w' c)"
  using assms by (induction rule: rtranclp_induct) (auto intro: turn_keeps)

lemma interleaved_good: "interleaved w \<Longrightarrow> good_world w"
proof (induction rule: interleaved.induct)
  case (start now)
  show ?case using good_started [of now] by (simp add: good_system_def started_def)
next
  case (turn w w')
  from turn_keeps(1) [OF turn(2,3)] show ?case .
qed

section \<open>Handlers are sequences of turns\<close>

lemma acts_turns:
  assumes "acts L w w'" "\<And>l u v. l \<in> L \<Longrightarrow> act l u v \<Longrightarrow> evolve w u \<Longrightarrow> turn u v"
  shows "turn\<^sup>*\<^sup>* w w'"
proof -
  have "evolve w w' \<and> turn\<^sup>*\<^sup>* w w'"
    by (rule acts_induct [OF assms(1), where P = "\<lambda>u. evolve w u \<and> turn\<^sup>*\<^sup>* w u"])
      (auto intro: assms(2) evolve_trans act_evolve rtranclp.rtrancl_into_rtrancl)
  then show ?thesis ..
qed

lemma broker_turns: "acts (Collect (broker_allowed c)) w w' \<Longrightarrow> is_client BrokerClient w c \<Longrightarrow> turn\<^sup>*\<^sup>* w w'"
  by (erule acts_turns) (auto intro: of_client simp: is_client_evolve)

lemma peer_turns: "acts (Collect (cluster_allowed c)) w w' \<Longrightarrow> is_client ClusterClient w c \<Longrightarrow> turn\<^sup>*\<^sup>* w w'"
  by (erule acts_turns) (auto intro: of_peer simp: is_client_evolve)

lemma quiet_turns: "acts quiet w w' \<Longrightarrow> turn\<^sup>*\<^sup>* w w'"
  by (erule acts_turns) (auto intro: of_ticker)

lemma read_then_turns:
  "read_then (Collect (broker_allowed c)) c w w' \<Longrightarrow> is_client BrokerClient w c \<Longrightarrow> turn\<^sup>*\<^sup>* w w'"
  "read_then (Collect (cluster_allowed c)) c w w' \<Longrightarrow> is_client ClusterClient w c \<Longrightarrow> turn\<^sup>*\<^sup>* w w'"
  unfolding read_then_def
  by (meson converse_rtranclp_into_rtranclp of_read reads_is_client broker_turns peer_turns)+

lemma step_turns: "step C s s' \<Longrightarrow> good_system s \<Longrightarrow> turn\<^sup>*\<^sup>* (world s) (world s')"
proof (induction rule: step.induct)
  case (accept s k t bs c w)
  then show ?case by (auto intro: of_accept)
next
  case (peer_accept s k bs c w)
  then show ?case by (auto intro: of_accept)
next
  case (peer_dial node s k bs c w go w')
  from peer_dial(6) have "good_world (world s)" by (simp add: good_system_def)
  from NewClient_good(2) [OF peer_dial(4,3) this] peer_turns [OF HandlerClient_connect_acts [OF peer_dial(5)]]
  have "turn\<^sup>*\<^sup>* w w'" by blast
  with of_accept [OF peer_dial(3,4)] show ?case by (simp add: converse_rtranclp_into_rtranclp)
next
  case (connect s c go w)
  with read_then_turns(1) [OF Handler_connect_acts] show ?case by simp
next
  case (peer_connect s c go w)
  with read_then_turns(2) [OF HandlerServer_connect_acts] show ?case by simp
next
  case (read s c go w)
  with read_then_turns(1) [OF broker_read_once_acts] show ?case by simp
next
  case (peer_read s c go w)
  with read_then_turns(2) [OF cluster_read_once_acts] show ?case by simp
next
  case (state s w)
  with quiet_turns [OF publishState_acts] show ?case by simp
next
  case (health s dial w)
  with quiet_turns [OF CheckHealthy_acts] show ?case by simp
next
  case (fire t s)
  show ?case using of_timer [of "world s" t] by auto
qed (auto intro: of_break of_clock)

text \<open>
  Every step of a server whose handlers run in one piece is a sequence of turns, so the worlds it reaches are
  among those the turns reach, and what holds however the goroutines take turns holds of it. The turns are a
  bound from above: they let a client take any action that its handlers have, in any order.
\<close>

lemma steps_refine_turns:
  assumes "reachable C s"
  shows "interleaved (world s) \<and> (\<forall>s'. step C s s' \<longrightarrow> turn\<^sup>*\<^sup>* (world s) (world s'))"
proof -
  have "interleaved (world s)" using assms
  proof (induction rule: reachable.induct)
    case (start now)
    show ?case by (simp add: started_def interleaved.start)
  next
    case (step s s')
    with step_turns [OF step(2) reachable_good] turns_interleaved show ?case by blast
  qed
  with step_turns reachable_good [OF assms] show ?thesis by blast
qed

section \<open>The property\<close>



end
