(* ===== verification/Two_Nodes.thy ===== *)
theory Two_Nodes
  imports Cluster_Effects
begin

text \<open>
  Two nodes of a cluster, each with its own world, and the connection between them: what one node has
  written to its end arrives at the other's.
\<close>

section \<open>The connection\<close>

definition on_incoming :: "connref \<Rightarrow> (byte list \<Rightarrow> byte list) \<Rightarrow> World \<Rightarrow> World" where
  "on_incoming k f w =
     (case conns w k of
        None \<Rightarrow> w
      | Some cn \<Rightarrow> w\<lparr>conns := (conns w)(k \<mapsto> cn\<lparr>incoming := f (incoming cn)\<rparr>)\<rparr>)"

text \<open>Bytes arrive on a connection; a read leaves the rest.\<close>

abbreviation arrive :: "connref \<Rightarrow> byte list \<Rightarrow> World \<Rightarrow> World" where
  "arrive k bs \<equiv> on_incoming k (\<lambda>i. i @ bs)"

abbreviation taken :: "connref \<Rightarrow> byte list \<Rightarrow> World \<Rightarrow> World" where
  "taken k rest \<equiv> on_incoming k (\<lambda>_. rest)"

lemma on_incoming_fields [simp]:
  "brokerTopics (on_incoming k f w) = brokerTopics w" "clusterTopics (on_incoming k f w) = clusterTopics w"
  "heap (on_incoming k f w) = heap w" "clusters (on_incoming k f w) = clusters w"
  "GetId c (on_incoming k f w) = GetId c w" "is_client K (on_incoming k f w) c = is_client K w c"
  by (simp_all add: on_incoming_def GetId_eq is_client_def split: option.split)

lemma on_incoming_good: "good_world w \<Longrightarrow> good_world (on_incoming k f w)"
  using heap_ok_conns [of w] by (auto simp: on_incoming_def good_world_def split: option.split)

lemma on_incoming_attached:
  "attached w c k cn \<Longrightarrow> attached (on_incoming k f w) c k (cn\<lparr>incoming := f (incoming cn)\<rparr>)"
  by (auto simp: attached_def on_incoming_def)

lemma on_incoming_other:
  "good_world w \<Longrightarrow> attached w c k cn \<Longrightarrow> attached w d j dn \<Longrightarrow> c \<noteq> d \<Longrightarrow> attached (on_incoming k f w) d j dn"
  by (auto simp: attached_def on_incoming_def good_world_def heap_ok_def)

section \<open>Reading from the peer\<close>

lemma peer_read_sent:
  assumes "attached w e k cn" "incoming cn = packet_bytes p @ rest" "sendable p" "received p = Some q"
    "cluster_ProcessMessage e q (taken k rest w) = Some v"
  shows "cluster_read_once cluster_ProcessMessage e w = Some (True, v)"
proof -
  obtain cl where cl: "heap w e = Some cl" "conn cl = Some k" "conns w k = Some cn" "up cn"
    using assms(1) by (auto simp: attached_def)
  have "ReadPacket (incoming cn) = (Some q, None, rest)"
    using ReadPacket_packet_bytes [OF assms(3)] assms(2,4) by simp
  from read_world [OF cl this] cl(3) have "client_ReadPacket e w = Some (Some q, None, taken k rest w)"
    by (simp add: on_incoming_def)
  with assms(5) show ?thesis by (simp add: cluster_read_once_def)
qed

text \<open>A received packet is the one sent but for the two lengths of its header.\<close>

lemma content_fields:
  "content q = content (SubscribeP s) \<Longrightarrow> \<exists>t. q = SubscribeP t \<and> sub_Topics t = sub_Topics s \<and> sub_MessageID t = sub_MessageID s"
  "content q = content (UnsubscribeP u) \<Longrightarrow> \<exists>t. q = UnsubscribeP t \<and> unsub_Topics t = unsub_Topics u \<and> unsub_MessageID t = unsub_MessageID u"
  "content q = content (PublishP p) \<Longrightarrow> \<exists>t. q = PublishP t \<and> TopicName t = TopicName p \<and> Payload t = Payload p \<and>
     Qos t = Qos p \<and> Retain t = Retain p"
  "content q = content (SubackP a) \<Longrightarrow> \<exists>t. q = SubackP t"
  by (cases q; auto simp: content_def dest: arg_cong [where f = sub_Topics] arg_cong [where f = sub_MessageID]
      arg_cong [where f = unsub_Topics] arg_cong [where f = unsub_MessageID]
      arg_cong [where f = TopicName] arg_cong [where f = Payload] arg_cong [where f = Qos] arg_cong [where f = Retain])+

lemma set_length_self: "set_length (RemainingLength (header_of p)) p = p"
  by (cases p) simp_all

lemma publish_bytes_packet: "publish_bytes p = packet_bytes (PublishP p)"
  using Write_publish [of p] by (auto simp: packet_bytes_def)

lemma received_publish:
  assumes "received (PublishP p) = Some q"
  obtains t where "q = PublishP t" "TopicName t = TopicName p" "Retain t = Retain p" "publish_bytes t = publish_bytes p"
proof -
  from content_fields(3) [OF received_content [OF assms]] obtain t where
    t: "q = PublishP t" "TopicName t = TopicName p" "Retain t = Retain p" by blast
  let ?w = "written (PublishP p)"
  obtain w' where w: "Write (PublishP p) = Some (publish_bytes p, ?w)"
    using Write_publish [of p] by (auto simp: written_def)
  let ?n = "header_size (RemainingLength (header_of ?w))"
  have n: "PublishP t = set_size ?n (set_length (RemainingLength (header_of ?w)) ?w)"
    using assms t(1) by (simp add: received_def set_length_self)
  have "\<not> bare ?w" using t(1) assms by (cases ?w) (auto simp: received_def)
  from packet_bytes_lengths [OF this, of ?n "RemainingLength (header_of ?w)"] n Write_again [OF w]
  have b: "map_option fst (Write (PublishP t)) = Some (publish_bytes p)" by simp
  obtain x where "Write (PublishP t) = Some (publish_bytes t, x)" using Write_publish by blast
  with b have "publish_bytes t = publish_bytes p" by (simp del: Write.simps)
  with that t show thesis by blast
qed

lemma suback_sendable: "sendable (suback_for i)" "packet_bytes (suback_for i) = [0x90, 2] @ BigEndian_PutUint16 i"
proof -
  have "Write (suback_for i) = Some ([0x90, 2] @ BigEndian_PutUint16 i, written (suback_for i)) \<and> wf_packet (suback_for i) \<and>
      RemainingLength (header_of (written (suback_for i))) = 2"
    by (simp add: suback_for_def written_def Write_eqs FixedHeader_pack_def FixedHeader_pack_header new_packet_defs
      zero_header_def encodeUint16_def packet_type boolToByte_def Let_def wf_header_def)
  then show "sendable (suback_for i)" "packet_bytes (suback_for i) = [0x90, 2] @ BigEndian_PutUint16 i"
    by (simp_all add: sendable_def packet_bytes_def)
qed

text \<open>What a node makes of the packets its peer sends.\<close>

lemma peer_read_suback:
  assumes "attached w e k cn" "incoming cn = packet_bytes (suback_for i) @ rest"
  shows "cluster_read_once cluster_ProcessMessage e w = Some (True, taken k rest w)"
proof -
  obtain q where q: "received (suback_for i) = Some q" by (simp add: received_def)
  from content_fields(4) received_content [OF q] obtain t where "q = SubackP t" by (auto simp: suback_for_def)
  then show ?thesis
    by (intro peer_read_sent [OF assms suback_sendable(1) q]) (simp add: cluster_ProcessMessage_def)
qed

lemma peer_read_subscribe:
  assumes "attached w e k cn" "incoming cn = packet_bytes (SubscribeP s) @ rest" "sendable (SubscribeP s)"
    "good_world w" "is_client ClusterClient w e" "GetId e w = Some i"
    "\<forall>f \<in> set (sub_Topics s). levels f \<noteq> [] \<and> retained_by (brokerTopics w) f = {}"
  shows "\<exists>v. cluster_read_once cluster_ProcessMessage e w = Some (True, v) \<and> good_world v \<and>
    attached v e k (wrote (packet_bytes (suback_for (sub_MessageID s))) (cn\<lparr>incoming := rest\<rparr>)) \<and>
    (\<forall>x. GetId x v = GetId x w) \<and> brokerTopics v = brokerTopics w \<and> (synced (clusterTopics w) \<longrightarrow> good_trie (clusterTopics v)) \<and>
    (\<forall>g j. subscription (clusterTopics v) g j =
      (if g \<in> set (sub_Topics s) \<and> j = i then Some e else subscription (clusterTopics w) g j))"
proof -
  let ?r = "taken k rest w" and ?ack = "suback_for (sub_MessageID s)"
  obtain q where q: "received (SubscribeP s) = Some q" by (simp add: received_def)
  from content_fields(1) [OF received_content [OF q]] obtain t where
    t: "q = SubscribeP t" "sub_Topics t = sub_Topics s" "sub_MessageID t = sub_MessageID s" by blast
  have at: "attached ?r e k (cn\<lparr>incoming := rest\<rparr>)" by (rule on_incoming_attached [OF assms(1)])
  obtain ack' where ack: "Write ?ack = Some (packet_bytes ?ack, ack')"
    using ack_bytes(4) [of "sub_MessageID s"] by (auto simp: packet_bytes_def)
  have "heap ?r e \<noteq> None" using assms(5) by (auto simp: is_client_def)
  from write_defined [OF this] ack obtain x y u where u: "client_WritePacket e ?ack ?r = Some (x, y, u)" by fastforce
  note ow = only_wroteD [OF write_only_wrote [OF u]]
  note own = write_own(3) [OF u at ack]
  from cluster_subscribe_effect [of u e i "sub_Topics s"] ow(1,2,6) assms(6,7) good_wf [OF assms(4)] obtain v where
    v: "cluster_subscribe e (sub_Topics s) u = Some v" "\<forall>x. GetId x v = GetId x u" "brokerTopics v = brokerTopics u"
      "\<forall>a k cn. attached v a k cn = attached u a k cn" "synced (clusterTopics u) \<longrightarrow> synced (clusterTopics v)"
      "wf_trie (clusterTopics v)" "\<forall>g j. subscription (clusterTopics v) g j =
        (if g \<in> set (sub_Topics s) \<and> j = i then Some e else subscription (clusterTopics u) g j)" by auto
  have "cluster_ProcessMessage e q ?r = Some v"
    using u v(1) t by (simp add: cluster_ProcessMessage_def cluster_ProcessSubscribe_def)
  note rd = peer_read_sent [OF assms(1-3) q this]
  have "good_world v" by (rule read_then_good(2) [OF cluster_read_once_acts [OF rd] assms(5,4)])
  with rd v own ow show ?thesis by (auto simp: good_trie_def)
qed

lemma peer_read_unsubscribe:
  assumes "attached w e k cn" "incoming cn = packet_bytes (UnsubscribeP s) @ rest" "sendable (UnsubscribeP s)"
    "good_world w" "is_client ClusterClient w e" "GetId e w = Some i"
    "\<forall>f \<in> set (unsub_Topics s). unsubscribable f \<and> \<not> ends_hash f"
  shows "\<exists>v. cluster_read_once cluster_ProcessMessage e w = Some (True, v) \<and> good_world v \<and>
    attached v e k (wrote (packet_bytes (unsuback_for (unsub_MessageID s))) (cn\<lparr>incoming := rest\<rparr>)) \<and>
    (\<forall>x. GetId x v = GetId x w) \<and> (synced (clusterTopics w) \<longrightarrow> good_trie (clusterTopics v)) \<and>
    (\<forall>g j. subscription (clusterTopics v) g j =
      (if g \<in> set (unsub_Topics s) \<and> j = i then None else subscription (clusterTopics w) g j))"
proof -
  let ?r = "taken k rest w" and ?ack = "unsuback_for (unsub_MessageID s)"
  obtain q where q: "received (UnsubscribeP s) = Some q" by (simp add: received_def)
  from content_fields(2) [OF received_content [OF q]] obtain t where
    t: "q = UnsubscribeP t" "unsub_Topics t = unsub_Topics s" "unsub_MessageID t = unsub_MessageID s" by blast
  have at: "attached ?r e k (cn\<lparr>incoming := rest\<rparr>)" by (rule on_incoming_attached [OF assms(1)])
  obtain ack' where ack: "Write ?ack = Some (packet_bytes ?ack, ack')"
    using ack_bytes(5) [of "unsub_MessageID s"] by (auto simp: packet_bytes_def)
  have "heap ?r e \<noteq> None" using assms(5) by (auto simp: is_client_def)
  from write_defined [OF this] ack obtain x y u where u: "client_WritePacket e ?ack ?r = Some (x, y, u)" by fastforce
  note ow = only_wroteD [OF write_only_wrote [OF u]]
  note own = write_own(3) [OF u at ack]
  from cluster_unsubscribe_effect [of u e i "unsub_Topics s"] ow(1,2,6) assms(6,7) good_wf [OF assms(4)] obtain v where
    v: "cluster_unsubscribe e (unsub_Topics s) u = Some v" "\<forall>x. GetId x v = GetId x u"
      "\<forall>a k cn. attached v a k cn = attached u a k cn" "synced (clusterTopics u) \<longrightarrow> synced (clusterTopics v)"
      "wf_trie (clusterTopics v)" "\<forall>g j. subscription (clusterTopics v) g j =
        (if g \<in> set (unsub_Topics s) \<and> j = i then None else subscription (clusterTopics u) g j)" by auto
  have "cluster_ProcessMessage e q ?r = Some v"
    using u v(1) t by (simp add: cluster_ProcessMessage_def cluster_ProcessUnSubscribe_def)
  note rd = peer_read_sent [OF assms(1-3) q this]
  have "good_world v" by (rule read_then_good(2) [OF cluster_read_once_acts [OF rd] assms(5,4)])
  with rd v own ow show ?thesis by (auto simp: good_trie_def)
qed

text \<open>
  A client is reached by a topic through a filter it holds in a storage, and alone if no other client there
  with a matching filter has its identity.
\<close>

definition reached :: "(cref, PublishPacket) Trie \<Rightarrow> string \<Rightarrow> cref \<Rightarrow> bool" where
  "reached s topic c \<longleftrightarrow> (\<exists>g i. filter_match g topic \<and> subscription s g i = Some c)"

definition alone :: "(cref, PublishPacket) Trie \<Rightarrow> World \<Rightarrow> string \<Rightarrow> cref \<Rightarrow> bool" where
  "alone s w topic c \<longleftrightarrow>
     (\<forall>d g i. subscription s g i = Some d \<and> filter_match g topic \<and> GetId d w = GetId c w \<longrightarrow> d = c)"

lemma cluster_publish_reaches:
  assumes "good_world w" "good_trie (brokerTopics w)" "publishable (TopicName p)" "is_client BrokerClient w c"
    "attached w c k cn" "alone (brokerTopics w) w (TopicName p) c"
  shows "\<exists>v. cluster_ProcessPublish d p w = Some v \<and>
    attached v c k (wrote (if reached (brokerTopics w) (TopicName p) c then publish_bytes p else []) cn)"
proof -
  obtain v where v: "cluster_ProcessPublish d p w = Some v" and
    all: "\<forall>c k cn. attached w c k cn \<and> is_client BrokerClient w c \<and>
      (\<forall>e g j. subscription (brokerTopics w) g j = Some e \<and> filter_match g (TopicName p) \<and> GetId e w = GetId c w \<longrightarrow> e = c) \<longrightarrow>
      attached v c k (wrote (if \<exists>g j. filter_match g (TopicName p) \<and> subscription (brokerTopics w) g j = Some c
        then publish_bytes p else []) cn)"
    using cluster_publish_effect [OF assms(1-3), of d] by blast
  from all [rule_format, of c k cn] v assms(4-6) show ?thesis unfolding alone_def reached_def by blast
qed

lemma peer_read_publish:
  assumes "attached w d j dn" "incoming dn = packet_bytes (PublishP p) @ rest" "sendable (PublishP p)"
    "good_world w" "good_trie (brokerTopics w)" "publishable (TopicName p)" "is_client BrokerClient w c" "attached w c k cn"
    "d \<noteq> c" "alone (brokerTopics w) w (TopicName p) c"
  shows "\<exists>v. cluster_read_once cluster_ProcessMessage d w = Some (True, v) \<and>
    attached v c k (wrote (if reached (brokerTopics w) (TopicName p) c then publish_bytes p else []) cn)"
proof -
  let ?r = "taken j rest w"
  obtain q where q: "received (PublishP p) = Some q" by (simp add: received_def)
  from received_publish [OF q] obtain t where
    t: "q = PublishP t" "TopicName t = TopicName p" "publish_bytes t = publish_bytes p" by metis
  have at: "attached ?r c k cn" by (rule on_incoming_other [OF assms(4,1,8,9)])
  have "alone (brokerTopics ?r) ?r (TopicName t) c" using assms(10) by (simp add: alone_def t)
  from cluster_publish_reaches [OF on_incoming_good [OF assms(4)] _ _ _ at this, of d] assms(5-7) obtain v where
    v: "cluster_ProcessPublish d t ?r = Some v"
      "attached v c k (wrote (if reached (brokerTopics w) (TopicName p) c then publish_bytes p else []) cn)"
    by (auto simp only: on_incoming_fields t)
  have "cluster_ProcessMessage d q ?r = Some v" using v(1) t(1) by (simp add: cluster_ProcessMessage_def)
  from peer_read_sent [OF assms(1-3) q this] v(2) show ?thesis by blast
qed

section \<open>Publishing to the peers\<close>

lemma publish_to_peer:
  assumes "good_world w" "is_client BrokerClient w x" "is_client ClusterClient w e" "attached w e k cn"
    "Qos p = 0" "\<not> Retain p" "publishable (TopicName p)" "good_trie (clusterTopics w)"
    "alone (clusterTopics w) w (TopicName p) e"
  shows "\<exists>v. ProcessMessage x (PublishP p) w = Some v \<and>
    attached v e k (wrote (if reached (clusterTopics w) (TopicName p) e then publish_bytes p else []) cn)"
proof -
  let ?w = "count (\<lambda>s. s\<lparr>BytesRecv := BytesRecv s + word_of_int (Size (PublishP p)), MsgRecv := MsgRecv s + 1\<rparr>) w"
  have t: "\<not> wildcard (TopicName p)" "levels (TopicName p) \<noteq> []" using assms(7) by (auto simp: publishable_def)
  obtain p' where p': "Write (PublishP p) = Some (publish_bytes p, p')" using Write_publish by blast
  obtain cl where cl: "heap ?w e = Some cl" "kind cl = ClusterClient" using assms(3) by (auto simp: is_client_def)
  from Subscribers_synced [OF _ _ t, of "clusterTopics w"] assms(8) obtain cs where
    cs': "Trie_Subscribers (TopicName p) (clusterTopics w) = Some cs" and
    cs: "set cs = {c. \<exists>f i. filter_match f (TopicName p) \<and> subscription (clusterTopics w) f i = Some c}"
    unfolding good_trie_def by blast
  from cs' have subs: "Trie_Subscribers (TopicName p) (topics_of (kind cl) ?w) = Some cs"
    by (simp add: cl(2) topics_of_def)
  have g: "good_world ?w" using assms(1) by simp
  obtain q v where v: "DoPublish (TopicName p) (PublishP p) ?w = Some (q, v)"
    using DoPublish_defined [OF g t(2), of "PublishP p"] p' by fastforce
  have "d \<in> set cs \<Longrightarrow> GetId d ?w = GetId e ?w \<Longrightarrow> d = e" for d
    using assms(9) cs by (auto simp: alone_def GetId_eq)
  note eff = DoPublish_effect [OF g v p' cl(1) _ subs this]
  have "content q = content (PublishP p)"
    using v by (auto simp: DoPublish_def Let_def dest!: deliver_content split: Option.bind_splits)
  note c = content_publish [OF this]
  have "ProcessMessage x (PublishP p) w = Some v"
    using v c assms(5,6) by (simp add: ProcessMessage_def publish_qos0 forward_def process_retain_def)
  moreover have "attached ?w e k cn" using assms(4) by simp
  note eff [OF this]
  ultimately show ?thesis using cs by (auto simp: reached_def)
qed

section \<open>What subscribing keeps\<close>

lemma act_GetId:
  assumes "act l w v" "\<And>d i. l \<noteq> Rename d i"
  shows "GetId x v = GetId x w"
  using assms
proof (cases rule: act.cases)
  case (send c p e p')
  then show ?thesis using only_wroteD(6) [OF write_only_wrote] by blast
qed (auto simp: GetId_eq process_retain_def AddTopic_eq RemoveTopic_eq saveQos2Msg_def checkQos2Msg_def client_Close_eq
    SetWill_def conn_Close_def set_client_def count_join_def count_leave_def count_def Let_def
    split: Option.bind_splits if_splits option.splits)

lemma acts_GetId:
  assumes "acts L w v" "\<And>d i. Rename d i \<notin> L"
  shows "GetId x v = GetId x w"
  using assms(1)
proof (rule acts_induct)
  fix l y z assume "l \<in> L" "act l y z" "GetId x y = GetId x w"
  with act_GetId [of l y z x] assms(2) show "GetId x z = GetId x w" by metis
qed simp

definition only_subs :: "label set \<Rightarrow> bool" where
  "only_subs L \<longleftrightarrow> (\<forall>f i. Unsubs f i \<notin> L \<and> Retains f \<notin> L \<and> Unretain f \<notin> L)"

lemma acts_good_trie:
  assumes "acts L w v" "only_subs L"
  shows "good_trie (brokerTopics w) \<Longrightarrow> good_trie (brokerTopics v)"
  using assms(1)
proof (rule acts_induct)
  fix l y z assume l: "l \<in> L" "act l y z" and g: "good_trie (brokerTopics y)"
  show "good_trie (brokerTopics z)"
  proof (cases "\<exists>c f. l = Subs c f")
    case True
    then obtain c f where "l = Subs c f" by blast
    with l(2) obtain i t e where t: "Trie_Subscribe f i c (brokerTopics y) = Some (t, e)" "z = y\<lparr>brokerTopics := t\<rparr>"
      by (auto elim: act.cases)
    from Subscribe_law [of "brokerTopics y" f i c] t(1) g have "good_trie t" by (auto simp: good_trie_def)
    with t(2) show ?thesis by simp
  next
    case False
    have "brokerTopics z = brokerTopics y"
    proof (cases "table_label l")
      case True
      with l(2) show ?thesis
        by (cases rule: act.cases) (use False l(1) assms(2) in \<open>auto simp: only_subs_def\<close>)
    next
      case False
      with act_same_tables [OF l(2)] show ?thesis by (simp add: same_tables_def)
    qed
    with g show ?thesis by simp
  qed
qed

lemma ProcessMessage_subscribe:
  assumes "good_world a" "is_client BrokerClient a c" "attached a c k cn" "(n, d) \<in> set (clusters a)"
    "distinct (map snd (clusters a))" "attached a d j dn" "sendable (SubscribeP s)" "\<forall>g \<in> set (sub_Topics s). levels g \<noteq> []"
    "GetId c a = Some i"
  obtains v rs where "ProcessMessage c (SubscribeP s) a = Some v" "good_world v" "attached v c k (wrote rs cn)"
    "attached v d j (wrote (packet_bytes (SubscribeP s)) dn)" "\<And>x. GetId x v = GetId x a"
    "good_trie (brokerTopics a) \<longrightarrow> good_trie (brokerTopics v)" "is_client BrokerClient v c"
    "\<And>g l. subscription (brokerTopics v) g l =
      (if g \<in> set (sub_Topics s) \<and> l = i then Some c else subscription (brokerTopics a) g l)"
proof -
  let ?a = "count (\<lambda>st. st\<lparr>BytesRecv := BytesRecv st + word_of_int (Size (SubscribeP s)), MsgRecv := MsgRecv st + 1\<rparr>) a"
  have bs: "Write (SubscribeP s) = Some (packet_bytes (SubscribeP s), written (SubscribeP s))"
    using assms(7) by (intro Write_total) (simp add: sendable_def)
  have g: "good_world ?a" "is_client BrokerClient ?a c" "attached ?a c k cn" "(n, d) \<in> set (clusters ?a)"
    "distinct (map snd (clusters ?a))" "attached ?a d j dn"
    using assms(1-6) by (simp_all add: is_client_def)
  obtain cl where cl: "heap ?a c = Some cl" "kind cl = BrokerClient" using g(2) by (auto simp: is_client_def)
  have i: "client_id cl = i" using cl(1) assms(9) by (simp add: GetId_eq)
  from ProcessSubscribe_defined [OF g(1,2) assms(8)] bs obtain v where v: "ProcessSubscribe c s ?a = Some v" by fastforce
  have m: "ProcessMessage c (SubscribeP s) a = Some v" using v by (simp add: ProcessMessage_def)
  note acts = ProcessMessage_acts [OF m]
  from ProcessSubscribe_effect [OF v g(1) cl] g(3) obtain rs where
    e: "attached v c k (wrote rs cn)" "\<forall>g l. subscription (brokerTopics v) g l =
      (if g \<in> set (sub_Topics s) \<and> l = i then Some c else subscription (brokerTopics ?a) g l)" unfolding i by blast
  note sp = subscribe_spreads [OF v g(1,2,4-6) bs]
  have "GetId x v = GetId x a" for x by (rule acts_GetId [OF acts]) auto
  moreover have "only_subs (broker_labels c (SubscribeP s))" by (auto simp: only_subs_def)
  note acts_good_trie [OF acts this]
  moreover have "is_client BrokerClient v c" using is_client_evolve [OF acts_evolve [OF acts]] assms(2) by simp
  ultimately show thesis using that [OF m sp(2) e(1) sp(1)] e(2) by simp
qed

section \<open>The two halves of a round trip\<close>

lemma peer_read_is_client:
  "cluster_read_once cluster_ProcessMessage e w = Some (go, v) \<Longrightarrow> is_client K v y \<longleftrightarrow> is_client K w y"
  using cluster_read_once_acts is_client_evolve [OF acts_evolve] reads_is_client unfolding read_then_def by metis

lemma subscribed_then_published:
  assumes "good_world b" "good_trie (clusterTopics b)" "is_client BrokerClient b x" "is_client ClusterClient b e"
    "attached b e k eb" "incoming eb = []" "sendable (SubscribeP s)" "f \<in> set (sub_Topics s)"
    "\<forall>g \<in> set (sub_Topics s). levels g \<noteq> [] \<and> retained_by (brokerTopics b) g = {}"
    "Qos p = 0" "\<not> Retain p" "publishable (TopicName p)" "filter_match f (TopicName p)"
    "alone (clusterTopics b) b (TopicName p) e"
  obtains u v where "cluster_read_once cluster_ProcessMessage e (arrive k (packet_bytes (SubscribeP s)) b) = Some (True, u)"
    "ProcessMessage x (PublishP p) u = Some v"
    "attached v e k (wrote (packet_bytes (suback_for (sub_MessageID s)) @ packet_bytes (PublishP p)) eb)"
proof -
  let ?t = "TopicName p" and ?ack = "packet_bytes (suback_for (sub_MessageID s))"
  let ?b = "arrive k (packet_bytes (SubscribeP s)) b" and ?eb = "eb\<lparr>incoming := packet_bytes (SubscribeP s)\<rparr>"
  obtain h where h: "GetId e b = Some h" using assms(4) by (auto simp: is_client_def GetId_eq)
  have at: "attached ?b e k ?eb" using on_incoming_attached [OF assms(5), of "\<lambda>i. i @ packet_bytes (SubscribeP s)"] assms(6) by simp
  have eb: "eb\<lparr>incoming := []\<rparr> = eb" using assms(6) by (metis Conn.surjective Conn.update_convs(1))
  from peer_read_subscribe [OF at _ assms(7) on_incoming_good [OF assms(1)], of "[]" h] assms(2,4,9) h obtain u where
    u: "cluster_read_once cluster_ProcessMessage e ?b = Some (True, u)" "good_world u" "attached u e k (wrote ?ack eb)"
      "\<And>y. GetId y u = GetId y b" "good_trie (clusterTopics u)"
      "\<And>g l. subscription (clusterTopics u) g l = (if g \<in> set (sub_Topics s) \<and> l = h then Some e else subscription (clusterTopics b) g l)"
    by (auto simp: good_trie_def eb)
  have same: "is_client K u y \<longleftrightarrow> is_client K b y" for K y
    using peer_read_is_client [OF u(1)] by simp
  have cl: "is_client BrokerClient u x" "is_client ClusterClient u e" using assms(3,4) same by simp_all
  have "alone (clusterTopics u) u ?t e" using assms(14) unfolding alone_def u(4,6) by (metis option.inject)
  moreover have "reached (clusterTopics u) ?t e" using assms(8,13) u(6) unfolding reached_def by metis
  ultimately obtain v where "ProcessMessage x (PublishP p) u = Some v" "attached v e k (wrote (?ack @ packet_bytes (PublishP p)) eb)"
    using publish_to_peer [OF u(2) cl u(3) assms(10-12) u(5)] by (auto simp: publish_bytes_packet)
  with u(1) that show thesis by blast
qed

lemma acknowledged_then_received:
  assumes "good_world a" "good_trie (brokerTopics a)" "is_client BrokerClient a c" "attached a c k cn" "d \<noteq> c"
    "attached a d j dn" "incoming dn = []" "sendable (PublishP p)" "publishable (TopicName p)"
    "alone (brokerTopics a) a (TopicName p) c" "reached (brokerTopics a) (TopicName p) c"
  obtains u v where
    "cluster_read_once cluster_ProcessMessage d (arrive j (packet_bytes (suback_for i) @ packet_bytes (PublishP p)) a) = Some (True, u)"
    "cluster_read_once cluster_ProcessMessage d u = Some (True, v)" "attached v c k (wrote (packet_bytes (PublishP p)) cn)"
proof -
  let ?bs = "packet_bytes (suback_for i) @ packet_bytes (PublishP p)"
  let ?a = "arrive j ?bs a" and ?dn = "dn\<lparr>incoming := ?bs\<rparr>"
  let ?u = "taken j (packet_bytes (PublishP p)) ?a"
  have at: "attached ?a d j ?dn" using on_incoming_attached [OF assms(6), of "\<lambda>i. i @ ?bs"] assms(7) by simp
  have "cluster_read_once cluster_ProcessMessage d ?a = Some (True, ?u)" by (rule peer_read_suback [OF at]) simp
  moreover have ga: "good_world ?a" by (rule on_incoming_good [OF assms(1)])
  have cu: "attached ?u c k cn"
    by (rule on_incoming_other [OF ga at on_incoming_other [OF assms(1,6,4,5)] assms(5)])
  have du: "attached ?u d j (?dn\<lparr>incoming := packet_bytes (PublishP p)\<rparr>)" by (rule on_incoming_attached [OF at])
  have "alone (brokerTopics ?u) ?u (TopicName p) c" "reached (brokerTopics ?u) (TopicName p) c"
    using assms(10,11) by (simp_all add: alone_def)
  with peer_read_publish [OF du _ assms(8) on_incoming_good [OF ga] _ assms(9) _ cu assms(5), of "[]"] assms(2,3)
  obtain v where "cluster_read_once cluster_ProcessMessage d ?u = Some (True, v)" "attached v c k (wrote (packet_bytes (PublishP p)) cn)"
    by (auto simp: publish_bytes_packet)
  ultimately show thesis using that by blast
qed

end
