(* ===== verification/Two_Node_Properties.thy ===== *)
theory Two_Node_Properties
  imports Two_Nodes Cluster_Properties
begin

text \<open>
  The properties of two nodes that are connected. The nodes are two worlds, and what one has written to its end
  of the connection arrives at the other's.
\<close>

section \<open>From a subscription on one node to a message from the other\<close>


text \<open>
  The witness: both nodes are in the state of the sample run in which \<open>s\<close> has connected, with a peer (client 2).
\<close>

definition pair_world :: World where
  "pair_world = (snd (NewClient ClusterClient 2 TypServer (open_conn 2 [] run_w4)))\<lparr>clusters := [(''n'', 2)]\<rparr>"

definition pair_publish :: PublishPacket where
  "pair_publish = (new_PublishPacket (run_header 3 0 False 6))\<lparr>TopicName := ''a/b'', Payload := [0x78]\<rparr>"

lemma pair_world:
  "good_world pair_world" "attached pair_world 2 2 \<lparr>incoming = [], sent = [], up = True\<rparr>"
  "attached pair_world 1 1 \<lparr>incoming = subscribe_input, sent = [0x20, 2, 1, 0], up = True\<rparr>"
  "is_client ClusterClient pair_world 2" "is_client BrokerClient pair_world 0" "is_client BrokerClient pair_world 1"
  "clusters pair_world = [(''n'', 2)]" "brokerTopics pair_world = NewTrie" "clusterTopics pair_world = NewTrie"
proof -
  define u where "u = snd (NewClient ClusterClient 2 TypServer (open_conn 2 [] run_w4))"
  have new: "NewClient ClusterClient 2 TypServer (open_conn 2 [] run_w4) = (2, u)"
    by (simp add: u_def NewClient_eq open_conn_def Let_def)
  have "good_world run_w4" using reachable_good [OF run_reachable4] by (simp add: good_system_def)
  then have g: "good_world u" "is_client ClusterClient u 2" using NewClient_good(1,2) [OF new] by simp_all
  have e: "pair_world = u\<lparr>clusters := go_store ''n'' 2 (clusters u)\<rparr>"
    by (simp add: pair_world_def u_def NewClient_eq open_conn_def set_client_def Let_def)
  show "good_world pair_world" unfolding e by (rule act_good [OF enroll _ g(1)]) (simp add: g(2))
  show "attached pair_world 2 2 \<lparr>incoming = [], sent = [], up = True\<rparr>"
    "attached pair_world 1 1 \<lparr>incoming = subscribe_input, sent = [0x20, 2, 1, 0], up = True\<rparr>"
    "is_client ClusterClient pair_world 2" "is_client BrokerClient pair_world 0" "is_client BrokerClient pair_world 1"
    "clusters pair_world = [(''n'', 2)]" "brokerTopics pair_world = NewTrie" "clusterTopics pair_world = NewTrie"
    by (simp_all add: pair_world_def NewClient_eq open_conn_def set_client_def Let_def attached_def is_client_def run_client_def)
qed

definition pair_unsubscribe :: UnsubscribePacket where
  "pair_unsubscribe = (new_UnsubscribePacket (run_header 10 1 False 7))\<lparr>unsub_MessageID := 2, unsub_Topics := [''a/+'']\<rparr>"

lemma pair_lengths:
  "RemainingLength (header_of (written (SubscribeP run_subscribe))) = 8"
  "RemainingLength (header_of (written (PublishP pair_publish))) = 6"
  "RemainingLength (header_of (written (UnsubscribeP pair_unsubscribe))) = 7"
  by code_simp+

lemma pair_sendable: "sendable (SubscribeP run_subscribe)" "sendable (PublishP pair_publish)" "sendable (UnsubscribeP pair_unsubscribe)"
  by (simp_all add: sendable_def pair_lengths)
    (simp_all add: run_subscribe_def run_header_def pair_unsubscribe_def pair_publish_def new_packet_defs
      wf_header_def wf_publish_def wf_subscribe_def wf_unsubscribe_def packet_type)

lemma pair_bytes:
  "packet_bytes (SubscribeP run_subscribe) = subscribe_input"
  "packet_bytes (PublishP pair_publish) = [0x30, 6, 0, 3, 0x61, 0x2F, 0x62, 0x78]"
  by code_simp+

lemma pair_fields [simp]:
  "Qos pair_publish = 0" "\<not> Retain pair_publish" "TopicName pair_publish = ''a/b''"
  by (simp_all add: pair_publish_def run_header_def new_packet_defs)


lemma pair_alone: "alone NewTrie w t c"
  by (simp add: alone_def subscription_NewTrie)

lemma pair_retained: "retained_by (NewTrie :: (cref, PublishPacket) Trie) f = {}"
  by (simp add: retained_by_def retained_packet_def NewTrie_def tree_simps)


section \<open>One client's unsubscription\<close>


text \<open>
  The witness: at node A the client \<open>s\<close> holds the filter \<open>a/+\<close> and \<open>p\<close>, which does not, unsubscribes it.
\<close>

definition pair_trie :: "(cref, PublishPacket) Trie" where
  "pair_trie = fst (the (Trie_Subscribe ''a/+'' [] 2 NewTrie))"

definition pair_peer :: World where
  "pair_peer = run_peer\<lparr>clusterTopics := pair_trie\<rparr>"

lemma pair_trie_law:
  "Trie_Subscribe ''a/+'' [] 2 (NewTrie :: (cref, PublishPacket) Trie) = Some (pair_trie, False) \<and> good_trie pair_trie \<and>
   (\<forall>g j. subscription pair_trie g j = (if g = ''a/+'' \<and> j = [] then Some 2 else None))"
proof -
  from Subscribe_law [OF wf_NewTrie, of "''a/+''" "[]" "2 :: cref"] obtain t' :: "(cref, PublishPacket) Trie" where
    t: "Trie_Subscribe ''a/+'' [] 2 (NewTrie :: (cref, PublishPacket) Trie) =
         Some (t', subscription (NewTrie :: (cref, PublishPacket) Trie) ''a/+'' [] \<noteq> None)" "wf_trie t'"
      "\<forall>g j. subscription t' g j = (if g = ''a/+'' \<and> j = [] then Some 2
         else subscription (NewTrie :: (cref, PublishPacket) Trie) g j)"
      "synced (NewTrie :: (cref, PublishPacket) Trie) \<longrightarrow> synced t'" by blast
  moreover from t(1) have "pair_trie = t'" by (simp add: pair_trie_def)
  ultimately show ?thesis by (simp add: good_trie_def subscription_NewTrie synced_NewTrie)
qed

lemmas pair_trie = pair_trie_law [THEN conjunct1] pair_trie_law [THEN conjunct2, THEN conjunct1]
  pair_trie_law [THEN conjunct2, THEN conjunct2, rule_format]

lemma run_peer_more:
  "clusterTopics run_peer = NewTrie" "is_client BrokerClient run_peer 0" "GetId 0 run_peer = Some ''p''" "GetId 2 run_peer = Some []"
  by (simp_all add: run_peer_def NewClient_eq open_conn_def set_client_def Let_def is_client_def run_client_def GetId_eq)

lemma pair_peer:
  "good_world pair_peer" "clusterTopics pair_peer = pair_trie" "attached pair_peer = attached run_peer"
  "is_client K pair_peer = is_client K run_peer" "GetId c pair_peer = GetId c run_peer"
proof -
  have "act (PeerSubs 2 ''a/+'') run_peer pair_peer"
    unfolding pair_peer_def by (rule act.peer_subs [where i = "[]" and e = False]) (simp add: run_peer_more(1) pair_trie(1))
  then show "good_world pair_peer" by (rule act_good [OF _ _ run_peer(1)]) (simp add: run_peer(4))
qed (simp_all add: pair_peer_def attached_def is_client_def GetId_eq fun_eq_iff)


end
