(* ===== verification/Node_Join.thy ===== *)
theory Node_Join
  imports Two_Node_Properties
begin

text \<open>
  A node joins: \<open>HandlerClient\<close> on the node that dials and \<open>HandlerServer\<close> on the one that accepts, each up to its
  read loop, and the reads of the topics that the other has announced.
\<close>

section \<open>Announcing topics\<close>

text \<open>What \<open>SyncTopics\<close> sends: every topic of the foliage, once for every entry of the list with the name.\<close>

definition announced :: "ClusterNode list \<Rightarrow> string \<Rightarrow> World \<Rightarrow> string list" where
  "announced nodes i w =
     concat (map (\<lambda>_. map fst (foliage (brokerTopics w))) (filter (\<lambda>n. i = Name n) nodes))"

definition announcement :: "string list \<Rightarrow> byte list" where
  "announcement ts = concat (map (\<lambda>t. packet_bytes (sync_packet t)) ts)"

lemma announcement_simps [simp]:
  "announcement [] = []" "announcement (t # ts) = packet_bytes (sync_packet t) @ announcement ts"
  "announcement (ts @ us) = announcement ts @ announcement us"
  by (simp_all add: announcement_def)

lemma announced_Cons:
  "announced (n # nodes) i w = (if i = Name n then map fst (foliage (brokerTopics w)) else []) @ announced nodes i w"
  by (simp add: announced_def)

lemma SyncTopics_effect:
  assumes "TrimSpace i = i"
  shows "attached w c k cn \<Longrightarrow> is_client ClusterClient w c \<Longrightarrow> map_of (clusters w) i = Some c \<Longrightarrow>
    \<exists>v. SyncTopics nodes i w = Some v \<and> only_wrote w v \<and> attached v c k (wrote (announcement (announced nodes i w)) cn)"
proof (induction nodes arbitrary: w cn)
  case Nil
  then show ?case by (simp add: announced_def)
next
  case (Cons n nodes)
  from Cons.prems(2) obtain cl where cl: "heap w c = Some cl" "kind cl = ClusterClient" by (auto simp: is_client_def)
  let ?ts = "if i = Name n then map fst (foliage (brokerTopics w)) else []"
  obtain u where u: "(if i = Name n then syncNodeTopics n w else Some w) = Some u" "only_wrote w u"
    "attached u c k (wrote (announcement ?ts) cn)"
  proof (cases "i = Name n")
    case True
    from sync_loop [OF Cons.prems(1) cl, of "foliage (brokerTopics w)"] that True assms Cons.prems(3) show thesis
      by (auto simp: syncNodeTopics_def RangeTopics_def announcement_def comp_def)
  qed (use that Cons.prems(1) in simp)
  have "is_client ClusterClient u c" "map_of (clusters u) i = Some c"
    using Cons.prems(2,3) only_wroteD(4,5) [OF u(2)] by (simp_all add: is_client_def)
  from Cons.IH [OF u(3) this] obtain v where v: "SyncTopics nodes i u = Some v" "only_wrote u v"
    "attached v c k (wrote (announcement (announced nodes i u)) (wrote (announcement ?ts) cn))" by blast
  have "announced nodes i u = announced nodes i w" using only_wroteD(1) [OF u(2)] by (simp add: announced_def)
  with u(1) v only_wrote_trans [OF u(2) v(2)] show ?case by (auto simp: announced_Cons)
qed

section \<open>The two handlers\<close>

text \<open>The end of both: the client is named, enrolled and told of the topics.\<close>

lemma enrolled:
  assumes "attached w c k cn" "is_client ClusterClient w c" "TrimSpace i = i"
  obtains u v where "SetId c i w = Some u" "SyncTopics nodes i (u\<lparr>clusters := go_store i c (clusters u)\<rparr>) = Some v"
    "attached v c k (wrote (announcement (announced nodes i w)) cn)" "clusters v = go_store i c (clusters w)"
    "brokerTopics v = brokerTopics w" "clusterTopics v = clusterTopics w" "GetId c v = Some i" "evolve w v"
proof -
  from assms(2) obtain cl where cl: "heap w c = Some cl" by (auto simp: is_client_def)
  let ?u = "set_client c (cl\<lparr>client_id := i\<rparr>) w" and ?L = "UNIV :: label set"
  have u: "SetId c i w = Some ?u" by (simp add: SetId_eq cl)
  let ?x = "?u\<lparr>clusters := go_store i c (clusters ?u)\<rparr>"
  have x: "attached ?x c k cn" "is_client ClusterClient ?x c" "map_of (clusters ?x) i = Some c"
    using assms(1,2) cl by (auto simp: set_client_def attached_def is_client_def map_of_go_store)
  from SyncTopics_effect [OF assms(3) x, of nodes] obtain v where
    v: "SyncTopics nodes i ?x = Some v" "only_wrote ?x v" "attached v c k (wrote (announcement (announced nodes i ?x)) cn)"
    by blast
  have "acts ?L w ?u" by (rule act_acts [OF act.rename [OF u]]) simp
  moreover have "acts ?L ?u ?x" by (rule act_acts [OF act.enroll]) simp
  moreover have "acts ?L ?x v" by (rule runsD [OF runs_SyncTopics v(1)]) simp
  ultimately have "evolve w v" by (blast intro: acts_evolve acts_trans)
  moreover have "announced nodes i ?x = announced nodes i w" by (simp add: announced_def set_client_def)
  ultimately show thesis
    using that [OF u v(1)] v(3) only_wroteD [OF v(2)] by (simp add: set_client_def GetId_eq)
qed

lemma close_enrolled:
  assumes "good_world w" "attached w c k cn" "map_of (clusters w) i \<noteq> Some c" "is_client ClusterClient w c"
  obtains u where "close_old i w = Some u" "attached u c k cn" "is_client ClusterClient u c" "same_tables w u" "evolve w u"
    "\<And>old. map_of (clusters w) i = Some old \<Longrightarrow> closed u old"
proof -
  have there: "heap w old \<noteq> None" if "map_of (clusters w) i = Some old" for old
    using good_worldD(4) [OF assms(1) that] by (auto simp: is_client_def)
  from close_other [OF assms(1-3) there] obtain u where
    u: "close_old i w = Some u" "attached u c k cn" "heap u c = heap w c" "same_tables w u"
      "\<And>old ocl. map_of (clusters w) i = Some old \<Longrightarrow> heap w old = Some ocl \<Longrightarrow> closed u old"
    by (auto simp: close_old_def)
  have "evolve w u" using runsD [OF runs_close_old [of UNIV] u(1)] acts_evolve by blast
  moreover have "closed u old" if "map_of (clusters w) i = Some old" for old
    using u(5) [OF that] there [OF that] by blast
  ultimately show thesis using that [OF u(1,2) _ u(4)] u(3) assms(4) by (simp add: is_client_def)
qed

theorem HandlerServer_effect:
  assumes "good_world w" "attached w c k cn" "is_client ClusterClient w c"
    "ReadPacket (incoming cn) = (Some (ConnectP cp), None, rest)" "i = ClientIdentifier cp" "TrimSpace i = i"
    "map_of (clusters w) i \<noteq> Some c"
  shows "\<exists>v. HandlerServer_connect nodes c w = Some (True, v) \<and> good_world v \<and>
    attached v c k (wrote ([0x20, 2, if CleanSession cp then 1 else 0, Validate cp] @ announcement (announced nodes i w))
      (cn\<lparr>incoming := rest\<rparr>)) \<and>
    clusters v = go_store i c (clusters w) \<and> brokerTopics v = brokerTopics w \<and> clusterTopics v = clusterTopics w \<and>
    GetId c v = Some i \<and> (\<forall>old. map_of (clusters w) i = Some old \<longrightarrow> closed v old)"
proof -
  let ?r = "taken k rest w"
  from assms(2) obtain cl where cl: "heap w c = Some cl" "conn cl = Some k" "conns w k = Some cn" "up cn"
    by (auto simp: attached_def)
  have rd: "client_ReadPacket c w = Some (Some (ConnectP cp), None, ?r)"
    using read_world [OF cl assms(4)] cl(3) by (simp add: on_incoming_def)
  have r: "good_world ?r" "attached ?r c k (cn\<lparr>incoming := rest\<rparr>)" "is_client ClusterClient ?r c"
    using on_incoming_good [OF assms(1)] on_incoming_attached [OF assms(2)] assms(3) by simp_all
  let ?x = "set_client c (cl\<lparr>client_id := i\<rparr>) ?r"
  have x: "SetId c i ?r = Some ?x" by (simp add: SetId_eq cl(1))
  have gx: "good_world ?x" by (rule act_good [OF act.rename [OF x] _ r(1)]) simp
  have "attached ?x c k (cn\<lparr>incoming := rest\<rparr>)" "map_of (clusters ?x) i \<noteq> Some c" "is_client ClusterClient ?x c"
    using r(2,3) assms(7) cl(1) by (auto simp: attached_def set_client_def is_client_def)
  from close_enrolled [OF gx this] obtain u where u: "close_old i ?x = Some u" "attached u c k (cn\<lparr>incoming := rest\<rparr>)"
    "is_client ClusterClient u c" "same_tables ?x u" "\<And>old. map_of (clusters ?x) i = Some old \<Longrightarrow> closed u old" by metis
  let ?ack = "[0x20, 2, if CleanSession cp then 1 else 0, Validate cp]"
  obtain q where q: "Write (connack_for cp) = Some (?ack, q)" using ack_bytes(6) by blast
  have "heap u c \<noteq> None" using u(3) by (auto simp: is_client_def)
  from write_defined [OF this] q obtain e p y where y: "client_WritePacket c (connack_for cp) u = Some (e, p, y)" by fastforce
  note own = write_own [OF y u(2) q]
  note ow = only_wroteD [OF write_only_wrote [OF y]]
  have "is_client ClusterClient y c" using u(3) own(4) by (simp add: is_client_def)
  from enrolled [OF own(3) this assms(6), of nodes] obtain z v where v: "SetId c i y = Some z"
    "SyncTopics nodes i (z\<lparr>clusters := go_store i c (clusters z)\<rparr>) = Some v"
    "attached v c k (wrote (announcement (announced nodes i y)) (wrote ?ack (cn\<lparr>incoming := rest\<rparr>)))"
    "clusters v = go_store i c (clusters y)" "brokerTopics v = brokerTopics y" "clusterTopics v = clusterTopics y"
    "GetId c v = Some i" "evolve y v" by metis
  have h: "HandlerServer_connect nodes c w = Some (True, v)"
    using rd x u(1) y v(1,2) assms(5) by (simp add: HandlerServer_connect_def cluster_ProcessConnect_def)
  have "good_world v" by (rule read_then_good(2) [OF HandlerServer_connect_acts [OF h] assms(3,1)])
  moreover have tables: "brokerTopics u = brokerTopics w" "clusterTopics u = clusterTopics w" "clusters u = clusters w"
    using u(4) by (simp_all add: same_tables_def set_client_def)
  moreover have "closed v old" if "map_of (clusters w) i = Some old" for old
  proof -
    have "closed u old" using u(5) that by (simp add: set_client_def)
    then have "closed y old" by (simp add: closed_def own(4))
    then show ?thesis by (rule closed_evolve [OF v(8)])
  qed
  moreover have "announced nodes i y = announced nodes i w" using ow(1) tables(1) by (simp add: announced_def)
  ultimately show ?thesis using h v ow by auto
qed

theorem HandlerClient_effect:
  assumes "good_world w" "attached w c k cn" "is_client ClusterClient w c" "i = Name node" "TrimSpace i = i"
    "map_of (clusters w) i \<noteq> Some c"
  shows "\<exists>v. HandlerClient_connect me nodes c node w = Some (True, v) \<and> good_world v \<and>
    attached v c k (wrote (packet_bytes (cluster_connect me) @ announcement (announced nodes i w)) cn) \<and>
    clusters v = go_store i c (clusters w) \<and> brokerTopics v = brokerTopics w \<and> clusterTopics v = clusterTopics w \<and>
    GetId c v = Some i \<and> (\<forall>old. map_of (clusters w) i = Some old \<longrightarrow> closed v old)"
proof -
  from assms(2) obtain cl where cl: "heap w c = Some cl" by (auto simp: attached_def)
  let ?x = "set_client c (cl\<lparr>client_id := i\<rparr>) w"
  have x: "SetId c i w = Some ?x" by (simp add: SetId_eq cl)
  have gx: "good_world ?x" by (rule act_good [OF act.rename [OF x] _ assms(1)]) simp
  have ax: "attached ?x c k cn" "is_client ClusterClient ?x c"
    using assms(2,3) cl by (auto simp: attached_def set_client_def is_client_def)
  let ?p = "cluster_connect me"
  obtain q where q: "Write ?p = Some (packet_bytes ?p, q)"
  proof (cases "Write ?p")
    case None
    with Write_total' [of ?p] show thesis by (simp add: cluster_connect_def)
  qed (use that in \<open>auto simp: packet_bytes_def\<close>)
  have "heap ?x c \<noteq> None" using ax(2) by (auto simp: is_client_def)
  from write_defined [OF this] q obtain e p y where y: "client_WritePacket c ?p ?x = Some (e, p, y)" by fastforce
  note own = write_own [OF y ax(1) q]
  note ow = only_wroteD [OF write_only_wrote [OF y]]
  have gy: "good_world y" by (rule write_good [OF y gx])
  have cy: "map_of (clusters y) i \<noteq> Some c" "is_client ClusterClient y c"
    using assms(6) ax(2) ow(4,5) by (simp_all add: set_client_def is_client_def)
  from close_enrolled [OF gy own(3) cy] obtain u where u: "close_old i y = Some u" "attached u c k (wrote (packet_bytes ?p) cn)"
    "is_client ClusterClient u c" "same_tables y u" "\<And>old. map_of (clusters y) i = Some old \<Longrightarrow> closed u old" by metis
  from enrolled [OF u(2,3) assms(5), of nodes] obtain z v where v: "SetId c i u = Some z"
    "SyncTopics nodes i (z\<lparr>clusters := go_store i c (clusters z)\<rparr>) = Some v"
    "attached v c k (wrote (announcement (announced nodes i u)) (wrote (packet_bytes ?p) cn))"
    "clusters v = go_store i c (clusters u)" "brokerTopics v = brokerTopics u" "clusterTopics v = clusterTopics u"
    "GetId c v = Some i" "evolve u v" by metis
  have h: "HandlerClient_connect me nodes c node w = Some (True, v)"
    using x y own(1) u(1) v(1,2) assms(4) by (simp add: HandlerClient_connect_def)
  have "good_world v" by (rule cluster_acts_good [OF HandlerClient_connect_acts [OF h] assms(3,1)])
  moreover have tables: "brokerTopics u = brokerTopics w" "clusterTopics u = clusterTopics w" "clusters u = clusters w"
    using u(4) ow by (simp_all add: same_tables_def set_client_def)
  moreover have "closed v old" if "map_of (clusters w) i = Some old" for old
    using closed_evolve [OF v(8) u(5)] that ow(4) by (simp add: set_client_def)
  moreover have "announced nodes i u = announced nodes i w" using tables(1) by (simp add: announced_def)
  ultimately show ?thesis using h v by auto
qed

section \<open>The packets of the join\<close>

lemma connect_sendable:
  assumes "length me < 65536"
  shows "sendable (cluster_connect me)"
proof -
  have "RemainingLength (header_of (written (cluster_connect me))) = 12 + int (length me)"
    by (simp add: written_def cluster_connect_def Write_eqs ConnectPacket_body_def new_packet_defs FixedHeader_pack_header
        Let_def zero_header_def)
  moreover have "wf_packet (cluster_connect me)"
    using assms by (simp add: cluster_connect_def wf_connect_def wf_header_def new_packet_defs zero_header_def packet_type)
  ultimately show ?thesis using assms by (simp add: sendable_def)
qed

lemma sync_sendable:
  assumes "length t < 65536"
  shows "sendable (sync_packet t)"
proof -
  have "RemainingLength (header_of (written (sync_packet t))) = 5 + int (length t)"
    by (simp add: written_def sync_packet_def Write_eqs subscribe_topics_total new_packet_defs FixedHeader_pack_header
        Let_def zero_header_def)
  moreover have "wf_packet (sync_packet t)"
    using assms by (simp add: sync_packet_def wf_subscribe_def wf_header_def new_packet_defs zero_header_def packet_type)
  ultimately show ?thesis using assms by (simp add: sendable_def)
qed

lemma received_connect:
  assumes "received (cluster_connect me) = Some q" "length me < 65536"
  obtains cp where "q = ConnectP cp" "ClientIdentifier cp = me" "CleanSession cp" "Validate cp = 0"
proof -
  note c = received_content [OF assms(1)]
  then obtain cp where cp: "q = ConnectP cp" by (cases q) (auto simp: content_def cluster_connect_def)
  let ?n = "\<lambda>c. (c :: ConnectPacket)\<lparr>RemainingLength := 0, PacketSize := 0\<rparr>"
  let ?m = "(new_ConnectPacket (zero_header\<lparr>MessageType := Connect\<rparr>))
     \<lparr>ProtocolName := ''MQTT'', ProtocolVersion := 4, CleanSession := True, ClientIdentifier := me, Keepalive := 60\<rparr>"
  from c cp have e: "?n cp = ?n ?m" by (simp add: content_def cluster_connect_def)
  have "ClientIdentifier cp = me" using arg_cong [OF e, of ClientIdentifier] by simp
  moreover have "CleanSession cp" using arg_cong [OF e, of CleanSession] by simp
  moreover have "Validate (?n c) = Validate c" for c by (simp add: Validate_def cong: if_cong)
  then have "Validate cp = Validate ?m" using e by metis
  then have "Validate cp = 0" using assms(2) by (simp add: Validate_def new_packet_defs Accepted_def)
  ultimately show thesis using that cp by blast
qed

section \<open>Reading the announcement\<close>

text \<open>So many turns of the read loop, which all go on.\<close>

fun peer_reads :: "nat \<Rightarrow> cref \<Rightarrow> World \<Rightarrow> World option" where
  "peer_reads 0 e w = Some w"
| "peer_reads (Suc n) e w =
     do { (go, w) \<leftarrow> cluster_read_once cluster_ProcessMessage e w; if go then peer_reads n e w else None }"

lemma announcement_read:
  "\<forall>t \<in> set ts. length t < 65536 \<and> levels t \<noteq> [] \<and> retained_by (brokerTopics w) t = {} \<Longrightarrow>
   attached w e k cn \<Longrightarrow> incoming cn = announcement ts \<Longrightarrow> good_world w \<Longrightarrow> is_client ClusterClient w e \<Longrightarrow>
   GetId e w = Some i \<Longrightarrow>
   \<exists>v. peer_reads (length ts) e w = Some v \<and> good_world v \<and>
     (\<forall>g j. subscription (clusterTopics v) g j =
       (if g \<in> set ts \<and> j = i then Some e else subscription (clusterTopics w) g j))"
proof (induction ts arbitrary: w cn)
  case (Cons t ts)
  let ?s = "(new_SubscribePacket (zero_header\<lparr>MessageType := Subscribe, Qos := 1\<rparr>))\<lparr>sub_Topics := [t], Qoss := [0]\<rparr>"
  have p: "sync_packet t = SubscribeP ?s" by (simp add: sync_packet_def)
  have "incoming cn = packet_bytes (SubscribeP ?s) @ announcement ts" "sendable (SubscribeP ?s)"
    "\<forall>f \<in> set (sub_Topics ?s). levels f \<noteq> [] \<and> retained_by (brokerTopics w) f = {}"
    using Cons.prems(1,3) sync_sendable [of t] by (simp_all add: p)
  from peer_read_subscribe [OF Cons.prems(2) this(1,2) Cons.prems(4-6) this(3)] obtain u where
    u: "cluster_read_once cluster_ProcessMessage e w = Some (True, u)" "good_world u" "brokerTopics u = brokerTopics w"
      "attached u e k (wrote (packet_bytes (suback_for (sub_MessageID ?s))) (cn\<lparr>incoming := announcement ts\<rparr>))"
      "GetId e u = Some i"
      "\<forall>g j. subscription (clusterTopics u) g j = (if g = t \<and> j = i then Some e else subscription (clusterTopics w) g j)"
    using Cons.prems(6) by auto
  have "is_client ClusterClient u e" using peer_read_is_client [OF u(1)] Cons.prems(5) by simp
  from Cons.IH [OF _ u(4) _ u(2) this u(5)] Cons.prems(1) u(3) obtain v where
    "peer_reads (length ts) e u = Some v" "good_world v" "\<forall>g j. subscription (clusterTopics v) g j =
       (if g \<in> set ts \<and> j = i then Some e else subscription (clusterTopics u) g j)" by auto
  with u(1,6) show ?case by auto
qed simp

section \<open>The join\<close>

text \<open>
  C5. A node joins. Node A, named \<open>me\<close>, has dialled B, whose entry in A's list is \<open>node\<close>. A sends a CONNECT and one
  SUBSCRIBE for every topic of its storage, and enrols the connection as B; B accepts the CONNECT, closes the
  connection it had with A, acknowledges, announces its own topics in turn and enrols A; and once B has read
  what A announced, its storage for the cluster holds A under exactly these topics beside what it held.
\<close>

theorem nodes_join:
  assumes "good_world a" "attached a d ka da" "is_client ClusterClient a d" "i = Name node" "TrimSpace i = i"
      "map_of (clusters a) i \<noteq> Some d"
    and "good_world b" "attached b e kb eb" "incoming eb = []" "is_client ClusterClient b e" "TrimSpace me = me"
      "length me < 65536" "map_of (clusters b) me \<noteq> Some e"
    and "ts = announced nodes i a"
      "\<forall>t \<in> set ts. length t < 65536 \<and> levels t \<noteq> [] \<and> retained_by (brokerTopics b) t = {}"
  shows "\<exists>a1 b1 b2. let out = packet_bytes (cluster_connect me) @ announcement ts in
    HandlerClient_connect me nodes d node a = Some (True, a1) \<and> attached a1 d ka (wrote out da) \<and>
    clusters a1 = go_store i d (clusters a) \<and>
    HandlerServer_connect nodes' e (arrive kb out b) = Some (True, b1) \<and> clusters b1 = go_store me e (clusters b) \<and>
    (\<forall>old. map_of (clusters b) me = Some old \<longrightarrow> closed b1 old) \<and>
    attached b1 e kb (wrote ([0x20, 2, 1, 0] @ announcement (announced nodes' me b)) (eb\<lparr>incoming := announcement ts\<rparr>)) \<and>
    peer_reads (length ts) e b1 = Some b2 \<and>
    (\<forall>g j. subscription (clusterTopics b2) g j =
      (if g \<in> set ts \<and> j = me then Some e else subscription (clusterTopics b) g j))"
proof -
  let ?out = "packet_bytes (cluster_connect me) @ announcement ts" and ?eb = "eb\<lparr>incoming := announcement ts\<rparr>"
  let ?b = "arrive kb ?out b"
  from HandlerClient_effect [OF assms(1-6)] assms(14) obtain a1 where a1:
    "HandlerClient_connect me nodes d node a = Some (True, a1)" "attached a1 d ka (wrote ?out da)"
    "clusters a1 = go_store i d (clusters a)" by metis
  have at: "attached ?b e kb (eb\<lparr>incoming := ?out\<rparr>)"
    using on_incoming_attached [OF assms(8), of "\<lambda>i. i @ ?out"] assms(9) by simp
  obtain q where q: "received (cluster_connect me) = Some q" by (simp add: received_def)
  from received_connect [OF q assms(12)] obtain cp where
    cp: "q = ConnectP cp" "ClientIdentifier cp = me" "CleanSession cp" "Validate cp = 0" by metis
  have "ReadPacket (incoming (eb\<lparr>incoming := ?out\<rparr>)) = (Some (ConnectP cp), None, announcement ts)"
    using ReadPacket_packet_bytes [OF connect_sendable [OF assms(12)]] q cp(1) by simp
  from HandlerServer_effect [OF on_incoming_good [OF assms(7)] at _ this cp(2) [symmetric] assms(11), of nodes'] assms(10,13) cp(3,4)
  obtain b1 where b1: "HandlerServer_connect nodes' e ?b = Some (True, b1)" "good_world b1"
    "attached b1 e kb (wrote ([0x20, 2, 1, 0] @ announcement (announced nodes' me b)) ?eb)"
    "clusters b1 = go_store me e (clusters b)" "brokerTopics b1 = brokerTopics b" "clusterTopics b1 = clusterTopics b"
    "GetId e b1 = Some me" "\<forall>old. map_of (clusters b) me = Some old \<longrightarrow> closed b1 old"
    by (auto simp: announced_def)
  have "is_client ClusterClient b1 e"
    using good_worldD(4) [OF b1(2), of me e] b1(4) by (simp add: map_of_go_store)
  from announcement_read [OF _ b1(3) _ b1(2) this b1(7), of ts] assms(15) b1(5,6) obtain b2 where
    "peer_reads (length ts) e b1 = Some b2"
    "\<forall>g j. subscription (clusterTopics b2) g j = (if g \<in> set ts \<and> j = me then Some e else subscription (clusterTopics b) g j)"
    by auto
  with a1 b1 show ?thesis by (auto simp: Let_def)
qed

text \<open>
  The witness: A is the node of the sample run, where \<open>s\<close> has subscribed, B the one a step before.
\<close>

definition dialled :: "World \<Rightarrow> World" where
  "dialled w = snd (NewClient ClusterClient 2 TypClient (open_conn 2 [] w))"

lemma dialled:
  assumes "good_world w" "conns w 2 = None" "next_cref w = 2" "clusters w = []"
  shows "good_world (dialled w)" "attached (dialled w) 2 2 \<lparr>incoming = [], sent = [], up = True\<rparr>"
    "is_client ClusterClient (dialled w) 2" "clusters (dialled w) = []" "brokerTopics (dialled w) = brokerTopics w"
    "clusterTopics (dialled w) = clusterTopics w"
proof -
  have new: "NewClient ClusterClient 2 TypClient (open_conn 2 [] w) = (2, dialled w)"
    using assms(3) by (simp add: dialled_def NewClient_eq open_conn_def Let_def)
  from NewClient_good(1,2) [OF new assms(2,1)] show "good_world (dialled w)" "is_client ClusterClient (dialled w) 2" .
  show "attached (dialled w) 2 2 \<lparr>incoming = [], sent = [], up = True\<rparr>" "clusters (dialled w) = []"
    "brokerTopics (dialled w) = brokerTopics w" "clusterTopics (dialled w) = clusterTopics w"
    using assms(3,4) by (simp_all add: dialled_def NewClient_eq open_conn_def set_client_def Let_def attached_def)
qed

lemma join_worlds:
  "good_world run_w4" "conns run_w4 2 = None" "next_cref run_w4 = 2" "clusters run_w4 = []" "brokerTopics run_w4 = NewTrie"
  "good_world run_w5" "conns run_w5 2 = None" "next_cref run_w5 = 2" "clusters run_w5 = []" "foliage (brokerTopics run_w5) = foliage run_trie"
  using reachable_good [OF run_reachable4] run_good by (simp_all add: good_system_def)

theorem nodes_join_witness:
  "\<exists>a1 b1 b2. let node = \<lparr>Name = ''n'', Host = ''h:1''\<rparr>; out = packet_bytes (cluster_connect ''m'') @ [0x82, 8, 0, 0, 0, 3, 0x61, 0x2F, 0x2B, 0] in
    HandlerClient_connect ''m'' [node] 2 node (dialled run_w5) = Some (True, a1) \<and>
    HandlerServer_connect [] 2 (arrive 2 out (dialled run_w4)) = Some (True, b1) \<and>
    attached b1 2 2 \<lparr>incoming = [0x82, 8, 0, 0, 0, 3, 0x61, 0x2F, 0x2B, 0], sent = [0x20, 2, 1, 0], up = True\<rparr> \<and>
    peer_reads 1 2 b1 = Some b2 \<and> subscription (clusterTopics b2) ''a/+'' ''m'' = Some 2"
proof -
  let ?node = "\<lparr>Name = ''n'', Host = ''h:1''\<rparr>"
  note a = dialled [OF join_worlds(6-9)] and b = dialled [OF join_worlds(1-4)]
  have trim: "TrimSpace ''n'' = ''n''" "TrimSpace ''m'' = ''m''" by code_simp+
  have ts: "announced [?node] ''n'' (dialled run_w5) = [''a/+'']" "announced [] ''m'' (dialled run_w4) = []"
    by (simp_all add: announced_def a(5) join_worlds(10) run_trie_def)
  have sync: "packet_bytes (sync_packet ''a/+'') = [0x82, 8, 0, 0, 0, 3, 0x61, 0x2F, 0x2B, 0]" by code_simp
  have conditions: "\<forall>t \<in> set [''a/+'']. length t < 65536 \<and> levels t \<noteq> [] \<and> retained_by (brokerTopics (dialled run_w4)) t = {}"
    using run_names by (simp add: b(5) join_worlds(5) pair_retained)
  have "''n'' = Name ?node" "map_of (clusters (dialled run_w5)) ''n'' \<noteq> Some 2" "length ''m'' < 65536"
    "map_of (clusters (dialled run_w4)) ''m'' \<noteq> Some 2" "incoming \<lparr>incoming = [], sent = [], up = True\<rparr> = []"
    by (simp_all add: a(4) b(4))
  from nodes_join [OF a(1-3) this(1) trim(1) this(2) b(1,2) this(5) b(3) trim(2) this(3,4) ts(1) [symmetric] conditions, of "[]"]
  show ?thesis by (auto simp: Let_def ts(2) sync wrote_def)
qed

end
