(* ===== verification/Storage_Calls.thy ===== *)
theory Storage_Calls
  imports Topic_Properties
begin

text \<open>
  The calls of the topic storage as goroutines make them at the same time. \<open>Topic_Trie\<close> takes a call in one step;
  in \<open>trie/trie.go\<close> only the tree is under the mutex. A call on the map of leaves, \<open>foliage\<close>, is several
  accesses to it and to the leaves it points to, and other goroutines run between them. Leaves are
  shared by pointer, so here they are cells of a heap and \<open>foliage\<close> holds their addresses. \<open>foliage\<close> is a \<open>sync.Map\<close>;
  the map of subscribers in a leaf is a plain map of Go without a lock. An access to it is one step here, which
  is what the code does only if no other goroutine is in an access to the same map; \<open>data_race\<close> says when
  one may be, and the properties that rely on the steps show that there is none.
\<close>

section \<open>The accesses of a call\<close>

type_synonym leafref = nat

record ('c, 'p) Shared =
  tree :: "('c, 'p) Branch"
  index :: "(string \<times> leafref) list"
  leaf_heap :: "leafref \<Rightarrow> ('c, 'p) Leaf"
  next_leaf :: leafref

text \<open>
  What a call returns, and where it stands: the next access it makes and the variables it has set. A call that
  has returned stays as it is.
\<close>

datatype ('c, 'p) result = Exist bool | Found "'c list" | Retained "'p list"

datatype ('c, 'p) call =
    Sub_Load string string 'c
  | Sub_Store string string 'c
  | Sub_Found string leafref string 'c
  | Unsub_Load string string
  | Unsub_Remove string leafref string
  | Unsub_Test string leafref
  | Unsub_Delete string
  | Subs_Load string
  | Subs_Leaf string leafref
  | Subs_Tree string "'c list"
  | Retain_Add string 'p
  | Retain_Remove string
  | Retain_Search string
  | Returned "('c, 'p) result"

definition set_leaf :: "leafref \<Rightarrow> ('c, 'p) Leaf \<Rightarrow> ('c, 'p) Shared \<Rightarrow> ('c, 'p) Shared" where
  "set_leaf r l s = s\<lparr>leaf_heap := (leaf_heap s)(r := l)\<rparr>"

text \<open>\<open>Subscribe\<close>: the look-up, the storing of a new leaf, and the adding, for a filter with a wildcard under the mutex.\<close>

definition sub_load :: "string \<Rightarrow> string \<Rightarrow> 'c \<Rightarrow> ('c, 'p) Shared \<Rightarrow> ('c, 'p) call" where
  "sub_load topic identity subscriber s =
     (case map_of (index s) topic of
        None \<Rightarrow> Sub_Store topic identity subscriber
      | Some leaf \<Rightarrow> Sub_Found topic leaf identity subscriber)"

definition sub_store :: "string \<Rightarrow> ('c, 'p) Shared \<Rightarrow> leafref \<times> ('c, 'p) Shared" where
  "sub_store topic s =
     (let leaf = next_leaf s
      in (leaf, (set_leaf leaf NewLeaf s)\<lparr>next_leaf := leaf + 1, index := go_store topic leaf (index s)\<rparr>))"

definition sub_add ::
  "string \<Rightarrow> leafref \<Rightarrow> string \<Rightarrow> 'c \<Rightarrow> ('c, 'p) Shared \<Rightarrow> (('c, 'p) call \<times> ('c, 'p) Shared) option" where
  "sub_add topic leaf identity subscriber s =
     (if wildcard topic then
        do { (r, exist) \<leftarrow> AddBranch topic identity subscriber (levels topic) (tree s);
             Some (Returned (Exist exist), s\<lparr>tree := r\<rparr>) }
      else
        let (l, exist) = AddSubscriber identity subscriber (leaf_heap s leaf)
        in Some (Returned (Exist exist), set_leaf leaf l s))"

text \<open>\<open>Unsubscribe\<close>: the tree under the mutex, or the look-up, the removal, the test of the leaf, and its deletion.\<close>

definition unsub_load :: "string \<Rightarrow> string \<Rightarrow> ('c, 'p) Shared \<Rightarrow> (('c, 'p) call \<times> ('c, 'p) Shared) option" where
  "unsub_load topic identity s =
     (if wildcard topic then
        (case scan_branches identity topic (levels topic) (branches (tree s)) of
           None \<Rightarrow> None
         | Some None \<Rightarrow> Some (Returned (Exist False), s)
         | Some (Some (key, b)) \<Rightarrow>
             Some (Returned (Exist True), s\<lparr>tree := set_branches
               (CheckClean b (go_store key b (branches (tree s)))) (tree s)\<rparr>))
      else
        Some (case map_of (index s) topic of
                None \<Rightarrow> Returned (Exist False)
              | Some leaf \<Rightarrow> Unsub_Remove topic leaf identity, s))"

fun advance :: "('c, 'p) call \<Rightarrow> ('c, 'p) Shared \<Rightarrow> (('c, 'p) call \<times> ('c, 'p) Shared) option" where
  "advance (Sub_Load topic i c) s = Some (sub_load topic i c s, s)"
| "advance (Sub_Store topic i c) s =
     (case sub_store topic s of (leaf, s) \<Rightarrow> Some (Sub_Found topic leaf i c, s))"
| "advance (Sub_Found topic leaf i c) s =
     sub_add topic leaf i c s"
| "advance (Unsub_Load topic i) s = unsub_load topic i s"
| "advance (Unsub_Remove topic leaf i) s =
     Some (Unsub_Test topic leaf, set_leaf leaf (RemoveSubscriber i (leaf_heap s leaf)) s)"
| "advance (Unsub_Test topic leaf) s =
     Some (if Leaf_Subscribers (leaf_heap s leaf) = [] \<and> GetRetain (leaf_heap s leaf) = None
           then Unsub_Delete topic else Returned (Exist True), s)"
| "advance (Unsub_Delete topic) s = Some (Returned (Exist True), s\<lparr>index := go_delete topic (index s)\<rparr>)"
| "advance (Subs_Load topic) s =
     Some (if wildcard topic then Returned (Found [])
           else (case map_of (index s) topic of None \<Rightarrow> Subs_Tree topic [] | Some leaf \<Rightarrow> Subs_Leaf topic leaf), s)"
| "advance (Subs_Leaf topic leaf) s = Some (Subs_Tree topic (map snd (Leaf_Subscribers (leaf_heap s leaf))), s)"
| "advance (Subs_Tree topic got) s =
     do { more \<leftarrow> search_roots (levels topic) (branches (tree s)); Some (Returned (Found (got @ more)), s) }"
| "advance (Retain_Add topic packet) s =
     do { (r, exist) \<leftarrow> AddRetain topic (levels topic) (Some packet) (tree s);
          Some (Returned (Exist exist), s\<lparr>tree := r\<rparr>) }"
| "advance (Retain_Remove topic) s =
     (case remove_retain_branches (levels topic) (branches (tree s)) of
        None \<Rightarrow> None
      | Some None \<Rightarrow> Some (Returned (Exist False), s)
      | Some (Some (key, b)) \<Rightarrow> Some (Returned (Exist True), s\<lparr>tree :=
          set_branches (go_store key b (branches (tree s))) (tree s)\<rparr>))"
| "advance (Retain_Search topic) s =
     do { got \<leftarrow> search_retain_branches (levels topic) (branches (tree s)); Some (Returned (Retained got), s) }"
| "advance (Returned result) s = Some (Returned result, s)"

text \<open>A step of goroutines with a call each: one of them makes its next access.\<close>

inductive race :: "('c, 'p) call list \<times> ('c, 'p) Shared \<Rightarrow> ('c, 'p) call list \<times> ('c, 'p) Shared \<Rightarrow> bool" where
  race: "k < length cs \<Longrightarrow> advance (cs ! k) s = Some (c, s') \<Longrightarrow> race (cs, s) (cs[k := c], s')"

inductive_cases raceE: "race (cs, s) x"

section \<open>The storage the accesses work on\<close>

abbreviation leaves_at :: "(leafref \<Rightarrow> ('c, 'p) Leaf) \<Rightarrow> (string \<times> leafref) list \<Rightarrow> (string \<times> ('c, 'p) Leaf) list" where
  "leaves_at h \<equiv> map (\<lambda>(topic, r). (topic, h r))"

definition storage_of :: "('c, 'p) Shared \<Rightarrow> ('c, 'p) Trie" where
  "storage_of s = \<lparr>root = tree s, foliage = leaves_at (leaf_heap s) (index s)\<rparr>"

text \<open>Every topic has a leaf of its own, and new leaves are new.\<close>

definition shared_ok :: "('c, 'p) Shared \<Rightarrow> bool" where
  "shared_ok s \<longleftrightarrow> go_map (index s) \<and> distinct (map snd (index s)) \<and> (\<forall>r \<in> snd ` set (index s). r < next_leaf s)"

lemma storage_fields [simp]:
  "root (storage_of s) = tree s"
  "map_of (foliage (storage_of s)) topic = map_option (leaf_heap s) (map_of (index s) topic)"
  by (simp_all add: storage_of_def map_of_map)

lemma leaves_at_delete: "leaves_at h (go_delete topic m) = go_delete topic (leaves_at h m)"
  by (induction m) (auto simp: AList.delete_eq)

lemma store_values: "(k, x) \<in> set (go_store topic r m) \<Longrightarrow> x = r \<or> x \<in> snd ` set m"
  by (induction m) (auto split: if_splits intro: rev_image_eqI)

lemma distinct_store: "r \<notin> snd ` set m \<Longrightarrow> distinct (map snd m) \<Longrightarrow> distinct (map snd (go_store topic r m))"
  by (induction m) (auto dest: store_values)

lemma storage_store:
  assumes "shared_ok s" "sub_store topic s = (r, s')"
  shows "tree s' = tree s" "index s' = go_store topic r (index s)" "shared_ok s'"
    "map_of (foliage (storage_of s')) = (map_of (foliage (storage_of s)))(topic \<mapsto> NewLeaf)"
proof -
  have r: "r = next_leaf s" "s' = (set_leaf r NewLeaf s)\<lparr>next_leaf := r + 1, index := go_store topic r (index s)\<rparr>"
    using assms(2) by (auto simp: sub_store_def Let_def)
  show s': "tree s' = tree s" "index s' = go_store topic r (index s)" by (simp_all add: r(2) set_leaf_def)
  have fresh: "r \<notin> snd ` set (index s)" using assms(1) r(1) by (auto simp: shared_ok_def)
  then have "map_of (index s) f \<noteq> Some r" for f by (force dest: map_of_SomeD)
  then show "map_of (foliage (storage_of s')) = (map_of (foliage (storage_of s)))(topic \<mapsto> NewLeaf)"
    by (auto simp: fun_eq_iff s'(2) go_map_simps) (auto simp: r(2) set_leaf_def map_option_case split: option.split)
  have "distinct (map snd (index s'))" using assms(1) distinct_store fresh by (auto simp: s'(2) shared_ok_def)
  moreover have "x < r + 1" if "x \<in> snd ` set (go_store topic r (index s))" for x
    using that assms(1) r(1) by (auto simp: shared_ok_def set_go_store)
  ultimately show "shared_ok s'" using assms(1) by (auto simp: shared_ok_def r(2) go_map_store)
qed

text \<open>\<open>NewTrie\<close>.\<close>

definition new_shared :: "('c, 'p) Shared" where
  "new_shared = \<lparr>tree = SetName ''root'' NewBranch, index = [], leaf_heap = \<lambda>_. NewLeaf, next_leaf = 0\<rparr>"

lemma new_shared: "shared_ok new_shared" "storage_of new_shared = NewTrie"
  by (simp_all add: new_shared_def shared_ok_def storage_of_def NewTrie_def)

section \<open>Whole calls\<close>

text \<open>The whole call in one step, as \<open>Topic_Trie\<close> has it.\<close>

fun atomically :: "('c, 'p) call \<Rightarrow> ('c, 'p) Trie \<Rightarrow> (('c, 'p) result \<times> ('c, 'p) Trie) option" where
  "atomically (Sub_Load topic i c) t = do { (t, exist) \<leftarrow> Trie_Subscribe topic i c t; Some (Exist exist, t) }"
| "atomically (Unsub_Load topic i) t = do { (t, exist) \<leftarrow> Trie_Unsubscribe topic i t; Some (Exist exist, t) }"
| "atomically (Subs_Load topic) t = do { got \<leftarrow> Trie_Subscribers topic t; Some (Found got, t) }"
| "atomically (Retain_Add topic packet) t = do { (t, exist) \<leftarrow> Trie_AddRetain topic packet t; Some (Exist exist, t) }"
| "atomically (Retain_Remove topic) t = do { (t, exist) \<leftarrow> Trie_RemoveRetain topic t; Some (Exist exist, t) }"
| "atomically (Retain_Search topic) t = do { got \<leftarrow> Trie_SearchRetain topic t; Some (Retained got, t) }"
| "atomically (Returned r) t = Some (r, t)"
| "atomically _ t = None"

fun starting :: "('c, 'p) call \<Rightarrow> bool" where
  "starting (Sub_Load _ _ _) = True"
| "starting (Unsub_Load _ _) = True"
| "starting (Subs_Load _) = True"
| "starting (Retain_Add _ _) = True"
| "starting (Retain_Remove _) = True"
| "starting (Retain_Search _) = True"
| "starting _ = False"

section \<open>Calls at the same time\<close>

text \<open>The topic without wildcards whose leaf a call uses, and whether it does more than read it.\<close>

fun leaf_topic :: "('c, 'p) call \<Rightarrow> string option" where
  "leaf_topic (Sub_Load topic _ _) = (if wildcard topic then None else Some topic)"
| "leaf_topic (Unsub_Load topic _) = (if wildcard topic then None else Some topic)"
| "leaf_topic (Subs_Load topic) = (if wildcard topic then None else Some topic)"
| "leaf_topic _ = None"

fun reads_only :: "('c, 'p) call \<Rightarrow> bool" where
  "reads_only (Subs_Load _) = True"
| "reads_only _ = False"

text \<open>No topic without wildcards is subscribed or unsubscribed while another call is on it.\<close>

definition apart :: "('c, 'p) call list \<Rightarrow> bool" where
  "apart cs \<longleftrightarrow> (\<forall>j < length cs. \<forall>k < length cs.
     j \<noteq> k \<and> leaf_topic (cs ! j) \<noteq> None \<and> leaf_topic (cs ! j) = leaf_topic (cs ! k) \<longrightarrow> reads_only (cs ! j))"

text \<open>
  The leaf that the next access of a call is to, and whether it writes its map of subscribers. Two goroutines that are about to
  access the map of one leaf, at least one to write it, are a data race: the Go runtime may stop the process. The map of
  leaves is synchronised and the tree is under the mutex.
\<close>

fun leaf_access :: "('c, 'p) call \<Rightarrow> (leafref \<times> bool) option" where
  "leaf_access (Sub_Found topic leaf _ _) = (if wildcard topic then None else Some (leaf, True))"
| "leaf_access (Unsub_Remove _ leaf _) = Some (leaf, True)"
| "leaf_access (Unsub_Test _ leaf) = Some (leaf, False)"
| "leaf_access (Subs_Leaf _ leaf) = Some (leaf, False)"
| "leaf_access _ = None"

definition data_race :: "('c, 'p) call list \<Rightarrow> bool" where
  "data_race cs \<longleftrightarrow> (\<exists>j < length cs. \<exists>k < length cs. \<exists>leaf m.
     j \<noteq> k \<and> leaf_access (cs ! j) = Some (leaf, True) \<and> leaf_access (cs ! k) = Some (leaf, m))"

fun in_order :: "('c, 'p) call list \<Rightarrow> ('c, 'p) Trie \<Rightarrow> (('c, 'p) result list \<times> ('c, 'p) Trie) option" where
  "in_order [] t = Some ([], t)"
| "in_order (c # cs) t = do { (r, t) \<leftarrow> atomically c t; (rs, t) \<leftarrow> in_order cs t; Some (r # rs, t) }"

lemma in_order_snoc:
  "in_order (cs @ [c]) t = do { (rs, t) \<leftarrow> in_order cs t; (r, t) \<leftarrow> atomically c t; Some (rs @ [r], t) }"
  by (induction cs arbitrary: t) (auto split: Option.bind_split prod.splits)

definition same_topics :: "('c, 'p) Trie \<Rightarrow> ('c, 'p) Trie \<Rightarrow> bool" where
  "same_topics t u \<longleftrightarrow> root t = root u \<and>
     (\<forall>topic. \<not> wildcard topic \<longrightarrow> map_of (foliage t) topic = map_of (foliage u) topic)"

fun is_returned :: "('c, 'p) call \<Rightarrow> bool" where
  "is_returned (Returned _) = True"
| "is_returned _ = False"

lemma starting_not_returned: "starting c \<Longrightarrow> \<not> is_returned c"
  by (cases c) auto

definition leaf_of :: "('c, 'p) Shared \<Rightarrow> string \<Rightarrow> ('c, 'p) Leaf option" where
  "leaf_of s topic = map_option (leaf_heap s) (map_of (index s) topic)"

text \<open>
  Where a call that began as the first may stand, and what the storage \<open>s\<close> then holds for its topic beside \<open>t\<close>, in
  which nothing of the call is to be seen yet.
\<close>

fun stands :: "('c, 'p) Shared \<Rightarrow> ('c, 'p) Trie \<Rightarrow> ('c, 'p) call \<Rightarrow> ('c, 'p) call \<Rightarrow> bool" where
  "stands s t (Sub_Load f i x) c =
     (if wildcard f then c \<in> {Sub_Load f i x, Sub_Store f i x} \<or> (\<exists>r. c = Sub_Found f r i x)
      else c = Sub_Load f i x \<and> map_of (foliage t) f = leaf_of s f \<or>
        c = Sub_Store f i x \<and> map_of (foliage t) f = None \<and> map_of (index s) f = None \<or>
        (\<exists>r. c = Sub_Found f r i x \<and> map_of (index s) f = Some r \<and>
          leaf_heap s r = (case map_of (foliage t) f of None \<Rightarrow> NewLeaf | Some l \<Rightarrow> l)))"
| "stands s t (Unsub_Load f i) c =
     (if wildcard f then c = Unsub_Load f i
      else c = Unsub_Load f i \<and> map_of (foliage t) f = leaf_of s f \<or>
        (\<exists>r l. map_of (index s) f = Some r \<and> map_of (foliage t) f = Some l \<and>
          (c = Unsub_Remove f r i \<and> leaf_heap s r = l \<or>
           leaf_heap s r = RemoveSubscriber i l \<and> (c = Unsub_Test f r \<or>
             c = Unsub_Delete f \<and> Leaf_Subscribers (RemoveSubscriber i l) = [] \<and> GetRetain (RemoveSubscriber i l) = None))))"
| "stands s t (Subs_Load f) c =
     (if wildcard f then c = Subs_Load f
      else map_of (foliage t) f = leaf_of s f \<and>
        (c = Subs_Load f \<or> (\<exists>r. c = Subs_Leaf f r \<and> map_of (index s) f = Some r) \<or>
         c = Subs_Tree f (case map_of (foliage t) f of None \<Rightarrow> [] | Some l \<Rightarrow> map snd (Leaf_Subscribers l))))"
| "stands s t c0 c = (starting c0 \<and> c = c0)"

definition writes_leaf :: "string \<Rightarrow> ('c, 'p) call \<Rightarrow> bool" where
  "writes_leaf topic c \<longleftrightarrow> leaf_topic c = Some topic \<and> \<not> reads_only c"

lemma stands_start: "starting c \<Longrightarrow> stands s (storage_of s) c c"
  by (cases c) (auto simp: leaf_of_def)

lemma stands_frame:
  assumes "stands s t c0 c"
    "\<And>f. leaf_topic c0 = Some f \<Longrightarrow> map_of (index s') f = map_of (index s) f \<and> leaf_of s' f = leaf_of s f \<and>
      map_of (foliage t') f = map_of (foliage t) f"
  shows "stands s' t' c0 c"
proof -
  have heap: "leaf_heap s' r = leaf_heap s r"
    if "map_of (index s) f = Some r" "map_of (index s') f = map_of (index s) f" "leaf_of s' f = leaf_of s f" for f r
    using that by (simp add: leaf_of_def)
  show ?thesis
  proof (cases c0)
    case (Sub_Load f i x)
    with assms(1) assms(2) [of f] heap [of f] show ?thesis by (cases "wildcard f") auto
  next
    case (Unsub_Load f i)
    with assms(1) assms(2) [of f] heap [of f] show ?thesis by (cases "wildcard f") auto
  next
    case (Subs_Load f)
    with assms(1) assms(2) [of f] heap [of f] show ?thesis by (cases "wildcard f") auto
  qed (use assms in simp_all)
qed

text \<open>Two calls that use the same leaf are on the same topic.\<close>

lemma stands_leaf:
  assumes "stands s t c0 c" "leaf_access c = Some (r, m)"
  shows "\<exists>f. leaf_topic c0 = Some f \<and> map_of (index s) f = Some r \<and> (m \<longrightarrow> \<not> reads_only c0)"
  using assms by (cases c0) (auto split: if_splits)

lemma index_inj:
  assumes "shared_ok s" "map_of (index s) f = Some r" "map_of (index s) g = Some r"
  shows "f = g"
proof -
  have "(f, r) \<in> set (index s)" "(g, r) \<in> set (index s)" using assms(2,3) by (simp_all add: map_of_SomeD)
  moreover have "inj_on snd (set (index s))" using assms(1) by (simp add: shared_ok_def distinct_map)
  ultimately have "(f, r) = (g, r)" by (metis inj_onD snd_conv)
  then show ?thesis by simp
qed

text \<open>
  An access of a call leaves the other topics alone. Before the last nothing is to be seen of the call; the last
  completes it.
\<close>

definition keeps_leaf :: "string \<Rightarrow> ('c, 'p) Shared \<Rightarrow> ('c, 'p) Shared \<Rightarrow> bool" where
  "keeps_leaf f s s' \<longleftrightarrow> map_of (index s') f = map_of (index s) f \<and> leaf_of s' f = leaf_of s f"

definition answers ::
  "('c, 'p) Trie \<Rightarrow> ('c, 'p) call \<Rightarrow> ('c, 'p) call \<Rightarrow> ('c, 'p) Shared \<Rightarrow> bool" where
  "answers t c0 d s' \<longleftrightarrow> (\<exists>r t'. d = Returned r \<and> atomically c0 t = Some (r, t') \<and> root t' = tree s' \<and>
     (\<forall>f. \<not> wildcard f \<longrightarrow> (if writes_leaf f c0 then map_of (foliage t') f = leaf_of s' f
                          else map_of (foliage t') f = map_of (foliage t) f)))"

definition moves :: "('c, 'p) Shared \<Rightarrow> ('c, 'p) Trie \<Rightarrow> ('c, 'p) call \<Rightarrow> ('c, 'p) call \<Rightarrow> ('c, 'p) Shared \<Rightarrow> bool" where
  "moves s t c0 d s' \<longleftrightarrow> shared_ok s' \<and> (\<forall>f. \<not> wildcard f \<and> \<not> writes_leaf f c0 \<longrightarrow> keeps_leaf f s s') \<and>
     (answers t c0 d s' \<or> \<not> is_returned d \<and> tree s' = tree s \<and> stands s' t c0 d)"

lemma keeps_leaf_refl [simp]: "keeps_leaf f s s"
  by (simp add: keeps_leaf_def)

lemma keeps_tree [simp]: "keeps_leaf f s (s\<lparr>tree := b\<rparr>)" "shared_ok (s\<lparr>tree := b\<rparr>) = shared_ok s"
  by (simp_all add: keeps_leaf_def leaf_of_def shared_ok_def)

lemma keeps_set_leaf: "shared_ok s \<Longrightarrow> map_of (index s) g = Some r \<Longrightarrow> f \<noteq> g \<Longrightarrow> keeps_leaf f s (set_leaf r l s)"
  using index_inj [of s f r g] by (auto simp: keeps_leaf_def leaf_of_def set_leaf_def map_option_case split: option.split)

lemma ok_set_leaf [simp]: "shared_ok (set_leaf r l s) = shared_ok s"
  by (simp add: shared_ok_def set_leaf_def)

lemma keeps_store:
  assumes "shared_ok s" "sub_store topic s = (r, s')" "f \<noteq> topic"
  shows "keeps_leaf f s s'"
proof -
  note s' = storage_store [OF assms(1,2)]
  have "leaf_of s' f = leaf_of s f"
    using s'(4) assms(3) by (simp add: leaf_of_def fun_eq_iff)
  with s'(2) assms(3) show ?thesis by (simp add: keeps_leaf_def go_map_simps)
qed

lemma ok_delete:
  assumes "shared_ok s"
  shows "shared_ok (s\<lparr>index := go_delete topic (index s)\<rparr>)"
proof -
  have "distinct (map snd (go_delete topic (index s)))"
    using assms by (auto simp: shared_ok_def AList.delete_eq intro: distinct_map_filter)
  then show ?thesis using assms set_go_delete [of topic "index s"] by (auto simp: shared_ok_def)
qed

lemma writes_leaf_simps [simp]:
  "writes_leaf g (Sub_Load f i x) \<longleftrightarrow> \<not> wildcard f \<and> g = f"
  "writes_leaf g (Unsub_Load f i) \<longleftrightarrow> \<not> wildcard f \<and> g = f"
  "\<not> writes_leaf g (Subs_Load f)"
  by (auto simp: writes_leaf_def)

lemma moves_Subscribe:
  assumes "stands s t (Sub_Load f i x) c" "shared_ok s" "root t = tree s" "advance c s = Some (d, s')"
  shows "moves s t (Sub_Load f i x) d s'"
proof (cases "wildcard f")
  case True
  obtain r u where rs: "sub_store f s = (r, u)" by force
  note u = storage_store [OF assms(2) rs]
  have k: "\<not> wildcard g \<Longrightarrow> keeps_leaf g s u" for g using keeps_store [OF assms(2) rs, of g] True by auto
  from assms(1) True consider "c = Sub_Load f i x" | "c = Sub_Store f i x" | r where "c = Sub_Found f r i x" by auto
  then show ?thesis
  proof cases
    case 1
    with assms True show ?thesis by (auto simp: moves_def sub_load_def split: option.splits)
  next
    case 2
    with assms True rs u k show ?thesis by (auto simp: moves_def)
  next
    case 3
    with assms True show ?thesis
      by (auto simp: moves_def answers_def sub_add_def Trie_Subscribe_def writes_leaf_def Let_def go_map_simps split: Option.bind_splits)
  qed
next
  case False
  obtain r u where rs: "sub_store f s = (r, u)" by force
  note u = storage_store [OF assms(2) rs]
  have hu: "leaf_heap u r = NewLeaf" using rs by (auto simp: sub_store_def Let_def set_leaf_def)
  from assms(1) False consider "c = Sub_Load f i x" "map_of (foliage t) f = leaf_of s f"
    | "c = Sub_Store f i x" "map_of (foliage t) f = None" "map_of (index s) f = None"
    | r where "c = Sub_Found f r i x" "map_of (index s) f = Some r"
      "leaf_heap s r = (case map_of (foliage t) f of None \<Rightarrow> NewLeaf | Some l \<Rightarrow> l)" by auto
  then show ?thesis
  proof cases
    case 1
    with assms False show ?thesis by (auto simp: moves_def sub_load_def leaf_of_def split: option.splits)
  next
    case 2
    with assms False rs u keeps_store [OF assms(2) rs]  hu show ?thesis
      by (auto simp: moves_def go_map_simps)
  next
    case 3
    have idx: "map_of (index (set_leaf r l s)) f = Some r" "leaf_of (set_leaf r l s) f = Some l" for l
      using 3(2) by (simp_all add: leaf_of_def set_leaf_def)
    have tr: "tree (set_leaf r l s) = tree s" for l by (simp add: set_leaf_def)
    from 3 assms False keeps_set_leaf [OF assms(2) 3(2)]  idx tr show ?thesis
      by (auto simp: moves_def answers_def sub_add_def Trie_Subscribe_def Let_def go_map_simps split: prod.splits)
  qed
qed

lemma moves_Unsubscribe:
  assumes "stands s t (Unsub_Load f i) c" "shared_ok s" "root t = tree s" "advance c s = Some (d, s')"
  shows "moves s t (Unsub_Load f i) d s'"
proof (cases "wildcard f")
  case True
  with assms show ?thesis
    by (auto simp: moves_def answers_def unsub_load_def Trie_Unsubscribe_def writes_leaf_def split: option.splits)
next
  case False
  from assms(1) False consider "c = Unsub_Load f i" "map_of (foliage t) f = leaf_of s f"
    | r l where "c = Unsub_Remove f r i" "map_of (index s) f = Some r" "map_of (foliage t) f = Some l" "leaf_heap s r = l"
    | r l where "c = Unsub_Test f r" "map_of (index s) f = Some r" "map_of (foliage t) f = Some l"
        "leaf_heap s r = RemoveSubscriber i l"
    | r l where "c = Unsub_Delete f" "map_of (index s) f = Some r" "map_of (foliage t) f = Some l"
        "Leaf_Subscribers (RemoveSubscriber i l) = []" "GetRetain (RemoveSubscriber i l) = None" by auto
  then show ?thesis
  proof cases
    case 1
    show ?thesis
    proof (cases "map_of (index s) f")
      case None
      then have "leaf_of s f = None" by (simp add: leaf_of_def)
      moreover have "d = Returned (Exist False)" "s' = s" using 1(1) None assms(4) False by (auto simp: unsub_load_def)
      ultimately show ?thesis using 1(2) assms(2,3) False  by (auto simp: moves_def answers_def Trie_Unsubscribe_def)
    next
      case (Some r)
      then have "leaf_of s f = Some (leaf_heap s r)" by (simp add: leaf_of_def)
      moreover have "d = Unsub_Remove f r i" "s' = s" using 1(1) Some assms(4) False by (auto simp: unsub_load_def)
      ultimately show ?thesis using 1(2) Some assms(2) False by (simp add: moves_def)
    qed
  next
    case 2
    have "map_of (index (set_leaf r l s)) f = Some r" "leaf_heap (set_leaf r l s) r = l" "tree (set_leaf r l s) = tree s" for l
      using 2(2) by (simp_all add: set_leaf_def)
    moreover have "d = Unsub_Test f r" "s' = set_leaf r (RemoveSubscriber i l) s" using 2 assms(4) by auto
    ultimately show ?thesis using 2(2,3) assms(2) False keeps_set_leaf [OF assms(2) 2(2)]  by (simp add: moves_def)
  next
    case 3
    with assms False  show ?thesis
      by (auto simp: moves_def answers_def Trie_Unsubscribe_def leaf_of_def Let_def go_map_simps)
  next
    case 4
    let ?u = "s\<lparr>index := go_delete f (index s)\<rparr>"
    have "keeps_leaf g s ?u" if "g \<noteq> f" for g using that by (simp add: keeps_leaf_def leaf_of_def map_of_go_delete)
    moreover have "leaf_of ?u f = None" by (simp add: leaf_of_def map_of_go_delete)
    ultimately show ?thesis using 4 assms False  ok_delete [OF assms(2)]
      by (auto simp: moves_def answers_def Trie_Unsubscribe_def Let_def go_map_simps)
  qed
qed

lemma moves_Subscribers:
  assumes "stands s t (Subs_Load f) c" "shared_ok s" "root t = tree s" "advance c s = Some (d, s')"
  shows "moves s t (Subs_Load f) d s'"
proof -
  show ?thesis
  proof (cases "wildcard f")
    case True
    with assms show ?thesis by (auto simp: moves_def answers_def Trie_Subscribers_def)
  next
    case False
    with assms(1) consider "c = Subs_Load f" | r where "c = Subs_Leaf f r" "map_of (index s) f = Some r"
      | "c = Subs_Tree f (case map_of (foliage t) f of None \<Rightarrow> [] | Some l \<Rightarrow> map snd (Leaf_Subscribers l))" by auto
    then show ?thesis
      by cases (use assms False in \<open>auto simp: moves_def answers_def Trie_Subscribers_def leaf_of_def Let_def
        split: option.splits Option.bind_splits\<close>)
  qed
qed

lemma stands_moves:
  assumes "stands s t c0 c" "shared_ok s" "root t = tree s" "advance c s = Some (d, s')"
  shows "moves s t c0 d s'"
proof (cases c0)
  case (Sub_Load f i x)
  with assms moves_Subscribe [of s t f i x c d s'] show ?thesis by simp
next
  case (Unsub_Load f i)
  with assms moves_Unsubscribe [of s t f i c d s'] show ?thesis by simp
next
  case (Subs_Load f)
  with assms moves_Subscribers [of s t f c d s'] show ?thesis by simp
qed (use assms in \<open>auto simp: moves_def answers_def writes_leaf_def Trie_AddRetain_def Trie_RemoveRetain_def
    Trie_SearchRetain_def split: option.splits Option.bind_splits\<close>)

lemma leaf_topic_exact: "leaf_topic c = Some f \<Longrightarrow> \<not> wildcard f"
  by (cases c) (auto split: if_splits)

lemma apart_writes:
  "apart cs \<Longrightarrow> j < length cs \<Longrightarrow> k < length cs \<Longrightarrow> j \<noteq> k \<Longrightarrow> leaf_topic (cs ! j) = Some f \<Longrightarrow> \<not> writes_leaf f (cs ! k)"
  unfolding apart_def writes_leaf_def by (metis option.distinct(1))

text \<open>
  \<open>ord\<close>: the calls that have returned, in the order of their last accesses. \<open>t\<close>: the storage the whole calls
  leave in that order.
\<close>

definition explains ::
  "('c, 'p) call list \<Rightarrow> ('c, 'p) call list \<times> ('c, 'p) Shared \<Rightarrow> ('c, 'p) Trie \<Rightarrow> bool" where
  "explains cs x t \<longleftrightarrow> root t = tree (snd x) \<and>
     (\<forall>k < length cs. \<not> is_returned (fst x ! k) \<longrightarrow> stands (snd x) t (cs ! k) (fst x ! k)) \<and>
     (\<forall>f. \<not> wildcard f \<and> (\<forall>k < length cs. \<not> is_returned (fst x ! k) \<longrightarrow> \<not> writes_leaf f (cs ! k)) \<longrightarrow>
       map_of (foliage t) f = leaf_of (snd x) f)"

definition ordered ::
  "('c, 'p) call list \<Rightarrow> ('c, 'p) Trie \<Rightarrow> ('c, 'p) call list \<times> ('c, 'p) Shared \<Rightarrow> nat list \<Rightarrow> bool" where
  "ordered cs t0 x ord \<longleftrightarrow>
     length (fst x) = length cs \<and> distinct ord \<and> set ord = {k. k < length cs \<and> is_returned (fst x ! k)} \<and>
     shared_ok (snd x) \<and>
     (\<exists>rs t. in_order (map ((!) cs) ord) t0 = Some (rs, t) \<and> map Returned rs = map ((!) (fst x)) ord \<and> explains cs x t)"

lemma ordered_start:
  "\<forall>c \<in> set cs. starting c \<Longrightarrow> shared_ok s \<Longrightarrow> ordered cs (storage_of s) (cs, s) []"
  by (auto simp: ordered_def explains_def starting_not_returned stands_start leaf_of_def)

text \<open>What an access does to the calls beside the one that makes it.\<close>

lemma explains_move:
  assumes "explains cs (ds, s) t" "apart cs" "k < length cs" "length ds = length cs" "\<not> is_returned (ds ! k)"
    "\<forall>f. \<not> wildcard f \<and> \<not> writes_leaf f (cs ! k) \<longrightarrow> keeps_leaf f s s'"
    "\<forall>f. \<not> wildcard f \<and> \<not> writes_leaf f (cs ! k) \<longrightarrow> map_of (foliage t') f = map_of (foliage t) f"
    "root t' = tree s'" "\<not> is_returned d \<longrightarrow> stands s' t' (cs ! k) d"
    "is_returned d \<longrightarrow> (\<forall>f. \<not> wildcard f \<and> writes_leaf f (cs ! k) \<longrightarrow> map_of (foliage t') f = leaf_of s' f)"
  shows "explains cs (ds[k := d], s') t'"
proof -
  note e = assms(1) [unfolded explains_def fst_conv snd_conv]
  have nth: "ds[k := d] ! j = (if j = k then d else ds ! j)" for j using assms(3,4) by simp
  have other: "stands s' t' (cs ! j) (ds ! j)" if j: "j < length cs" "\<not> is_returned (ds ! j)" "j \<noteq> k" for j
  proof (rule stands_frame)
    show "stands s t (cs ! j) (ds ! j)" using e j by blast
    fix f assume f: "leaf_topic (cs ! j) = Some f"
    with apart_writes [OF assms(2) j(1) assms(3) j(3)] leaf_topic_exact [OF f] assms(6,7)
    show "map_of (index s') f = map_of (index s) f \<and> leaf_of s' f = leaf_of s f \<and>
      map_of (foliage t') f = map_of (foliage t) f" by (simp add: keeps_leaf_def)
  qed
  have "map_of (foliage t') f = leaf_of s' f"
    if f: "\<not> wildcard f" "\<forall>j < length cs. \<not> is_returned (ds[k := d] ! j) \<longrightarrow> \<not> writes_leaf f (cs ! j)" for f
  proof (cases "writes_leaf f (cs ! k)")
    case True
    with f assms(3,10) show ?thesis by (auto simp: nth)
  next
    case False
    with f have "\<forall>j < length cs. \<not> is_returned (ds ! j) \<longrightarrow> \<not> writes_leaf f (cs ! j)" by (auto simp: nth split: if_splits)
    with e f(1) have "map_of (foliage t) f = leaf_of s f" by blast
    with False f(1) assms(6,7) show ?thesis by (simp add: keeps_leaf_def)
  qed
  with other assms(8,9) show ?thesis by (simp add: explains_def nth)
qed

lemma ordered_race:
  assumes "apart cs" "ordered cs t0 x ord" "race x y"
  shows "\<exists>ord. ordered cs t0 y ord"
proof -
  obtain k ds s d s' where xy: "x = (ds, s)" "y = (ds[k := d], s')" "k < length ds" "advance (ds ! k) s = Some (d, s')"
    using assms(3) by cases auto
  note o = assms(2) [unfolded ordered_def xy(1) fst_conv snd_conv]
  obtain rs t where rs: "in_order (map ((!) cs) ord) t0 = Some (rs, t)" "map Returned rs = map ((!) ds) ord"
    "explains cs (ds, s) t" using o by blast
  have k: "k < length cs" "length ds = length cs" using o xy(3) by simp_all
  have so: "set ord = {k. k < length cs \<and> is_returned (ds ! k)}" and dist: "distinct ord" using o by blast+
  show ?thesis
  proof (cases "is_returned (ds ! k)")
    case True
    then have "d = ds ! k" "s' = s" using xy(4) by (cases "ds ! k"; simp)+
    with assms(2) xy show ?thesis by auto
  next
    case False
    then have new: "k \<notin> set ord" using o by blast
    have st: "stands s t (cs ! k) (ds ! k)" "root t = tree s"
      using rs(3) False k by (simp_all add: explains_def)
    have m: "shared_ok s'" "\<forall>f. \<not> wildcard f \<and> \<not> writes_leaf f (cs ! k) \<longrightarrow> keeps_leaf f s s'"
      "answers t (cs ! k) d s' \<or> \<not> is_returned d \<and> tree s' = tree s \<and> stands s' t (cs ! k) d"
      using stands_moves [OF st(1) _ st(2) xy(4)] o by (simp_all add: moves_def)
    note move = explains_move [OF rs(3) assms(1) k(1,2) False m(2)]
    have nth: "ds[k := d] ! j = (if j = k then d else ds ! j)" for j using xy(3) by simp
    have kept: "map ((!) (ds[k := d])) ord = map ((!) ds) ord" using new by (auto intro!: map_cong nth_list_update_neq)
    from m(3) show ?thesis
    proof
      assume stays: "\<not> is_returned d \<and> tree s' = tree s \<and> stands s' t (cs ! k) d"
      then have "explains cs (ds[k := d], s') t" using st(2) by (intro move) auto
      then have "ordered cs t0 y ord"
        unfolding ordered_def xy(2) fst_conv snd_conv kept
        using o stays m(1) rs(1,2) new by (intro conjI) (auto simp: nth split: if_splits)
      then show ?thesis by blast
    next
      assume "answers t (cs ! k) d s'"
      then obtain r t' where a: "d = Returned r" "atomically (cs ! k) t = Some (r, t')" "root t' = tree s'"
        "\<forall>f. \<not> wildcard f \<longrightarrow> (if writes_leaf f (cs ! k) then map_of (foliage t') f = leaf_of s' f
                          else map_of (foliage t') f = map_of (foliage t) f)" unfolding answers_def by blast
      then have "explains cs (ds[k := d], s') t'" by (intro move) auto
      moreover have "in_order (map ((!) cs) (ord @ [k])) t0 = Some (rs @ [r], t')"
        using rs(1) a(2) by (simp add: in_order_snoc)
      moreover have "map Returned (rs @ [r]) = map ((!) (ds[k := d])) (ord @ [k])"
        using rs(2) kept a(1) xy(3) by simp
      moreover have "set (ord @ [k]) = {j. j < length cs \<and> is_returned (ds[k := d] ! j)}"
        using k(1) a(1) [THEN arg_cong [where f = is_returned]] by (auto simp: so nth)
      ultimately have "ordered cs t0 y (ord @ [k])"
        unfolding ordered_def xy(2) fst_conv snd_conv using k(2) m(1) so new dist by (simp del: map_append set_append)
      then show ?thesis by blast
    qed
  qed
qed

lemma races_ordered:
  assumes "race\<^sup>*\<^sup>* (cs, s) x" "\<forall>c \<in> set cs. starting c" "apart cs" "shared_ok s"
  shows "\<exists>ord. ordered cs (storage_of s) x ord"
  using assms(1) by (induction rule: rtranclp_induct) (use ordered_start [OF assms(2,4)] ordered_race [OF assms(3)] in blast)+

lemma races_no_data_race:
  assumes "race\<^sup>*\<^sup>* (cs, s) x" "\<forall>c \<in> set cs. starting c" "apart cs" "shared_ok s"
  shows "\<not> data_race (fst x)"
proof
  assume "data_race (fst x)"
  then obtain j k r m where jk: "j < length (fst x)" "k < length (fst x)" "j \<noteq> k" "leaf_access (fst x ! j) = Some (r, True)"
    "leaf_access (fst x ! k) = Some (r, m)" unfolding data_race_def by blast
  from races_ordered [OF assms] obtain t where t: "length (fst x) = length cs" "shared_ok (snd x)" "explains cs x t"
    unfolding ordered_def by blast
  have "\<not> is_returned c" if "leaf_access c = Some l" for c :: "('a, 'b) call" and l using that by (cases c) auto
  with jk t(1,3) have "stands (snd x) t (cs ! j) (fst x ! j)" "stands (snd x) t (cs ! k) (fst x ! k)"
    unfolding explains_def by simp_all
  from stands_leaf [OF this(1) jk(4)] stands_leaf [OF this(2) jk(5)] obtain f g where
    f: "leaf_topic (cs ! j) = Some f" "map_of (index (snd x)) f = Some r" "\<not> reads_only (cs ! j)" and
    g: "leaf_topic (cs ! k) = Some g" "map_of (index (snd x)) g = Some r" by auto
  have "f = g" by (rule index_inj [OF t(2) f(2) g(2)])
  with f g jk(1-3) t(1) assms(3) show False by (auto simp: apart_def)
qed

section \<open>No interleaving breaks the storage\<close>

text \<open>A leaf that a call holds belongs to its topic, or to none any more.\<close>

definition holds_leaf :: "('c, 'p) Shared \<Rightarrow> string \<Rightarrow> leafref \<Rightarrow> bool" where
  "holds_leaf s topic leaf \<longleftrightarrow> leaf < next_leaf s \<and> (\<forall>f. map_of (index s) f = Some leaf \<longrightarrow> f = topic)"

fun call_ok :: "('c, 'p) Shared \<Rightarrow> ('c, 'p) call \<Rightarrow> bool" where
  "call_ok s (Sub_Found topic leaf _ _) = holds_leaf s topic leaf"
| "call_ok s (Unsub_Remove topic leaf _) = holds_leaf s topic leaf"
| "call_ok s (Unsub_Test topic leaf) = holds_leaf s topic leaf"
| "call_ok s (Subs_Load topic) = (levels topic \<noteq> [])"
| "call_ok s (Subs_Leaf topic leaf) = (levels topic \<noteq> [] \<and> \<not> wildcard topic)"
| "call_ok s (Subs_Tree topic _) = (levels topic \<noteq> [] \<and> \<not> wildcard topic)"
| "call_ok s (Retain_Add topic _) = (levels topic \<noteq> [])"
| "call_ok s (Retain_Remove topic) = (levels topic \<noteq> [])"
| "call_ok s (Retain_Search topic) = (levels topic \<noteq> [])"
| "call_ok s _ = True"

definition shared_wf :: "('c, 'p) Shared \<Rightarrow> bool" where
  "shared_wf s \<longleftrightarrow> shared_ok s \<and> wf_trie (storage_of s)"

lemma holds_leafD:
  assumes "shared_ok s" "map_of (index s) topic = Some r"
  shows "holds_leaf s topic r"
proof -
  have "r \<in> snd ` set (index s)" using map_of_SomeD [OF assms(2)] by force
  with assms(1) index_inj [OF assms(1) _ assms(2)] show ?thesis by (auto simp: holds_leaf_def shared_ok_def)
qed

lemma call_ok_mono:
  assumes "call_ok s c" "next_leaf s \<le> next_leaf s'"
    "\<And>f r. r < next_leaf s \<Longrightarrow> map_of (index s') f = Some r \<Longrightarrow> map_of (index s) f = Some r"
  shows "call_ok s' c"
proof -
  have "holds_leaf s topic r \<Longrightarrow> holds_leaf s' topic r" for topic r
    using assms(2,3) unfolding holds_leaf_def by (meson order_less_le_trans)
  with assms(1) show ?thesis by (cases c) simp_all
qed

lemma wf_leaf_at:
  assumes "shared_wf s" "map_of (index s) f = Some r"
  shows "wf_leaf (leaf_heap s r)" "retain (leaf_heap s r) = None" "wildcard f \<Longrightarrow> subscribers (leaf_heap s r) = []"
proof -
  have "wf_trie (storage_of s)" "map_of (foliage (storage_of s)) f = Some (leaf_heap s r)"
    using assms by (simp_all add: shared_wf_def)
  note wf_trieD(3-5) [OF this]
  then show "wf_leaf (leaf_heap s r)" "retain (leaf_heap s r) = None" "wildcard f \<Longrightarrow> subscribers (leaf_heap s r) = []"
    by blast+
qed

lemma go_map_leaves [simp]: "go_map (leaves_at h m) = go_map m"
  by (simp add: go_map_def comp_def case_prod_unfold)

lemma wf_set_leaf:
  assumes "shared_wf s" "\<And>f. map_of (index s) f = Some r \<Longrightarrow> wf_leaf l \<and> retain l = None \<and> (wildcard f \<longrightarrow> subscribers l = [])"
  shows "shared_wf (set_leaf r l s)"
proof -
  let ?m = "leaves_at ((leaf_heap s)(r := l)) (index s)"
  have ok: "shared_ok s" using assms(1) by (simp add: shared_wf_def)
  have "wf_trie ((storage_of s)\<lparr>foliage := ?m\<rparr>)"
  proof (rule wf_trie_foliage)
    show "wf_trie (storage_of s)" using assms(1) by (simp add: shared_wf_def)
    show "go_map ?m" using ok by (simp only: go_map_leaves shared_ok_def)
    fix f k
    assume "map_of ?m f = Some k"
    then obtain q where q: "map_of (index s) f = Some q" "k = (if q = r then l else leaf_heap s q)"
      by (auto simp: map_of_map split: if_splits)
    with assms(2) [of f] wf_leaf_at [OF assms(1) q(1)]
    show "wf_leaf k \<and> retain k = None \<and> (wildcard f \<longrightarrow> subscribers k = [])" by simp
  qed
  moreover have "storage_of (set_leaf r l s) = (storage_of s)\<lparr>foliage := ?m\<rparr>"
    by (simp add: storage_of_def set_leaf_def)
  moreover have "shared_ok (set_leaf r l s)" using ok by (simp add: shared_ok_def set_leaf_def)
  ultimately show ?thesis by (simp only: shared_wf_def)
qed

lemma wf_set_tree:
  assumes "shared_wf s" "wf_trie t" "root t = b"
  shows "shared_wf (s\<lparr>tree := b\<rparr>)"
  using assms by (auto simp: shared_wf_def shared_ok_def storage_of_def wf_trie_def)

lemma safe_store:
  assumes "shared_wf s" "sub_store topic s = (r, s')"
  shows "shared_wf s' \<and> holds_leaf s' topic r \<and> (\<forall>e. call_ok s e \<longrightarrow> call_ok s' e)"
proof -
  have s: "shared_ok s" "wf_trie (storage_of s)" using assms(1) by (simp_all add: shared_wf_def)
  note s' = storage_store [OF s(1) assms(2)]
  have r: "r = next_leaf s" "next_leaf s' = r + 1" using assms(2) by (auto simp: sub_store_def Let_def)
  have "wf_trie ((storage_of s)\<lparr>foliage := foliage (storage_of s')\<rparr>)"
  proof (rule wf_trie_foliage [OF s(2)])
    show "go_map (foliage (storage_of s'))"
      using s'(3) by (simp add: shared_ok_def storage_of_def)
    fix f l
    assume "map_of (foliage (storage_of s')) f = Some l"
    then have "l = NewLeaf \<or> map_of (foliage (storage_of s)) f = Some l"
      unfolding s'(4) by (simp split: if_splits)
    then show "wf_leaf l \<and> retain l = None \<and> (wildcard f \<longrightarrow> subscribers l = [])"
      using wf_trieD(3-5) [OF s(2), of f l] by (auto simp: NewLeaf_def wf_leaf_def)
  qed
  then have "shared_wf s'" using s'(1,3) by (simp add: shared_wf_def storage_of_def)
  moreover have "holds_leaf s' topic r" using holds_leafD [OF s'(3)] s'(2) by (simp add: go_map_simps)
  moreover have "call_ok s' e" if "call_ok s e" for e
    by (rule call_ok_mono [OF that]) (use r s'(2) in \<open>auto simp: go_map_simps split: if_splits\<close>)
  ultimately show ?thesis by blast
qed

lemma add_keeps:
  "sub_add topic r i c s = Some (d, s') \<Longrightarrow> index s' = index s"
  "sub_add topic r i c s = Some (d, s') \<Longrightarrow> next_leaf s' = next_leaf s"
  by (auto simp: sub_add_def set_leaf_def split: prod.splits if_splits Option.bind_splits)

lemma safe_add:
  assumes "shared_wf s" "holds_leaf s topic r"
  shows "\<exists>e s'. sub_add topic r i c s = Some (Returned e, s') \<and> shared_wf s'"
proof (cases "wildcard topic")
  case True
  have "wf_trie (storage_of s)" using assms(1) by (simp add: shared_wf_def)
  from Subscribe_wildcard [OF this True, of i c] obtain t e where
    t: "Trie_Subscribe topic i c (storage_of s) = Some (t, e)" "wf_trie t" by blast
  with True have "AddBranch topic i c (levels topic) (tree s) = Some (root t, e)"
    by (auto simp: Trie_Subscribe_def split: Option.bind_splits)
  with True wf_set_tree [OF assms(1) t(2)] show ?thesis by (simp add: sub_add_def)
next
  case False
  with assms have "shared_wf (set_leaf r (fst (AddSubscriber i c (leaf_heap s r))) s)"
    by (intro wf_set_leaf) (auto simp: holds_leaf_def wf_leaf_def AddSubscriber_def Let_def go_map_simps dest: wf_leaf_at)
  with False show ?thesis by (simp add: sub_add_def case_prod_unfold Let_def)
qed

lemma safe_delete:
  assumes "shared_wf s"
  shows "shared_wf (s\<lparr>index := go_delete topic (index s)\<rparr>)"
proof -
  have s: "shared_ok s" "wf_trie (storage_of s)" using assms by (simp_all add: shared_wf_def)
  have "wf_trie ((storage_of s)\<lparr>foliage := go_delete topic (foliage (storage_of s))\<rparr>)"
  proof (rule wf_trie_foliage [OF s(2)])
    show "go_map (go_delete topic (foliage (storage_of s)))" using wf_trieD(2) [OF s(2)] by blast
    fix f l
    assume "map_of (go_delete topic (foliage (storage_of s))) f = Some l"
    then have "map_of (foliage (storage_of s)) f = Some l"
      unfolding map_of_go_delete by (simp split: if_splits)
    with wf_trieD(3-5) [OF s(2), of f l]
    show "wf_leaf l \<and> retain l = None \<and> (wildcard f \<longrightarrow> subscribers l = [])" by blast
  qed
  moreover have "distinct (map snd (go_delete topic (index s)))"
    using s(1) by (auto simp: shared_ok_def AList.delete_eq intro: distinct_map_filter)
  ultimately show ?thesis using s(1) set_go_delete [of topic "index s"]
    by (auto simp: shared_wf_def shared_ok_def storage_of_def leaves_at_delete)
qed

lemma safe_advance:
  assumes "shared_wf s" "call_ok s c"
  shows "\<exists>d s'. advance c s = Some (d, s') \<and> shared_wf s' \<and> call_ok s' d \<and> (\<forall>e. call_ok s e \<longrightarrow> call_ok s' e)"
proof -
  have ok: "shared_ok s" "wf_trie (storage_of s)" using assms(1) by (simp_all add: shared_wf_def)
  have kept: "\<forall>e. call_ok s e \<longrightarrow> call_ok s' e"
    if "index s' = index s \<or> index s' = go_delete topic (index s)" "next_leaf s' = next_leaf s" for s' topic
  proof (intro allI impI)
    show "call_ok s' e" if "call_ok s e" for e
      by (rule call_ok_mono [OF that])
        (use \<open>index s' = index s \<or> _\<close> \<open>next_leaf s' = _\<close> in \<open>auto simp: go_map_simps split: if_splits\<close>)
  qed
  note set_tree = wf_set_tree [OF assms(1)]
  show ?thesis
  proof (cases c)
    case (Sub_Load topic i x)
    with holds_leafD [OF ok(1)] assms(1) show ?thesis by (auto simp: sub_load_def split: option.split)
  next
    case (Sub_Store topic i x)
    obtain r s' where "sub_store topic s = (r, s')" by force
    with safe_store [OF assms(1) this] Sub_Store show ?thesis by auto
  next
    case (Sub_Found topic r i x)
    with safe_add [OF assms(1), of topic r i x] assms(2) obtain e s' where
      e: "sub_add topic r i x s = Some (Returned e, s')" "shared_wf s'" by auto
    with kept [of s'] add_keeps [OF e(1)] Sub_Found show ?thesis by auto
  next
    case (Unsub_Load topic i)
    from Unsubscribe_law [OF ok(2), of topic i] obtain t e where
      "Trie_Unsubscribe topic i (storage_of s) = Some (t, e)" "wf_trie t" by blast
    with Unsub_Load set_tree [of t] kept assms(1) holds_leafD [OF ok(1)] show ?thesis
      by (auto simp: Trie_Unsubscribe_def unsub_load_def split: option.splits if_splits)
  next
    case (Unsub_Remove topic r i)
    have "shared_wf (set_leaf r (RemoveSubscriber i (leaf_heap s r)) s)"
      by (rule wf_set_leaf [OF assms(1)])
        (auto simp: RemoveSubscriber_def wf_leaf_def go_map_simps dest: wf_leaf_at [OF assms(1)])
    with Unsub_Remove kept [of "set_leaf r (RemoveSubscriber i (leaf_heap s r)) s"] assms(2) show ?thesis
      by (simp add: set_leaf_def holds_leaf_def)
  next
    case (Unsub_Delete topic)
    with safe_delete [OF assms(1), of topic] kept [of "s\<lparr>index := go_delete topic (index s)\<rparr>" topic] show ?thesis by simp
  next
    case (Subs_Tree topic got)
    with Subscribers_law [OF ok(2), of topic] assms show ?thesis
      by (auto simp: Trie_Subscribers_def Let_def split: Option.bind_splits)
  next
    case (Retain_Add topic packet)
    with assms(2) AddRetain_law [OF ok(2), of topic packet] obtain t e where
      "Trie_AddRetain topic packet (storage_of s) = Some (t, e)" "wf_trie t" by auto
    with Retain_Add set_tree [of t] kept show ?thesis
      by (auto simp: Trie_AddRetain_def split: Option.bind_splits)
  next
    case (Retain_Remove topic)
    with assms(2) RemoveRetain_law [OF ok(2), of topic] obtain t e where
      "Trie_RemoveRetain topic (storage_of s) = Some (t, e)" "wf_trie t" by auto
    with Retain_Remove set_tree [of t] kept assms(1) show ?thesis
      by (auto simp: Trie_RemoveRetain_def split: option.splits)
  next
    case (Retain_Search topic)
    with assms SearchRetain_law [OF ok(2), of topic] show ?thesis
      by (auto simp: Trie_SearchRetain_def)
  qed (use assms in \<open>auto split: option.split\<close>)
qed

lemma safe_race:
  assumes "race x y" "shared_wf (snd x)" "\<forall>c \<in> set (fst x). call_ok (snd x) c"
  shows "shared_wf (snd y) \<and> (\<forall>c \<in> set (fst y). call_ok (snd y) c)"
  using assms(1)
proof cases
  case (race k cs s c s')
  with safe_advance [of s "cs ! k"] assms(2,3) show ?thesis
    by (auto dest!: set_update_subset_insert [THEN subsetD])
qed

section \<open>Properties\<close>

text \<open>A run in a given order.\<close>

fun schedule :: "nat list \<Rightarrow> ('c, 'p) call list \<Rightarrow> ('c, 'p) Shared \<Rightarrow> (('c, 'p) call list \<times> ('c, 'p) Shared) option" where
  "schedule [] cs s = Some (cs, s)"
| "schedule (k # ks) cs s =
     (if k < length cs then do { (c, s) \<leftarrow> advance (cs ! k) s; schedule ks (cs[k := c]) s } else None)"

lemma schedule_race: "schedule ks cs s = Some x \<Longrightarrow> race\<^sup>*\<^sup>* (cs, s) x"
  by (induction ks cs s rule: schedule.induct)
    (auto split: if_splits Option.bind_splits intro: converse_rtranclp_into_rtranclp race)

definition some_shared :: "(nat, nat) Shared" where
  "some_shared = \<lparr>tree = SetName ''root'' NewBranch, index = [(''a'', 0)], leaf_heap = \<lambda>_. NewLeaf, next_leaf = 1\<rparr>"

text \<open>The same storage with a subscriber of the topic.\<close>

definition busy_shared :: "(nat, nat) Shared" where
  "busy_shared = set_leaf 0 \<lparr>subscribers = [(''j'', 2)], retain = None\<rparr> some_shared"

text \<open>
  C11. Calls at the same time have an order if they are apart. Let goroutines make any of the six calls at once,
  as many as they like, but let none subscribe or unsubscribe a topic without wildcards while another call is on the
  same topic. Then however their accesses interleave there is no data race, and the results they return and
  the storage they leave are those of the same calls one after the other in some order. Without the
  condition there is a data race (\<open>leaf_data_race\<close>), and even with locked leaves there need not be an order
  (\<open>subscription_lost\<close>, \<open>subscription_deleted\<close>).
\<close>

theorem calls_in_some_order:
  assumes "race\<^sup>*\<^sup>* (cs, s) (map Returned rs, s')" "\<forall>c \<in> set cs. starting c" "apart cs" "shared_ok s"
  shows "(\<forall>x. race\<^sup>*\<^sup>* (cs, s) x \<longrightarrow> \<not> data_race (fst x)) \<and>
    (\<exists>ord t. distinct ord \<and> set ord = {..<length cs} \<and> same_topics t (storage_of s') \<and>
      in_order (map ((!) cs) ord) (storage_of s) = Some (map ((!) rs) ord, t))"
proof
  show "\<forall>x. race\<^sup>*\<^sup>* (cs, s) x \<longrightarrow> \<not> data_race (fst x)" using races_no_data_race assms(2-4) by blast
  from races_ordered [OF assms] obtain ord where "ordered cs (storage_of s) (map Returned rs, s') ord" by blast
  then obtain rs' t where o: "length rs = length cs" "distinct ord" "set ord = {..<length cs}"
      "in_order (map ((!) cs) ord) (storage_of s) = Some (rs', t)" "explains cs (map Returned rs, s') t"
      "map Returned rs' = map ((!) (map Returned rs)) ord"
    unfolding ordered_def by fastforce
  have "map Returned rs' = map Returned (map ((!) rs) ord)" using o(1,3,6) by auto
  then have "rs' = map ((!) rs) ord" by (rule map_inj_on) (simp add: inj_on_def)
  moreover have "same_topics t (storage_of s')"
    using o(1,5) by (simp add: explains_def same_topics_def leaf_of_def)
  ultimately show "\<exists>ord t. distinct ord \<and> set ord = {..<length cs} \<and> same_topics t (storage_of s') \<and>
      in_order (map ((!) cs) ord) (storage_of s) = Some (map ((!) rs) ord, t)" using o(2-4) by blast
qed

lemma calls_in_some_order_witness:
  "\<exists>ord t s'. set ord = {..<2::nat} \<and> same_topics t (storage_of s') \<and>
    in_order (map ((!) [Sub_Load ''a'' ''i'' (1::nat), Sub_Load ''+'' ''j'' 2]) ord) (storage_of new_shared) =
      Some (map ((!) [Exist False, Exist False]) ord, t :: (nat, nat) Trie)"
proof -
  let ?cs = "[Sub_Load ''a'' ''i'' 1, Sub_Load ''+'' ''j'' 2] :: (nat, nat) call list"
  obtain s' where "schedule [1, 0, 1, 0, 1, 0] ?cs new_shared = Some (map Returned [Exist False, Exist False], s')"
  proof -
    have "map_option fst (schedule [1, 0, 1, 0, 1, 0] ?cs new_shared) = Some (map Returned [Exist False, Exist False])"
      by code_simp
    with that show thesis by (auto simp del: schedule.simps)
  qed
  note run = schedule_race [OF this]
  have wild: "wildcard ''+''" by code_simp
  have set: "\<forall>c \<in> set ?cs. starting c" by simp
  have apart: "apart ?cs" using wild by (simp add: apart_def less_Suc_eq nth_Cons')
  from calls_in_some_order [OF run set apart new_shared(1)] obtain ord t where o: "set ord = {..<length ?cs}"
    "same_topics t (storage_of s')" "in_order (map ((!) ?cs) ord) (storage_of new_shared) =
      Some (map ((!) [Exist False, Exist False]) ord, t)" by (elim exE conjE) (rule that; assumption)
  show ?thesis
  proof (intro exI conjI)
    show "set ord = {..<2}" using o(1) by simp
    show "same_topics t (storage_of s')" by (rule o(2))
  qed (rule o(3))
qed

text \<open>
  C12. Calls at the same time are safe if they are apart. Whatever calls goroutines make at once and however their
  accesses interleave, the storage stays well formed, no access panics and no two of them race, if the topics
  published and retained have a level that is not blank and none subscribes or unsubscribes a topic
  without wildcards while another call is on the same topic.
\<close>

theorem storage_calls_safe:
  assumes "race\<^sup>*\<^sup>* (cs, s) (cs', s')" "shared_wf s" "\<forall>c \<in> set cs. starting c \<and> call_ok s c" "apart cs"
  shows "shared_wf s' \<and> \<not> data_race cs' \<and> (\<forall>k < length cs'. advance (cs' ! k) s' \<noteq> None)"
proof -
  have "shared_wf s' \<and> (\<forall>c \<in> set cs'. call_ok s' c)"
    using assms(1) by (induction "(cs', s')" arbitrary: cs' s' rule: rtranclp_induct)
      (use assms(2,3) safe_race in fastforce)+
  moreover have "\<not> data_race cs'"
    using races_no_data_race [OF assms(1) _ assms(4)] assms(2,3) by (simp add: shared_wf_def)
  ultimately show ?thesis using safe_advance [of s'] nth_mem [of _ cs'] by fastforce
qed

lemma storage_calls_safe_witness:
  "\<exists>cs s. race\<^sup>*\<^sup>* ([Sub_Load ''a'' ''i'' (1::nat), Unsub_Load ''b'' ''i''], new_shared :: (nat, nat) Shared) (cs, s) \<and>
    shared_wf s \<and> \<not> data_race cs"
proof -
  let ?cs = "[Sub_Load ''a'' ''i'' (1::nat), Unsub_Load ''b'' ''i'']"
  have "schedule [0, 0, 1] ?cs (new_shared :: (nat, nat) Shared) \<noteq> None" by code_simp
  then obtain cs s where cs: "schedule [0, 0, 1] ?cs (new_shared :: (nat, nat) Shared) = Some (cs, s)" by force
  have "shared_wf (new_shared :: (nat, nat) Shared)" by (simp add: shared_wf_def new_shared wf_NewTrie)
  moreover have "apart ?cs" by (simp add: apart_def less_Suc_eq nth_Cons')
  ultimately show ?thesis using storage_calls_safe [OF schedule_race [OF cs]] schedule_race [OF cs] by fastforce
qed

text \<open>
  C13. Two calls on one topic without wildcards race for its leaf. If one of them subscribes or unsubscribes and the
  other subscribes, unsubscribes or asks for the subscribers, as every publication does, then after one access of each,
  its look-up, they are both about to access the map of subscribers of the same leaf, one to write it.
\<close>

theorem leaf_data_race:
  assumes "map_of (index s) topic = Some leaf" "leaf_topic c = Some topic" "\<not> reads_only c" "leaf_topic d = Some topic"
  shows "\<exists>cs s'. race\<^sup>*\<^sup>* ([c, d], s) (cs, s') \<and> data_race cs"
proof -
  have step: "\<exists>x m. advance e s = Some (x, s) \<and> leaf_access x = Some (leaf, m) \<and> (\<not> reads_only e \<longrightarrow> m)"
    if "leaf_topic e = Some topic" for e :: "('a, 'b) call"
    using that assms(1) by (cases e) (auto simp: sub_load_def unsub_load_def split: if_splits)
  obtain x where x: "advance c s = Some (x, s)" "leaf_access x = Some (leaf, True)"
    using step [OF assms(2)] assms(3) by auto
  obtain y m where y: "advance d s = Some (y, s)" "leaf_access y = Some (leaf, m)" using step [OF assms(4)] by auto
  have "schedule [0, Suc 0] [c, d] s = Some ([x, y], s)" using x(1) y(1) by simp
  moreover have "data_race [x, y]"
    unfolding data_race_def by (rule exI [of _ 0], rule conjI, simp, rule exI [of _ "Suc 0"]) (use x(2) y(2) in auto)
  ultimately show ?thesis using schedule_race by blast
qed

text \<open>A client subscribes \<open>a\<close> while a message for \<open>a\<close> is published.\<close>

lemma leaf_data_race_witness:
  "\<exists>cs s'. race\<^sup>*\<^sup>* ([Sub_Load ''a'' ''i'' 1, Subs_Load ''a''], busy_shared) (cs, s') \<and> data_race cs"
proof (rule leaf_data_race)
  have "\<not> wildcard ''a''" by code_simp
  then show "leaf_topic (Sub_Load ''a'' ''i'' 1) = Some ''a''" "leaf_topic (Subs_Load ''a'') = Some ''a''" by simp_all
qed (simp_all add: busy_shared_def some_shared_def set_leaf_def)

text \<open>
  C19. A subscription can get lost. Two clients subscribe a topic that has no leaf yet, both look it up before one
  has stored its leaf, and the leaf stored second replaces the first with the subscriber in it. Both calls
  return that the client is new, but only one is subscribed, which no order of the two calls explains.
\<close>

theorem subscription_lost:
  assumes "\<not> wildcard topic" "map_of (index s) topic = None" "i \<noteq> j"
  shows "\<exists>s'. race\<^sup>*\<^sup>* ([Sub_Load topic i c, Sub_Load topic j d], s) ([Returned (Exist False), Returned (Exist False)], s') \<and>
    subscription (storage_of s') topic i = None \<and> subscription (storage_of s') topic j = Some d"
proof -
  have "\<exists>s'. schedule [0, 1, 0, 0, 1, 1] [Sub_Load topic i c, Sub_Load topic j d] s =
      Some ([Returned (Exist False), Returned (Exist False)], s') \<and>
    subscription (storage_of s') topic i = None \<and> subscription (storage_of s') topic j = Some d"
    using assms
    by (simp add: sub_load_def sub_store_def sub_add_def set_leaf_def Let_def AddSubscriber_def NewLeaf_def
        subscription_def go_map_simps)
  then show ?thesis using schedule_race by blast
qed

lemma subscription_lost_witness:
  "\<exists>s. race\<^sup>*\<^sup>* ([Sub_Load ''a/b'' ''i'' (1::nat), Sub_Load ''a/b'' ''j'' 2], new_shared :: (nat, nat) Shared)
      ([Returned (Exist False), Returned (Exist False)], s) \<and>
    subscription (storage_of s) ''a/b'' ''i'' = None \<and> subscription (storage_of s) ''a/b'' ''j'' = Some 2"
proof (rule subscription_lost)
  show "\<not> wildcard ''a/b''" by code_simp
qed (simp_all add: new_shared_def)

text \<open>
  C20. An unsubscription can take another client's subscription with it. The last subscriber of a topic leaves, and a
  client that subscribes after the test whether the leaf is empty and before the deletion is added to a leaf
  that is then thrown away.
\<close>

theorem subscription_deleted:
  assumes "\<not> wildcard topic" "map_of (index s) topic = Some r" "leaf_heap s r = \<lparr>subscribers = [(j, d)], retain = None\<rparr>"
    "i \<noteq> j"
  shows "\<exists>s'. race\<^sup>*\<^sup>* ([Unsub_Load topic j, Sub_Load topic i c], s) ([Returned (Exist True), Returned (Exist False)], s') \<and>
    subscription (storage_of s') topic i = None"
proof -
  have "\<exists>s'. schedule [0, 0, 0, 1, 1, 0] [Unsub_Load topic j, Sub_Load topic i c] s =
      Some ([Returned (Exist True), Returned (Exist False)], s') \<and> subscription (storage_of s') topic i = None"
    using assms
    by (simp add: sub_load_def unsub_load_def sub_add_def set_leaf_def Let_def leaf_defs
        subscription_def go_map_simps)
  then show ?thesis using schedule_race by blast
qed

lemma subscription_deleted_witness:
  "\<exists>s. race\<^sup>*\<^sup>* ([Unsub_Load ''a'' ''j'', Sub_Load ''a'' ''i'' 1], busy_shared) ([Returned (Exist True), Returned (Exist False)], s) \<and>
    subscription (storage_of s) ''a'' ''i'' = None"
proof (rule subscription_deleted [where r = 0 and d = 2])
  show "\<not> wildcard ''a''" by code_simp
qed (simp_all add: busy_shared_def some_shared_def set_leaf_def)

end
