(* ===== verification/Client_Calls.thy ===== *)
theory Client_Calls
  imports Sample_Run
begin

text \<open>
  The calls on one client as goroutines make them at the same time. \<open>World\<close> takes \<open>WritePacket\<close>, \<open>ReadPacket\<close> and
  \<open>Close\<close> in one step each; in \<open>broker/clients.go\<close> and \<open>cluster/clients.go\<close> each looks at the field \<open>conn\<close> twice and
  takes no lock, and the goroutine of every publisher writes to a client that its own goroutine and the one of
  a client with the same identity may close. Here a call is its accesses to the field and to the connection.
  Each of them is taken in one piece, which for the field is more than Go grants when another goroutine stores to it.
\<close>

section \<open>The accesses of a call\<close>

text \<open>Where a call stands, with the connection once it has loaded it, and what it returned in the end.\<close>

datatype client_outcome =
    Written "go_error option" ControlPacket
  | Was_Read "ControlPacket option" "go_error option"
  | Was_Closed

datatype client_call =
    Write_Test ControlPacket
  | Write_Load ControlPacket
  | Write_Send connref ControlPacket
  | Read_Test
  | Read_Load
  | Read_Take connref
  | Close_Cancel
  | Close_Test
  | Close_Load
  | Close_Down connref
  | Close_Clear
  | Ended client_outcome

text \<open>\<open>WritePacket\<close>: the test for \<open>nil\<close>, loading the connection to write to, where \<open>nil\<close> panics, and writing.\<close>

definition write_test :: "cref \<Rightarrow> ControlPacket \<Rightarrow> World \<Rightarrow> (client_call \<times> World) option" where
  "write_test c packet w =
     do { cl \<leftarrow> heap w c;
          Some (if conn cl \<noteq> None then Write_Load packet
                else Ended (Written (case kind cl of BrokerClient \<Rightarrow> None | ClusterClient \<Rightarrow> Some ErrConnDisconnected) packet), w) }"

definition write_load :: "cref \<Rightarrow> ControlPacket \<Rightarrow> World \<Rightarrow> (client_call \<times> World) option" where
  "write_load c packet w = do { cl \<leftarrow> heap w c; k \<leftarrow> conn cl; Some (Write_Send k packet, w) }"

definition write_send :: "connref \<Rightarrow> ControlPacket \<Rightarrow> World \<Rightarrow> (client_call \<times> World) option" where
  "write_send k packet w =
     do { (err, packet, w) \<leftarrow> conn_WritePacket k packet w; Some (Ended (Written err packet), w) }"

text \<open>\<open>ReadPacket\<close>.\<close>

definition read_test :: "cref \<Rightarrow> World \<Rightarrow> (client_call \<times> World) option" where
  "read_test c w =
     do { cl \<leftarrow> heap w c;
          Some (if conn cl \<noteq> None then Read_Load else Ended (Was_Read None (Some ErrConnDisconnected)), w) }"

definition read_load :: "cref \<Rightarrow> World \<Rightarrow> (client_call \<times> World) option" where
  "read_load c w = do { cl \<leftarrow> heap w c; k \<leftarrow> conn cl; Some (Read_Take k, w) }"

definition read_take :: "connref \<Rightarrow> World \<Rightarrow> (client_call \<times> World) option" where
  "read_take k w = (case conn_ReadPacket k w of (packet, err, w) \<Rightarrow> Some (Ended (Was_Read packet err), w))"

text \<open>\<open>Close\<close>: cancelling the context, the test for \<open>nil\<close>, loading and closing the connection, and forgetting it.\<close>

definition close_cancel :: "cref \<Rightarrow> World \<Rightarrow> (client_call \<times> World) option" where
  "close_cancel c w = do { cl \<leftarrow> heap w c; Some (Close_Test, set_client c (cl\<lparr>client_done := True\<rparr>) w) }"

definition close_test :: "cref \<Rightarrow> World \<Rightarrow> (client_call \<times> World) option" where
  "close_test c w =
     do { cl \<leftarrow> heap w c; Some (if conn cl \<noteq> None then Close_Load else Ended Was_Closed, w) }"

definition close_load :: "cref \<Rightarrow> World \<Rightarrow> (client_call \<times> World) option" where
  "close_load c w = do { cl \<leftarrow> heap w c; k \<leftarrow> conn cl; Some (Close_Down k, w) }"

definition close_clear :: "cref \<Rightarrow> World \<Rightarrow> (client_call \<times> World) option" where
  "close_clear c w = do { cl \<leftarrow> heap w c; Some (Ended Was_Closed, set_client c (cl\<lparr>conn := None\<rparr>) w) }"

fun access :: "cref \<Rightarrow> client_call \<Rightarrow> World \<Rightarrow> (client_call \<times> World) option" where
  "access c (Write_Test packet) w = write_test c packet w"
| "access c (Write_Load packet) w = write_load c packet w"
| "access c (Write_Send k packet) w = write_send k packet w"
| "access c Read_Test w = read_test c w"
| "access c Read_Load w = read_load c w"
| "access c (Read_Take k) w = read_take k w"
| "access c Close_Cancel w = close_cancel c w"
| "access c Close_Test w = close_test c w"
| "access c Close_Load w = close_load c w"
| "access c (Close_Down k) w = Some (Close_Clear, conn_Close k w)"
| "access c Close_Clear w = close_clear c w"
| "access c (Ended r) w = Some (Ended r, w)"

lemmas access_defs = write_test_def write_load_def write_send_def read_test_def read_load_def read_take_def
  close_cancel_def close_test_def close_load_def close_clear_def

text \<open>One of the goroutines with a call on the client \<open>c\<close> makes its next access.\<close>

inductive compete :: "cref \<Rightarrow> client_call list \<times> World \<Rightarrow> client_call list \<times> World \<Rightarrow> bool" for c where
  compete: "j < length cs \<Longrightarrow> access c (cs ! j) w = Some (x, w') \<Longrightarrow> compete c (cs, w) (cs[j := x], w')"

fun in_turn :: "cref \<Rightarrow> nat list \<Rightarrow> client_call list \<Rightarrow> World \<Rightarrow> (client_call list \<times> World) option" where
  "in_turn c [] cs w = Some (cs, w)"
| "in_turn c (j # js) cs w =
     (if j < length cs then do { (x, w) \<leftarrow> access c (cs ! j) w; in_turn c js (cs[j := x]) w } else None)"

lemma in_turn_compete: "in_turn c js cs w = Some x \<Longrightarrow> (compete c)\<^sup>*\<^sup>* (cs, w) x"
  by (induction c js cs w rule: in_turn.induct)
    (auto split: if_splits Option.bind_splits intro: converse_rtranclp_into_rtranclp compete)

section \<open>A call that is alone\<close>

lemma WritePacket_alone:
  "in_turn c [0, 0, 0] [Write_Test packet] w =
     map_option (\<lambda>(err, packet, w). ([Ended (Written err packet)], w)) (client_WritePacket c packet w)"
  by (cases "heap w c")
    (auto simp: access_defs client_WritePacket_eq conn_WritePacket_def split: client_kind.split option.split Option.bind_split)

lemma ReadPacket_alone:
  "in_turn c [0, 0, 0] [Read_Test] w =
     map_option (\<lambda>(packet, err, w). ([Ended (Was_Read packet err)], w)) (client_ReadPacket c w)"
  by (cases "heap w c")
    (auto simp: access_defs client_ReadPacket_eq conn_ReadPacket_def split: option.split prod.split)

lemma no_conn: "conn cl = None \<Longrightarrow> cl\<lparr>client_done := b, conn := None\<rparr> = cl\<lparr>client_done := b\<rparr>"
  by (cases cl) simp

lemma Close_alone:
  "in_turn c [0, 0, 0, 0, 0] [Close_Cancel] w = map_option (\<lambda>w. ([Ended Was_Closed], w)) (client_Close c w)"
  by (cases "heap w c")
    (auto simp: access_defs client_Close_eq conn_Close_def set_client_def no_conn split: option.split)

section \<open>Writing while no one closes\<close>

fun call_bytes :: "client_call \<Rightarrow> byte list" where
  "call_bytes (Write_Test packet) = packet_bytes packet"
| "call_bytes _ = []"

fun has_ended :: "client_call \<Rightarrow> bool" where
  "has_ended (Ended _) = True"
| "has_ended _ = False"

text \<open>A call that began as the first is now where the second is; \<open>k\<close> is the connection of the client.\<close>

fun on_way :: "connref \<Rightarrow> client_call \<Rightarrow> client_call \<Rightarrow> bool" where
  "on_way k (Write_Test p) x \<longleftrightarrow>
     Write p \<noteq> None \<and> (x \<in> {Write_Test p, Write_Load p, Write_Send k p} \<or> (\<exists>q. x = Ended (Written None q)))"
| "on_way k Read_Test x \<longleftrightarrow> x \<in> {Read_Test, Read_Load, Read_Take k} \<or> (\<exists>p e. x = Ended (Was_Read p e))"
| "on_way k _ x \<longleftrightarrow> False"

definition open_at :: "cref \<Rightarrow> connref \<Rightarrow> byte list \<Rightarrow> World \<Rightarrow> bool" where
  "open_at c k bs w \<longleftrightarrow> (\<exists>cn. attached w c k cn \<and> sent cn = bs)"

lemma on_way_access:
  assumes "on_way k c0 x" "open_at c k bs w"
  shows "access c x w \<noteq> None"
    "access c x w = Some (y, w') \<Longrightarrow> on_way k c0 y \<and>
      open_at c k (if has_ended y \<and> \<not> has_ended x then bs @ call_bytes c0 else bs) w'"
proof -
  obtain cl cn where a: "heap w c = Some cl" "conn cl = Some k" "conns w k = Some cn" "up cn" "sent cn = bs"
    using assms(2) by (auto simp: open_at_def attached_def)
  have "access c x w \<noteq> None \<and> (access c x w = Some (y, w') \<longrightarrow> on_way k c0 y \<and>
      open_at c k (if has_ended y \<and> \<not> has_ended x then bs @ call_bytes c0 else bs) w')"
  proof (cases c0)
    case (Write_Test p)
    with assms(1) obtain b q where "Write p = Some (b, q)" by auto
    with Write_Test assms a show ?thesis
      by (auto simp: access_defs open_at_def attached_def conn_WritePacket_def conn_Write_def packet_bytes_def)
  next
    case Read_Test
    with assms a show ?thesis
      by (auto simp: access_defs open_at_def attached_def conn_ReadPacket_def split: prod.splits)
  qed (use assms in simp_all)
  then show "access c x w \<noteq> None"
    "access c x w = Some (y, w') \<Longrightarrow> on_way k c0 y \<and>
      open_at c k (if has_ended y \<and> \<not> has_ended x then bs @ call_bytes c0 else bs) w'" by blast+
qed

text \<open>\<open>ord\<close>: the calls that have ended, in the order of their last accesses.\<close>

definition under_way ::
  "cref \<Rightarrow> connref \<Rightarrow> byte list \<Rightarrow> client_call list \<Rightarrow> client_call list \<times> World \<Rightarrow> nat list \<Rightarrow> bool" where
  "under_way c k bs cs s ord \<longleftrightarrow>
     list_all2 (on_way k) cs (fst s) \<and> distinct ord \<and> set ord = {j. j < length cs \<and> has_ended (fst s ! j)} \<and>
     open_at c k (bs @ concat (map (\<lambda>j. call_bytes (cs ! j)) ord)) (snd s)"

lemma ended_stays: "access c x w = Some (y, w') \<Longrightarrow> has_ended x \<Longrightarrow> has_ended y"
  by (cases x) auto

lemma under_way_step:
  assumes "under_way c k bs cs s ord" "compete c s s'"
  shows "\<exists>ord'. under_way c k bs cs s' ord'"
  using assms(2)
proof cases
  case (compete j xs w y w')
  note u = assms(1) [unfolded under_way_def compete fst_conv snd_conv]
  have l: "length xs = length cs" using u list_all2_lengthD by metis
  have on: "on_way k (cs ! j) (xs ! j)" using u list_all2_nthD2 compete(3) by metis
  note step = on_way_access(2) [OF on conjunct2 [OF conjunct2 [OF conjunct2 [OF u]]] compete(4)]
  then have on': "list_all2 (on_way k) cs (xs[j := y])"
    using u list_all2_update_cong [of "on_way k" cs xs "cs ! j" y j] by simp
  have e: "{i. i < length cs \<and> has_ended (xs[j := y] ! i)} =
      (if has_ended y then insert j (set ord) else set ord)"
    using u l compete(3) ended_stays [OF compete(4)] by (auto simp: nth_list_update)
  show ?thesis
  proof (cases "has_ended y \<and> \<not> has_ended (xs ! j)")
    case True
    then have "under_way c k bs cs s' (ord @ [j])"
      using u on' e step compete(2) by (auto simp: under_way_def)
    then show ?thesis ..
  next
    case False
    have "set ord = {i. i < length cs \<and> has_ended (xs[j := y] ! i)}"
      unfolding e using False u compete(3) l by auto
    then have "under_way c k bs cs s' ord"
      using u on' step False compete(2) by (auto simp: under_way_def)
    then show ?thesis ..
  qed
qed

lemma under_way_start:
  "attached w c k cn \<Longrightarrow> \<forall>x \<in> set cs. x = Read_Test \<or> (\<exists>p. x = Write_Test p \<and> Write p \<noteq> None) \<Longrightarrow>
     under_way c k (sent cn) cs (cs, w) []"
  by (fastforce simp: under_way_def open_at_def list_all2_same dest: nth_mem)

section \<open>Properties\<close>



text \<open>
  C9. A client that is closed while another goroutine is in a call on it panics, in either package: if the call has
  found a connection and the one that closes the client forgets it before the call loads it again, it calls
  a method of \<open>nil\<close>. So does a publisher that writes to a subscriber who leaves or whose identity is taken over,
  the goroutine of the client, which reads, and one that closes it too.
\<close>

theorem write_races_close:
  assumes "heap w c = Some cl" "conn cl = Some k" "x \<in> {Write_Test p, Read_Test, Close_Cancel}"
  shows "\<exists>xs w'. (compete c)\<^sup>*\<^sup>* ([x, Close_Cancel], w) (xs, w') \<and> access c (xs ! 0) w' = None"
proof -
  have "\<exists>js xs w'. in_turn c js [x, Close_Cancel] w = Some (xs, w') \<and> access c (xs ! 0) w' = None"
  proof (cases "x = Close_Cancel")
    case True
    with assms(1,2) show ?thesis
      by (intro exI [of _ "[0, 0, Suc 0, Suc 0, Suc 0, Suc 0, Suc 0]"])
        (auto simp: access_defs set_client_def conn_Close_def split: option.split)
  next
    case False
    with assms show ?thesis
      by (intro exI [of _ "[0, Suc 0, Suc 0, Suc 0, Suc 0, Suc 0]"])
        (auto simp: access_defs set_client_def conn_Close_def split: option.split)
  qed
  then show ?thesis using in_turn_compete by blast
qed

text \<open>The subscriber \<open>s\<close> of the sample run leaves while a message is written to it.\<close>

theorem write_races_close_witness:
  "\<exists>xs w'. (compete 1)\<^sup>*\<^sup>* ([Write_Test (PublishP run_publish), Close_Cancel], run_w5) (xs, w') \<and> access 1 (xs ! 0) w' = None"
  by (rule write_races_close [where k = 1]) (simp_all, simp add: run_client_def)

end
