(* ===== verification/Shutdown.thy ===== *)
theory Shutdown
  imports Start_Up
begin

text \<open>
  Closing the server: the contexts of \<open>server/server.go\<close>, \<open>broker/broker.go\<close>, \<open>cluster/cluster.go\<close> and of the
  clients, what \<open>Close\<close> of the server, the broker and the cluster cancels, and which goroutines of
  \<open>Start_Up\<close> that reaches.
\<close>

section \<open>Contexts\<close>

text \<open>
  The package \<open>context\<close> of Go: the contexts in the order they are made, each with its parent, \<open>None\<close> for
  \<open>context.Background()\<close>, and whether its cancel function was called. The channel of \<open>Done\<close> is closed if the
  context or one it comes from is cancelled.
\<close>

type_synonym ctxref = nat

record Context =
  ctx_parent :: "ctxref option"
  ctx_cancelled :: bool

definition WithCancel :: "ctxref option \<Rightarrow> Context list \<Rightarrow> ctxref \<times> Context list" where
  "WithCancel ctx cs = (length cs, cs @ [\<lparr>ctx_parent = ctx, ctx_cancelled = False\<rparr>])"

definition cancel :: "ctxref \<Rightarrow> Context list \<Rightarrow> Context list" where
  "cancel x cs = cs[x := (cs ! x)\<lparr>ctx_cancelled := True\<rparr>]"

fun Done :: "Context list \<Rightarrow> ctxref \<Rightarrow> bool" where
  "Done cs x =
     (if x < length cs then
        ctx_cancelled (cs ! x) \<or>
        (case ctx_parent (cs ! x) of None \<Rightarrow> False | Some p \<Rightarrow> if p < x then Done cs p else False)
      else False)"

declare Done.simps [simp del]

lemma cancel_simps [simp]:
  "length (cancel x cs) = length cs"
  "y < length cs \<Longrightarrow> ctx_parent (cancel x cs ! y) = ctx_parent (cs ! y)"
  "y < length cs \<Longrightarrow> ctx_cancelled (cancel x cs ! y) \<longleftrightarrow> ctx_cancelled (cs ! y) \<or> x = y"
  by (cases "x = y"; simp add: cancel_def)+

section \<open>The objects of the server\<close>

text \<open>The contexts the objects hold; what else they hold is in \<open>World\<close>.\<close>

record Broker_Object =
  b_ctx :: ctxref

record Cluster_Object =
  c_ctx :: ctxref

record Server_Object =
  s_ctx :: ctxref
  s_b :: Broker_Object
  s_c :: Cluster_Object

definition NewBroker :: "ctxref \<Rightarrow> Context list \<Rightarrow> Broker_Object \<times> Context list" where
  "NewBroker server_Context cs = (let (ctx, cs) = WithCancel (Some server_Context) cs in (\<lparr>b_ctx = ctx\<rparr>, cs))"

definition NewCluster :: "ctxref \<Rightarrow> Context list \<Rightarrow> Cluster_Object \<times> Context list" where
  "NewCluster server_Context cs = (let (ctx, cs) = WithCancel (Some server_Context) cs in (\<lparr>c_ctx = ctx\<rparr>, cs))"

definition NewServer_Object :: "ctxref option \<Rightarrow> Context list \<Rightarrow> Server_Object \<times> Context list" where
  "NewServer_Object ctx cs =
     (let (x, cs) = WithCancel ctx cs; (b, cs) = NewBroker x cs; (c, cs) = NewCluster x cs
      in (\<lparr>s_ctx = x, s_b = b, s_c = c\<rparr>, cs))"

definition Broker_Close :: "Broker_Object \<Rightarrow> Context list \<Rightarrow> Context list" where
  "Broker_Close b cs = cancel (b_ctx b) cs"

definition Cluster_Close :: "Cluster_Object \<Rightarrow> Context list \<Rightarrow> Context list" where
  "Cluster_Close c cs = cancel (c_ctx c) cs"

definition Server_Close :: "Server_Object \<Rightarrow> Context list \<Rightarrow> Context list" where
  "Server_Close s cs = cancel (s_ctx s) cs"

section \<open>The process\<close>

text \<open>
  The goroutines of a server that is up: \<open>main\<close>, which is in \<open>Server.Start\<close>, those \<open>Start_Up\<close> launches, and
  those that dialled another node. \<open>client_ctxs\<close>: the context of the client made for a connection.
\<close>

datatype runner = Main | Launched goroutine | Dialled connref

record Process =
  contexts :: "Context list"
  server :: Server_Object
  client_ctxs :: "connref \<Rightarrow> ctxref option"
  running :: "runner set"

definition process_up :: "Config \<Rightarrow> Process" where
  "process_up C =
     (let (s, cs) = NewServer_Object None []
      in \<lparr>contexts = cs, server = s, client_ctxs = \<lambda>_. None,
          running = insert Main (Launched ` (set (Server_Start C) \<union> {GoStateLoop} \<union>
            (if cfg_IsCluster C then set Cluster_Start else {})))\<rparr>)"

text \<open>
  The context whose \<open>Done\<close> each goroutine waits for: \<open>Start\<close> of the server and of the cluster, the loops of the state
  topics and of the heart beat, and the read loop of a client, which looks at it before every read. The listeners,
  their accept loops and the first \<open>CheckHealthy\<close> look at none.
\<close>

definition Start_waits :: "Server_Object \<Rightarrow> ctxref" where
  "Start_waits s = s_ctx s"

definition StartStateLoop_waits :: "Broker_Object \<Rightarrow> ctxref" where
  "StartStateLoop_waits b = b_ctx b"

definition Cluster_Start_waits :: "Cluster_Object \<Rightarrow> ctxref" where
  "Cluster_Start_waits c = c_ctx c"

definition HeartBeat_waits :: "Cluster_Object \<Rightarrow> ctxref" where
  "HeartBeat_waits c = c_ctx c"

definition ReadLoop_waits :: "Process \<Rightarrow> connref \<Rightarrow> ctxref option" where
  "ReadLoop_waits P k = client_ctxs P k"

lemmas waits_defs = Start_waits_def StartStateLoop_waits_def Cluster_Start_waits_def HeartBeat_waits_def ReadLoop_waits_def

fun waits_on :: "Process \<Rightarrow> runner \<Rightarrow> ctxref option" where
  "waits_on P Main = Some (Start_waits (server P))"
| "waits_on P (Launched GoStateLoop) = Some (StartStateLoop_waits (s_b (server P)))"
| "waits_on P (Launched GoClusterStart) = Some (Cluster_Start_waits (s_c (server P)))"
| "waits_on P (Launched GoHeartBeat) = Some (HeartBeat_waits (s_c (server P)))"
| "waits_on P (Launched (GoHandler k _)) = ReadLoop_waits P k"
| "waits_on P (Launched (GoHandlerServer k)) = ReadLoop_waits P k"
| "waits_on P (Dialled k) = ReadLoop_waits P k"
| "waits_on P _ = None"

declare waits_defs [simp]

definition may_end :: "Process \<Rightarrow> runner \<Rightarrow> bool" where
  "may_end P r = (case waits_on P r of None \<Rightarrow> False | Some x \<Rightarrow> Done (contexts P) x)"

fun serves :: "runner \<Rightarrow> connref \<Rightarrow> runner \<Rightarrow> bool" where
  "serves (Launched GoStartTcp) k r = (r = Launched (GoHandler k TypTcp))"
| "serves (Launched GoStartWebsocket) k r = (r = Launched (GoHandler k TypWs))"
| "serves (Launched GoStartServer) k r = (r = Launched (GoHandlerServer k))"
| "serves (Launched GoCheckHealthy) k r = (r = Dialled k)"
| "serves (Launched GoHeartBeat) k r = (r = Dialled k)"
| "serves _ _ _ = False"

text \<open>
  A goroutine serves a new connection; a client, the server, the broker or the cluster is closed; a goroutine sees
  that its context is done and returns; one returns for another reason, an error of its connection for
  instance. When \<open>main\<close> returns the process ends, with every goroutine it has.
\<close>

inductive lives :: "Process \<Rightarrow> Process \<Rightarrow> bool" where
  serve: "r \<in> running P \<Longrightarrow> serves r k h \<Longrightarrow> client_ctxs P k = None \<Longrightarrow> WithCancel None (contexts P) = (x, cs) \<Longrightarrow>
    lives P (P\<lparr>contexts := cs, client_ctxs := (client_ctxs P)(k \<mapsto> x), running := insert h (running P)\<rparr>)"
| close_client: "client_ctxs P k = Some x \<Longrightarrow> lives P (P\<lparr>contexts := cancel x (contexts P)\<rparr>)"
| close_server: "lives P (P\<lparr>contexts := Server_Close (server P) (contexts P)\<rparr>)"
| close_broker: "lives P (P\<lparr>contexts := Broker_Close (s_b (server P)) (contexts P)\<rparr>)"
| close_cluster: "lives P (P\<lparr>contexts := Cluster_Close (s_c (server P)) (contexts P)\<rparr>)"
| returns: "r \<in> running P \<Longrightarrow> r = Main \<longrightarrow> may_end P r \<Longrightarrow>
    lives P (P\<lparr>running := if r = Main then {} else running P - {r}\<rparr>)"

section \<open>What a cancelled context reaches\<close>

definition process_ok :: "Process \<Rightarrow> bool" where
  "process_ok P \<longleftrightarrow> server P = \<lparr>s_ctx = 0, s_b = \<lparr>b_ctx = 1\<rparr>, s_c = \<lparr>c_ctx = 2\<rparr>\<rparr> \<and>
     2 < length (contexts P) \<and>
     (\<forall>x < length (contexts P). ctx_parent (contexts P ! x) = (if x = 1 \<or> x = 2 then Some 0 else None)) \<and>
     (\<forall>k x. client_ctxs P k = Some x \<longrightarrow> x \<notin> {0, 1, 2} \<and> x < length (contexts P))"

lemma process_up_ok: "process_ok (process_up C)"
  by (auto simp: process_ok_def process_up_def NewServer_Object_def NewBroker_def NewCluster_def WithCancel_def
      less_Suc_eq numeral_2_eq_2 nth_append)

lemma lives_ok: "lives P Q \<Longrightarrow> process_ok P \<Longrightarrow> process_ok Q"
  by (induction rule: lives.induct)
    (auto simp: process_ok_def WithCancel_def Server_Close_def Broker_Close_def Cluster_Close_def
      nth_append less_Suc_eq)

lemma process_reach: "lives\<^sup>*\<^sup>* (process_up C) P \<Longrightarrow> process_ok P"
  by (induction rule: rtranclp_induct) (auto intro: lives_ok process_up_ok)

lemma Done_flat:
  assumes "process_ok P" "x < length (contexts P)"
  shows "Done (contexts P) x \<longleftrightarrow> ctx_cancelled (contexts P ! x) \<or> (x \<in> {1, 2} \<and> ctx_cancelled (contexts P ! 0))"
  using assms by (auto simp: process_ok_def Done.simps [of _ x] Done.simps [of _ 0])

lemma waits_on_ok: "process_ok P \<Longrightarrow> waits_on P r = Some x \<Longrightarrow> x < length (contexts P)"
  by (induction P r rule: waits_on.induct) (auto simp: process_ok_def)

lemma cancel_ok: "process_ok P \<Longrightarrow> process_ok (P\<lparr>contexts := cancel x (contexts P)\<rparr>)"
  by (simp add: process_ok_def)

lemma Done_cancel:
  assumes "process_ok P" "x < length (contexts P)" "z < length (contexts P)"
  shows "Done (cancel z (contexts P)) x \<longleftrightarrow> Done (contexts P) x \<or> x = z \<or> z = 0 \<and> x \<in> {1, 2}"
proof -
  have "0 < length (contexts P)" using assms(2) by linarith
  with Done_flat [OF cancel_ok [OF assms(1)], of x z] Done_flat [OF assms(1,2)] assms(2) show ?thesis by auto
qed

lemma may_end_cancel:
  assumes "process_ok P" "z \<le> 2"
  shows "may_end (P\<lparr>contexts := cancel z (contexts P)\<rparr>) r \<longleftrightarrow>
    may_end P r \<or> waits_on P r = Some z \<or> z = 0 \<and> waits_on P r \<in> {Some 1, Some 2}"
proof -
  have "waits_on (P\<lparr>contexts := cancel z (contexts P)\<rparr>) r = waits_on P r"
    by (induction P r rule: waits_on.induct) auto
  moreover have "z < length (contexts P)" using assms by (auto simp: process_ok_def)
  ultimately show ?thesis
    using waits_on_ok [OF assms(1), of r] Done_cancel [OF assms(1)]
    by (auto simp: may_end_def split: option.split)
qed

lemma waits_on_server:
  assumes "process_ok P"
  shows "waits_on P r = Some 0 \<longleftrightarrow> r = Main"
    "waits_on P r = Some 1 \<longleftrightarrow> r = Launched GoStateLoop"
    "waits_on P r = Some 2 \<longleftrightarrow> r \<in> {Launched GoClusterStart, Launched GoHeartBeat}"
  using assms by (induction P r rule: waits_on.induct) (auto simp: process_ok_def)

lemma no_end_at_start: "\<not> may_end (process_up C) r"
proof -
  have "ctx_cancelled (contexts (process_up C) ! x) = False" if "x < length (contexts (process_up C))" for x
    using that by (auto simp: process_up_def NewServer_Object_def NewBroker_def NewCluster_def WithCancel_def
        less_Suc_eq nth_append)
  moreover have "0 < length (contexts (process_up C))" using process_up_ok [of C] by (auto simp: process_ok_def)
  ultimately show ?thesis
    using Done_flat [OF process_up_ok] waits_on_ok [OF process_up_ok, of C r]
    by (auto simp: may_end_def split: option.split)
qed

text \<open>
  What closing reaches, in every state of a process. After \<open>Server.Close\<close> these may see their context done: \<open>Server.Start\<close>, the state topics,
  \<open>Cluster.Start\<close> and the heart beat. When \<open>Server.Start\<close> does, \<open>main\<close> returns and the whole process ends, listeners and
  read loops too. \<open>Broker.Close\<close> and \<open>Cluster.Close\<close> do not reach \<open>main\<close>: the first ends the state topics, the second the two
  goroutines of the cluster, and the listeners and the connections that are open stay.
\<close>

lemma close_reaches:
  assumes "lives\<^sup>*\<^sup>* (process_up C) P"
  shows "Collect (may_end (P\<lparr>contexts := Server_Close (server P) (contexts P)\<rparr>)) =
      {Main, Launched GoStateLoop, Launched GoClusterStart, Launched GoHeartBeat} \<union> Collect (may_end P) \<and>
    Collect (may_end (P\<lparr>contexts := Broker_Close (s_b (server P)) (contexts P)\<rparr>)) =
      {Launched GoStateLoop} \<union> Collect (may_end P) \<and>
    Collect (may_end (P\<lparr>contexts := Cluster_Close (s_c (server P)) (contexts P)\<rparr>)) =
      {Launched GoClusterStart, Launched GoHeartBeat} \<union> Collect (may_end P)"
proof -
  have ok: "process_ok P" by (rule process_reach [OF assms])
  then have "server P = \<lparr>s_ctx = 0, s_b = \<lparr>b_ctx = 1\<rparr>, s_c = \<lparr>c_ctx = 2\<rparr>\<rparr>" by (simp add: process_ok_def)
  with may_end_cancel [OF ok] waits_on_server [OF ok] show ?thesis
    by (auto simp: Server_Close_def Broker_Close_def Cluster_Close_def)
qed

lemma server_close_ends_process:
  assumes "lives\<^sup>*\<^sup>* (process_up C) P" "Main \<in> running P"
  shows "\<exists>Q. lives (P\<lparr>contexts := Server_Close (server P) (contexts P)\<rparr>) Q \<and> running Q = {}"
proof -
  have "may_end (P\<lparr>contexts := Server_Close (server P) (contexts P)\<rparr>) Main"
    using close_reaches [OF assms(1), THEN conjunct1] by blast
  with lives.returns [of Main "P\<lparr>contexts := Server_Close (server P) (contexts P)\<rparr>"] assms(2) show ?thesis by fastforce
qed

lemma close_reaches_example:
  "let P = process_up zero_Config
   in may_end (P\<lparr>contexts := Server_Close (server P) (contexts P)\<rparr>) Main \<and>
     \<not> may_end (P\<lparr>contexts := Broker_Close (s_b (server P)) (contexts P)\<rparr>) (Launched GoHeartBeat) \<and>
     may_end (P\<lparr>contexts := Cluster_Close (s_c (server P)) (contexts P)\<rparr>) (Launched GoHeartBeat)"
  using close_reaches [OF rtranclp.rtrancl_refl, of zero_Config] waits_on_server [OF process_up_ok [of zero_Config]]
    no_end_at_start [of zero_Config "Launched GoHeartBeat"]
  by (auto simp: Let_def)

end
