(* ===== verification/Spec2Isabelle.thy ===== *)
theory Spec2Isabelle
  imports Packet_Properties Topic_Properties Session_Properties System_Properties Qos2_Liveness
    Cluster_Properties Config_Properties Packet_Text Logger Interleaving Two_Node_Properties
    Node_Join Storage_Calls Client_Calls Shutdown
begin

text \<open>
  A model of the MQTT broker \<open>amqtt\<close> (Go) and its verification.

  The program. \<open>main.go\<close> reads the settings (\<open>config\<close>) and starts a server (\<open>server\<close>). Its broker
  (\<open>broker\<close>) accepts connections and runs one goroutine for each: the first packet must be a CONNECT, then
  a loop reads packets (\<open>packets\<close>) and hands them to a processor, which keeps the subscriptions and the
  retained messages in a topic storage (\<open>trie\<close>) and writes to the clients it concerns. A cluster
  (\<open>cluster\<close>) connects the node to others: a peer subscribes for its clients in a second topic storage and
  is sent the messages that match. Further goroutines publish the counters under \<open>$SYS\<close>, ping or dial the
  other nodes, and expire the identifiers of QoS 2 messages.

  The packet codec.
    \<^item> \<open>Prelude\<close>: bytes, words and strings of Go, its error values, readers, maps as association lists, and
      the interface of a wire format (locale \<open>wire_format\<close>).
    \<^item> \<open>Codec\<close>, \<open>Packets\<close>: \<open>packets/*.go\<close>, the field codecs, the fixed header, the fourteen packets with their
      \<open>Write\<close>, \<open>Unpack\<close>, \<open>Validate\<close>, and \<open>ReadPacket\<close>.
    \<^item> \<open>Packet_Text\<close>: the tables of names, \<open>String\<close> and \<open>Details\<close> of every packet.
    \<^item> \<open>Packet_Roundtrip\<close>, \<open>Packet_Laws\<close>, \<open>Packet_Properties\<close>: every packet survives the wire, streams split
      back, what is cut off is rejected, and where the decoders accept too much.

  The topic storage.
    \<^item> \<open>Go_Strings\<close>, \<open>Topic_Leaf\<close>, \<open>Topic_Branch\<close>, \<open>Topic_Trie\<close>: \<open>trie/*.go\<close>. The tree of pointers is an
      inductive tree that the operations rebuild; no branch is shared.
    \<^item> \<open>Topic_Laws\<close>: each operation as a change of the leaves at paths; \<open>Topic_Storage\<close>: the invariant
      \<open>wf_trie\<close>, the view \<open>subscription\<close> (a map from filter and identity to the subscriber) that the storage
      refines, and the interface \<open>topic_storage\<close>; \<open>Topic_Holders\<close>: who sits in a storage.
    \<^item> \<open>Topic_Receivers\<close>: who receives a message in any state the operations lead to, every copy of a subscription
      included (\<open>copy_at\<close>, \<open>receivers\<close>); the copies that \<open>Unsubscribe\<close> leaves behind (\<open>leftovers\<close>); and the
      matching of MQTT 3.1.1 (\<open>spec_match\<close>) beside that of the storage (\<open>filter_match\<close>).
    \<^item> \<open>Topic_Properties\<close>: what each operation does to the subscriptions and the retained packets, who receives what,
      and where this is not what MQTT asks for.
    \<^item> \<open>Storage_Calls\<close>: the same operations as the accesses they make to the synchronised map \<open>foliage\<close>, to the
      leaves it points to (cells of a heap) and, under the mutex, to the tree. \<open>advance\<close> is the next access of a
      call, \<open>race\<close> an access of one of several calls under way, \<open>data_race\<close> two of them about to
      access the map of one leaf, which has no lock. Calls of which none changes a leaf that another uses (\<open>apart\<close>) have
      no data race, keep the storage well formed and have an order that explains them; two calls on one leaf
      reach a data race, and subscriptions get lost where the leaf comes or goes.

  The server.
    \<^item> \<open>World\<close>: \<open>server/server.go\<close>, \<open>ifs/i_server.go\<close> and the client objects of \<open>broker/clients.go\<close> and
      \<open>cluster/clients.go\<close>, with the interface \<open>ifs.Client\<close> that selects between the two. Clients and
      connections are shared by pointer, so the record \<open>World\<close> has a heap for each; an operation takes the
      world and returns the new one, and \<open>None\<close> is a panic.
    \<^item> \<open>Broker_Processor\<close>: \<open>broker/processor.go\<close>, one definition per \<open>Process\<close> function; \<open>Broker\<close>: the read
      loop, the handler of a connection and the state topics; \<open>Cluster_Processor\<close>, \<open>Cluster\<close>: the same of the
      package \<open>cluster\<close>, and the synchronisation of topics and the health check.
    \<^item> \<open>Go_Flags\<close>, \<open>Config\<close>: \<open>config/config.go\<close> on a model of Go's packages \<open>strconv\<close> and \<open>flag\<close>. The TOML
      decoder is third-party and an argument of \<open>Configure\<close>; nothing is assumed about it.
    \<^item> \<open>Actions\<close>: every handler is a sequence of atomic actions whose labels its packet determines.
      \<open>World_Invariant\<close>: what every action keeps; \<open>good_world\<close> says that the heaps are well formed and that
      every table holds clients of the right package. It holds between any two actions, so it does not
      depend on a handler running undisturbed.
    \<^item> \<open>System\<close>: the goroutines as a transition system. \<open>step C\<close> is one turn of one goroutine under the settings
      \<open>C\<close> (accepting or dialling a connection, handling its first packet, the test of the read loop, one read
      with the processing of the packet), a connection breaking, the state topics, the health check, the
      clock, or a timer. \<open>reachable C\<close> are the states these lead to from the start.
    \<^item> \<open>Start_Up\<close>: \<open>main\<close>, \<open>Server.Start\<close>, the listeners and the dialling with their TLS settings, and the
      tickers. Sockets, certificates and files are functions of a record \<open>Env\<close>. Dialling and the tickers are
      steps of \<open>System\<close>. \<open>Logger\<close>: \<open>logger/log.go\<close> on the third-party logging package as a record of functions,
      and the level that is left when the server starts.
    \<^item> \<open>Shutdown\<close>: the contexts of the server, the broker, the cluster and the clients, what \<open>Close\<close> of the first
      three cancels, and which goroutines wait for it. When \<open>Server.Start\<close> returns so does \<open>main\<close>, and the process ends.
    \<^item> \<open>Client_Calls\<close>: \<open>WritePacket\<close>, \<open>ReadPacket\<close> and \<open>Close\<close> of a client as their accesses to the field \<open>conn\<close> and to the
      connection. \<open>access\<close> is the next access of a call, \<open>compete\<close> an access of one of several calls. An undisturbed
      call is that of \<open>World\<close>; writes and reads without a close do not disturb each other, and a close may make
      any other call on the client panic.
    \<^item> \<open>Interleaving\<close>: the same goroutines, changing over after every action. \<open>interleaved\<close> are the worlds these
      turns lead to; a step of \<open>System\<close> is a sequence of turns, and what a goroutine has looked up passes its type assertion.
    \<^item> \<open>Broker_Totality\<close>: in a good world the broker's handlers do not panic; \<open>Read_Loop\<close>: the loops end, for any
      processor that meets the interface \<open>message_processor\<close>, which both processors do; \<open>Counters\<close>,
      \<open>Qos2_Table\<close>: further invariants of the reachable states.
    \<^item> \<open>Delivery\<close>, \<open>Broker_Effects\<close>, \<open>Session_Effects\<close>: what the handlers write to whom and what they leave in
      the storage. \<open>Cluster_Effects\<close>: the same for the packets a node sends to its peers and gets from them.
    \<^item> \<open>Two_Nodes\<close>, \<open>Two_Node_Properties\<close>: two worlds, the nodes A and B, joined by a connection: \<open>arrive\<close> puts the
      bytes one has written at the end of what the other will read. A subscription goes from A to B
      and a message comes back; one unsubscription of one client cuts A off. \<open>Node_Join\<close>: both handlers of a new
      connection between the nodes, and the reads after which B holds the topics of A.
    \<^item> \<open>Sample_Run\<close>: a run of ten steps on concrete bytes, on which the witnesses are evaluated.
    \<^item> \<open>Session_Properties\<close>, \<open>System_Properties\<close>, \<open>Qos2_Liveness\<close>, \<open>Cluster_Properties\<close>,
      \<open>Config_Properties\<close>: the properties.

  Bounds. Counters are 64-bit words and wrap. Times are seconds in a 64-bit word; the clock of a reachable
  state stays below \<open>2 ^ 62\<close>, so adding the timeout and taking differences do not overflow. \<open>maxQos2Msgs\<close>
  is 0 as in the program, which never sets it. A read loop is a partial function whose option says
  whether it returns, so that it returns is a theorem (\<open>handlers_return\<close>) and not built in; the input of a
  connection is a finite list, given as a whole, of which each read takes what it needs when it happens.

  Interleaving. In \<open>System\<close> a handler's processing of one packet is one step. In the program another goroutine
  may run in between, as in \<open>Interleaving\<close>, where the invariants are proved too. The statements about the outcome of a
  handler, that it does not panic included, are about an undisturbed one. An action of \<open>Interleaving\<close> is one call on a shared
  object in one piece; \<open>Storage_Calls\<close> and \<open>Client_Calls\<close> take the calls apart and show where this is a fair picture and where
  the calls panic, race or get lost. The other maps without a lock (the QoS 2 table and the topics of a client) are
  data races in the program and atomic here.

  Not modelled: what crosses a listener before a connection is handed on (the TLS and websocket handshakes),
  the calls of the logger in the handlers, which only write text. \<open>Write\<close> stores lengths in the packet it writes: for
  a packet on its way through the subscribers this is modelled, for a packet in the storage, whose next
  \<open>Write\<close> stores the same lengths, it is not. The order in which Go visits a map is that of the association
  list.
\<close>

end
